(* ===== verification/Prelude.thy ===== *)
theory Prelude
  imports Main "HOL-Library.Word"
begin

text \<open>
  Shared ground of the development: the machine-integer types of the C sources, the outcome
  type that makes a crash or an exit of the simulator process a value, counted loops, and the
  generic lemmas on words and lists that the component theories use.  Nothing here models a
  particular source file.
\<close>

unbundle bit_operations_syntax

section \<open>Machine integers\<close>

type_synonym u8 = "8 word"
type_synonym u16 = "16 word"
type_synonym u32 = "32 word"
type_synonym u64 = "64 word"

section \<open>Outcomes of a C function\<close>

text \<open>
  A call either returns a value or stops the process: it dereferences a null pointer, reads or
  writes outside an array, uses storage that has been freed, fails an assertion, is killed by the signal for a
  write to a closed connection, or calls \<^verbatim>\<open>exit\<close>.
\<close>

datatype stop =
    Null_Deref
  | Out_Of_Bounds
  | Freed
  | Abort
  | Broken_Pipe
  | Exit int

type_synonym 'a outcome = "stop + 'a"

definition bnd :: "'a outcome \<Rightarrow> ('a \<Rightarrow> 'b outcome) \<Rightarrow> 'b outcome" where
  "bnd m f = (case m of Inl e \<Rightarrow> Inl e | Inr x \<Rightarrow> f x)"

text \<open>The loop \<^verbatim>\<open>for (i = lo; i < hi; i++) body\<close> over a state.\<close>

definition for_range :: "nat \<Rightarrow> nat \<Rightarrow> (nat \<Rightarrow> 's \<Rightarrow> 's) \<Rightarrow> 's \<Rightarrow> 's" where
  "for_range lo hi body s = fold body [lo..<hi] s"

text \<open>The same loop with a body that can stop the process.\<close>

fun for_out :: "nat list \<Rightarrow> (nat \<Rightarrow> 's \<Rightarrow> 's outcome) \<Rightarrow> 's \<Rightarrow> 's outcome" where
  "for_out [] body s = Inr s"
| "for_out (i # is) body s = bnd (body i s) (for_out is body)"

section \<open>Lemma collections\<close>

text \<open>
  \<open>outcome_simps\<close>: how sequencing of outcomes computes; \<open>c_macros\<close>: the macro
  definitions of the sources; \<open>field_bounds\<close>: bounds of decoded instruction fields.
\<close>

named_theorems outcome_simps
named_theorems c_macros
named_theorems field_bounds

lemma bnd_Inr [simp, outcome_simps]: "bnd (Inr x) f = f x"
  by (simp add: bnd_def)

lemma bnd_Inl [simp, outcome_simps]: "bnd (Inl e) f = Inl e"
  by (simp add: bnd_def)

lemma bnd_assoc [outcome_simps]: "bnd (bnd m f) g = bnd m (\<lambda>x. bnd (f x) g)"
  by (cases m) simp_all

lemma bnd_Inr_right [simp]: "bnd m Inr = m"
  by (cases m) simp_all

lemma for_out_Nil: "for_out [] body = Inr"
  by (simp add: fun_eq_iff)

lemma bnd_eq_Inr_iff: "bnd m f = Inr y \<longleftrightarrow> (\<exists>x. m = Inr x \<and> f x = Inr y)"
  by (cases m) simp_all

lemma bnd_eq_Inl_iff: "bnd m f = Inl e \<longleftrightarrow> m = Inl e \<or> (\<exists>x. m = Inr x \<and> f x = Inl e)"
  by (cases m) simp_all

lemma bnd_cong [fundef_cong]:
  "m = m' \<Longrightarrow> (\<And>x. m' = Inr x \<Longrightarrow> f x = f' x) \<Longrightarrow> bnd m f = bnd m' f'"
  by (cases m') simp_all

lemma bnd_if: "bnd (if b then m else n) f = (if b then bnd m f else bnd n f)"
  by simp

lemma for_out_append: "for_out (is @ js) body s = bnd (for_out is body s) (for_out js body)"
proof (induction "is" arbitrary: s)
  case (Cons i "is")
  then show ?case by (cases "body i s") simp_all
qed simp

text \<open>An invariant of the body is an invariant of the loop, and a loop whose body never stops
  the process never does.\<close>

lemma for_out_invariant:
  assumes "for_out is body s = Inr s'" and "P s"
    and "\<And>i s s'. i \<in> set is \<Longrightarrow> P s \<Longrightarrow> body i s = Inr s' \<Longrightarrow> P s'"
  shows "P s'"
  using assms
proof (induction "is" arbitrary: s)
  case Nil
  then show ?case by simp
next
  case (Cons i "is")
  from Cons.prems(1) obtain t where t: "body i s = Inr t" "for_out is body t = Inr s'"
    by (auto simp: bnd_eq_Inr_iff)
  have "P t" using Cons.prems(2) t(1) by (rule Cons.prems(3)[rotated]) simp
  with t(2) show ?case using Cons.prems(3) by (intro Cons.IH[of t]) auto
qed

lemma for_out_total:
  assumes "P s" and "\<And>i s. i \<in> set is \<Longrightarrow> P s \<Longrightarrow> \<exists>s'. body i s = Inr s' \<and> P s'"
  shows "\<exists>s'. for_out is body s = Inr s' \<and> P s'"
  using assms
proof (induction "is" arbitrary: s)
  case Nil
  then show ?case by simp
next
  case (Cons i "is")
  then obtain t where "body i s = Inr t" "P t" by (meson list.set_intros(1))
  moreover from this obtain s' where "for_out is body t = Inr s'" "P s'"
    using Cons.IH[of t] Cons.prems(2) by (meson list.set_intros(2))
  ultimately show ?case by auto
qed

lemma for_out_cong: "(\<And>i s. i \<in> set is \<Longrightarrow> f i s = g i s) \<Longrightarrow> for_out is f s = for_out is g s"
proof (induction "is" arbitrary: s)
  case (Cons i "is")
  then show ?case by (cases "g i s") simp_all
qed simp

text \<open>A loop whose body skips some indices runs over the others.\<close>

lemma for_out_filter: "for_out is (\<lambda>i s. if P i then f i s else Inr s) s = for_out (filter P is) f s"
proof (induction "is" arbitrary: s)
  case (Cons i "is")
  then show ?case by (cases "f i s") simp_all
qed simp

text \<open>Total correctness of an outcome: it is a value that satisfies the postcondition.\<close>

definition returns :: "'a outcome \<Rightarrow> ('a \<Rightarrow> bool) \<Rightarrow> bool" where
  "returns m P \<longleftrightarrow> (\<exists>x. m = Inr x \<and> P x)"

lemma returns_Inr [simp]: "returns (Inr x) P \<longleftrightarrow> P x"
  by (simp add: returns_def)

lemma returns_Inl [simp]: "\<not> returns (Inl e) P"
  by (simp add: returns_def)

lemma returns_bnd: "returns (bnd m f) P \<longleftrightarrow> returns m (\<lambda>x. returns (f x) P)"
  by (cases m) simp_all

lemma returns_mono: "returns m P \<Longrightarrow> (\<And>x. P x \<Longrightarrow> Q x) \<Longrightarrow> returns m Q"
  by (auto simp: returns_def)

lemma returnsD: "returns m P \<Longrightarrow> m = Inr x \<Longrightarrow> P x"
  by simp

lemma returns_for_out:
  assumes "P s" and "\<And>i s. i \<in> set is \<Longrightarrow> P s \<Longrightarrow> returns (body i s) P"
  shows "returns (for_out is body s) P"
  unfolding returns_def using assms by (intro for_out_total) (auto simp: returns_def)

section \<open>Words and lists\<close>

lemma for_range_Suc: "lo \<le> hi \<Longrightarrow> for_range lo (Suc hi) body s = body hi (for_range lo hi body s)"
  by (simp add: for_range_def)

lemma for_range_invariant:
  assumes "P s" and "\<And>i s. lo \<le> i \<Longrightarrow> i < hi \<Longrightarrow> P s \<Longrightarrow> P (body i s)"
  shows "P (for_range lo hi body s)"
  unfolding for_range_def
  by (rule fold_invariant[where Q = "\<lambda>i. lo \<le> i \<and> i < hi"]) (use assms in auto)

lemma unat_plus_of_nat: "unat a + i < 2 ^ 32 \<Longrightarrow> unat (a + of_nat i :: u32) = unat a + i"
  by (simp add: unat_word_ariths unsigned_of_nat take_bit_eq_mod)

lemma mod_near:
  assumes "- m \<le> a" "a < 2 * m" "(0 :: int) < m"
  shows "a mod m = (if a < 0 then a + m else if a \<ge> m then a - m else a)"
proof -
  consider "a < 0" | "0 \<le> a" "a < m" | "m \<le> a" by linarith
  then show ?thesis
  proof cases
    case 1
    then have "(a + m) mod m = a + m" using assms by (intro mod_pos_pos_trivial) simp_all
    with 1 show ?thesis by simp
  next
    case 3
    then have "(a - m) mod m = a - m" using assms by (intro mod_pos_pos_trivial) simp_all
    with 3 assms show ?thesis by simp
  qed simp
qed

lemma div_near:
  assumes "- m \<le> a" "a < 2 * m" "(0 :: int) < m"
  shows "a div m = (if a < 0 then - 1 else if a \<ge> m then 1 else 0)"
proof -
  define e :: int where "e = (if a < 0 then - 1 else if a \<ge> m then 1 else 0)"
  have "a mod m = a - m * e" using mod_near[OF assms] by (simp add: e_def)
  then have "m * (a div m) = m * e" by (simp add: minus_mod_eq_mult_div [symmetric])
  then show ?thesis using assms(3) by (simp add: e_def)
qed

lemma unat_ucast_u32_u64 [simp]: "unat (ucast (a :: u32) :: u64) = unat a"
  by transfer simp

end
