(* ===== verification/Util.thy ===== *)
theory Util
  imports Prelude
begin

text \<open>
  The bit macros of \<^verbatim>\<open>util.h\<close> and the three functions of \<^verbatim>\<open>util.c\<close>.

  What the C standard leaves open is a parameter, the record \<open>host\<close>: the byte order of the
  machine the simulator runs on, and the value of a 32-bit shift whose count is 32 or more
  (undefined in C; x86 masks the count, other machines shift everything out).  The macros use
  signed shifts of \<^verbatim>\<open>~0\<close> and \<^verbatim>\<open>1\<close>; they are modelled as GCC defines them, two's complement with
  an arithmetic right shift.
\<close>

section \<open>The host\<close>

record host =
  host_big :: bool
  over_shl :: "u32 \<Rightarrow> nat \<Rightarrow> u32"
  over_shr :: "u32 \<Rightarrow> nat \<Rightarrow> u32"

definition c_shl :: "host \<Rightarrow> u32 \<Rightarrow> nat \<Rightarrow> u32" where
  "c_shl h x n = (if n < 32 then push_bit n x else over_shl h x n)"

definition c_shr :: "host \<Rightarrow> u32 \<Rightarrow> nat \<Rightarrow> u32" where
  "c_shr h x n = (if n < 32 then drop_bit n x else over_shr h x n)"

text \<open>The documented behaviours of processors for a left shift by exactly 32: the count is
  taken modulo 32, or every bit is shifted out.\<close>

definition host_shl32 :: "host \<Rightarrow> bool" where
  "host_shl32 h \<longleftrightarrow> (\<forall>x. over_shl h x 32 = x \<or> over_shl h x 32 = 0)"

text \<open>Two concrete hosts: a little-endian one that masks shift counts, as x86 does, and a
  big-endian one that shifts everything out.\<close>

definition x86_host :: host where
  "x86_host = \<lparr>host_big = False,
     over_shl = (\<lambda>x n. push_bit (n mod 32) x), over_shr = (\<lambda>x n. drop_bit (n mod 32) x)\<rparr>"

definition be_host :: host where
  "be_host = \<lparr>host_big = True, over_shl = (\<lambda>x n. 0), over_shr = (\<lambda>x n. 0)\<rparr>"

section \<open>Macros\<close>

definition get_bit :: "u32 \<Rightarrow> nat \<Rightarrow> u32" where
  "get_bit x i = drop_bit i x AND 1"

definition set_bit_c :: "u32 \<Rightarrow> nat \<Rightarrow> u32" where
  "set_bit_c x i = x OR push_bit i 1"

definition clr_bit :: "u32 \<Rightarrow> nat \<Rightarrow> u32" where
  "clr_bit x i = x AND NOT (push_bit i 1)"

definition get_bits :: "u32 \<Rightarrow> nat \<Rightarrow> nat \<Rightarrow> u32" where
  "get_bits x hi lo =
     drop_bit lo x AND NOT (push_bit (hi - lo + 1) (signed_drop_bit (hi - lo + 1) (NOT 0)))"

definition set_bits_c :: "u32 \<Rightarrow> nat \<Rightarrow> nat \<Rightarrow> u32 \<Rightarrow> u32" where
  "set_bits_c x hi lo bits =
     (x AND NOT (push_bit lo (signed_drop_bit lo (NOT 0))))
     OR (x AND push_bit (hi + 1) (signed_drop_bit (hi + 1) (NOT 0)))
     OR push_bit lo bits"

definition reverse_2 :: "u16 \<Rightarrow> u16" where
  "reverse_2 x = push_bit 8 (x AND 0xFF) OR (drop_bit 8 x AND 0xFF)"

definition reverse_4 :: "u32 \<Rightarrow> u32" where
  "reverse_4 x = push_bit 24 (x AND 0xFF) OR push_bit 16 (drop_bit 8 x AND 0xFF)
     OR push_bit 8 (drop_bit 16 x AND 0xFF) OR (drop_bit 24 x AND 0xFF)"

section \<open>Functions of util.c\<close>

text \<open>The count \<open>32 - shift\<close> is an \<^verbatim>\<open>int\<close> in C; for counts above 32 it would be negative and the shift undefined.  The callers
  stay below, so the natural subtraction is the one of the code.\<close>

definition asr :: "host \<Rightarrow> u32 \<Rightarrow> u8 \<Rightarrow> u32" where
  "asr h value shift =
     c_shr h value (unat shift)
     OR (if get_bit value 31 \<noteq> 0 then c_shl h (NOT 0) (32 - unat shift) else 0)"

definition ror :: "host \<Rightarrow> u32 \<Rightarrow> u8 \<Rightarrow> u32" where
  "ror h value rotation = c_shr h value (unat rotation) OR c_shl h value (32 - unat rotation)"

text \<open>The bytes of a value in memory order, lowest address first, on the host.\<close>

fun le_bytes :: "nat \<Rightarrow> 'a::len word \<Rightarrow> u8 list" where
  "le_bytes 0 v = []"
| "le_bytes (Suc n) v = ucast v # le_bytes n (drop_bit 8 v)"

fun from_le :: "u8 list \<Rightarrow> 'a::len word" where
  "from_le [] = 0"
| "from_le (b # bs) = ucast b OR push_bit 8 (from_le bs)"

definition host_bytes :: "host \<Rightarrow> nat \<Rightarrow> 'a::len word \<Rightarrow> u8 list" where
  "host_bytes h n v = (if host_big h then rev (le_bytes n v) else le_bytes n v)"

definition host_value :: "host \<Rightarrow> u8 list \<Rightarrow> 'a::len word" where
  "host_value h bs = from_le (if host_big h then rev bs else bs)"

definition is_big_endian :: "host \<Rightarrow> int" where
  "is_big_endian h = (if hd (host_bytes h 4 (1 :: u32)) = 0 then 1 else 0)"

section \<open>The macros compute what their names say\<close>

lemma get_bit_eq: "get_bit x i = of_bool (bit x i)"
  by (simp add: get_bit_def and_one_eq bit_iff_odd_drop_bit mod_2_eq_odd)

lemma get_bit_eq_0_iff [simp, c_macros]: "get_bit x i = 0 \<longleftrightarrow> \<not> bit x i"
  by (simp add: get_bit_eq)

lemma get_bit_eq_1_iff [simp, c_macros]: "get_bit x i = 1 \<longleftrightarrow> bit x i"
  by (simp add: get_bit_eq)

lemma get_bit_eq_get_bit [simp, c_macros]: "get_bit x i = get_bit y j \<longleftrightarrow> (bit x i \<longleftrightarrow> bit y j)"
  by (simp add: get_bit_eq)

lemma set_bit_c_eq [c_macros]: "set_bit_c x i = Bit_Operations.set_bit i x"
  by (simp add: set_bit_c_def set_bit_eq_or push_bit_eq_mult)

lemma clr_bit_eq [c_macros]: "clr_bit x i = unset_bit i x"
  by (simp add: clr_bit_def unset_bit_eq_and_not push_bit_eq_mult)

lemma signed_drop_bit_minus_1: "signed_drop_bit n (- 1 :: u32) = - 1"
  by (rule bit_word_eqI) (simp add: bit_simps)

lemma get_bits_eq [c_macros]: "get_bits x hi lo = take_bit (hi - lo + 1) (drop_bit lo x)"
proof -
  have "push_bit n (signed_drop_bit n (NOT 0 :: u32)) = NOT (mask n)" for n
    by (rule bit_word_eqI) (auto simp: bit_simps)
  then show ?thesis
    by (simp only: get_bits_def bit.double_compl take_bit_eq_mask)
qed

lemma bit_get_bits [simp]: "bit (get_bits x hi lo) i \<longleftrightarrow> i \<le> hi - lo \<and> bit x (lo + i)"
  by (auto simp: get_bits_eq bit_simps)

lemma get_bits_bound [field_bounds]: "unat (get_bits x hi lo) < 2 ^ (hi - lo + 1)"
proof -
  have "unat (get_bits x hi lo) = take_bit (hi - lo + 1) (unat (drop_bit lo x))"
    by (simp add: get_bits_eq unsigned_take_bit_eq)
  then show ?thesis by (simp only: take_bit_nat_less_exp)
qed

lemma unat_get_bits_less [simp, field_bounds]: "hi - lo \<le> 3 \<Longrightarrow> unat (get_bits x hi lo) < 16"
proof -
  assume "hi - lo \<le> 3"
  then have "(2 :: nat) ^ (hi - lo + 1) \<le> 2 ^ 4" by (intro power_increasing) simp_all
  then show ?thesis using get_bits_bound[of x hi lo] by simp
qed

text \<open>A register number of four bits keeps its value as a \<^verbatim>\<open>uint8_t\<close>, and is a valid register.\<close>

lemma unat_field [simp, field_bounds]:
  "hi - lo \<le> 7 \<Longrightarrow> unat (ucast (get_bits x hi lo) :: u8) = unat (get_bits x hi lo)"
proof -
  assume "hi - lo \<le> 7"
  then have "(2 :: nat) ^ (hi - lo + 1) \<le> 2 ^ 8" by (intro power_increasing) simp_all
  then have "unat (get_bits x hi lo) < 2 ^ 8" using get_bits_bound[of x hi lo] by simp
  then show ?thesis by (simp add: unsigned_ucast_eq take_bit_nat_eq_self)
qed

lemma field_eq_iff:
  assumes "hi - lo \<le> 7"
  shows "(ucast (get_bits x hi lo) :: u8) = w \<longleftrightarrow> get_bits x hi lo = ucast w"
proof -
  have "unat (ucast w :: u32) = unat w" by transfer simp
  then show ?thesis using assms by (simp add: word_unat_eq_iff)
qed

lemma reg_field_less [simp, field_bounds]: "hi - lo \<le> 3 \<Longrightarrow> unat (get_bits x hi lo) < 17"
  by (rule less_trans[OF unat_get_bits_less]) simp_all

lemma get_bits_two: "get_bits x (Suc lo) lo = of_bool (bit x lo) + 2 * of_bool (bit x (Suc lo))"
proof -
  have "take_bit 2 y = of_bool (bit y 0) + 2 * of_bool (bit y 1)" for y :: u32
    by (simp add: take_bit_rec[of 2] take_bit_rec[of 1] bit_0 bit_Suc mod_2_eq_odd ac_simps)
  then show ?thesis by (simp add: get_bits_eq bit_drop_bit_eq flip: numeral_2_eq_2)
qed

lemma get_bits_set_bits_c:
  assumes "lo \<le> hi" "hi < 31" "take_bit (hi - lo + 1) bits = bits"
  shows "get_bits (set_bits_c x hi lo bits) hi lo = bits"
proof (rule bit_word_eqI)
  fix i assume "i < LENGTH(32)"
  have b: "bit bits i \<longleftrightarrow> i \<le> hi - lo \<and> bit bits i"
    using assms(3) by (metis Suc_eq_plus1 bit_take_bit_iff less_Suc_eq_le)
  then show "bit (get_bits (set_bits_c x hi lo bits) hi lo) i = bit bits i"
    using assms(1,2) by (auto simp: set_bits_c_def bit_simps)
qed

section \<open>Shifts and rotations\<close>

lemma c_shl_less [simp]: "n < 32 \<Longrightarrow> c_shl h x n = push_bit n x"
  by (simp add: c_shl_def)

lemma c_shr_less [simp]: "n < 32 \<Longrightarrow> c_shr h x n = drop_bit n x"
  by (simp add: c_shr_def)

lemma host_shl32_instances: "host_shl32 x86_host" "host_shl32 be_host"
  by (simp_all add: host_shl32_def x86_host_def be_host_def)

lemma word_rotr_u32_0: "word_rotr 0 (x :: u32) = x"
  by (rule bit_word_eqI) (simp add: bit_word_rotr_iff)

lemma word_rotr_u32:
  assumes "0 < n" "n < 32"
  shows "word_rotr n (x :: u32) = drop_bit n x OR push_bit (32 - n) x"
proof (rule bit_word_eqI)
  fix i assume i: "i < LENGTH(32)"
  then have "(i + n) mod 32 = (if i + n < 32 then i + n else i + n - 32)"
    using assms by (simp add: mod_if)
  then show "bit (word_rotr n x) i = bit (drop_bit n x OR push_bit (32 - n) x) i"
    using i assms by (auto simp: bit_word_rotr_iff bit_simps add.commute dest: bit_imp_le_length)
qed

lemma ror_eq:
  assumes "unat n < 32" and "unat n = 0 \<Longrightarrow> host_shl32 h"
  shows "ror h x n = word_rotr (unat n) x"
proof (cases "unat n = 0")
  case True
  with assms(2) have "over_shl h x 32 = x \<or> over_shl h x 32 = 0"
    by (simp add: host_shl32_def)
  with True show ?thesis by (auto simp: ror_def c_shl_def word_rotr_u32_0)
next
  case False
  with assms(1) show ?thesis by (simp add: ror_def word_rotr_u32)
qed

lemma ror_pos_eq: "n \<noteq> 0 \<Longrightarrow> unat n < 32 \<Longrightarrow> ror h x n = word_rotr (unat n) x"
  by (rule ror_eq) (simp_all add: unat_eq_0)

lemma asr_eq: "0 < unat n \<Longrightarrow> unat n < 32 \<Longrightarrow> asr h x n = signed_drop_bit (unat n) x"
  by (intro bit_word_eqI) (auto simp: asr_def bit_simps min_def not_less dest: bit_imp_le_length)

text \<open>\<^verbatim>\<open>ror\<close> rotates right for every count below 32 and \<^verbatim>\<open>asr\<close> is the arithmetic shift for every
  count from 1 to 31.  For a rotation by 0, which the decoding of an unrotated immediate uses, the
  code shifts by 32; the result is right on every host whose shift by 32 gives the value or 0.\<close>

theorem rotate_and_shift_correct:
  assumes "unat n < 32" and "host_shl32 h"
  shows "ror h x n = word_rotr (unat n) x \<and> (n \<noteq> 0 \<longrightarrow> asr h x n = signed_drop_bit (unat n) x)"
  using assms by (simp add: ror_eq asr_eq unat_gt_0)

theorem rotate_and_shift_correct_witness:
  "ror be_host 0xF1 4 = 0x1000000F \<and> asr be_host 0x80000010 4 = 0xF8000001 \<and> ror x86_host 0xF1 0 = 0xF1"
  using rotate_and_shift_correct[where n = 4 and h = be_host and x = "0xF1"]
    rotate_and_shift_correct[where n = 4 and h = be_host and x = "0x80000010"]
    rotate_and_shift_correct[where n = 0 and h = x86_host and x = "0xF1"] host_shl32_instances
  by (simp add: word_rotr_u32 word_rotr_u32_0)

section \<open>Bytes\<close>

lemma length_le_bytes [simp]: "length (le_bytes n v) = n"
  by (induction n arbitrary: v) simp_all

lemma length_host_bytes [simp]: "length (host_bytes h n v) = n"
  by (simp add: host_bytes_def)

lemma from_le_le_bytes: "from_le (le_bytes n v) = take_bit (8 * n) (v :: 'a::len word)"
proof (induction n arbitrary: v)
  case (Suc n)
  show ?case
    by (rule bit_word_eqI) (auto simp: Suc.IH bit_simps)
qed simp

lemma le_bytes_take_bit: "8 * n \<le> m \<Longrightarrow> le_bytes n (take_bit m v) = le_bytes n (v :: 'a::len word)"
proof (induction n arbitrary: m v)
  case (Suc n)
  have "ucast (take_bit m v) = (ucast v :: u8)"
    using Suc.prems by (intro bit_word_eqI) (auto simp: bit_simps)
  moreover have "drop_bit 8 (take_bit m v) = take_bit (m - 8) (drop_bit 8 v)"
    by (simp add: drop_bit_take_bit)
  ultimately show ?case using Suc by simp
qed simp

lemma le_bytes_from_le:
  "8 * length bs \<le> LENGTH('a::len) \<Longrightarrow> le_bytes (length bs) (from_le bs :: 'a word) = bs"
proof (induction bs)
  case (Cons b bs)
  have "ucast (from_le (b # bs) :: 'a word) = b"
    using Cons.prems by (intro bit_word_eqI) (auto simp: bit_simps)
  moreover have "drop_bit 8 (from_le (b # bs) :: 'a word) = take_bit (LENGTH('a) - 8) (from_le bs)"
    by (intro bit_word_eqI) (auto simp: bit_simps dest: bit_imp_le_length)
  moreover have "le_bytes (length bs) (take_bit (LENGTH('a) - 8) (from_le bs :: 'a word)) = bs"
    using Cons by (subst le_bytes_take_bit) simp_all
  ultimately show ?case by simp
qed simp

lemma host_value_host_bytes: "LENGTH('a::len) \<le> 8 * n \<Longrightarrow> host_value h (host_bytes h n (v :: 'a word)) = v"
  by (simp add: host_value_def host_bytes_def from_le_le_bytes take_bit_word_eq_self)

lemma list_of_2: "length xs = 2 \<Longrightarrow> \<exists>a b. xs = [a, b]"
  by (auto simp: numeral_2_eq_2 length_Suc_conv)

lemma list_of_4: "length xs = 4 \<Longrightarrow> \<exists>a b c d. xs = [a, b, c, d]"
  by (auto simp: numeral_eq_Suc length_Suc_conv)

lemma and_0xFF: "x AND 0xFF = take_bit 8 (x :: 'a::len word)"
  by (simp add: take_bit_eq_mask mask_eq_exp_minus_1)

lemma take_bit_from_le: "8 * length bs \<le> n \<Longrightarrow> take_bit n (from_le bs) = (from_le bs :: 'a::len word)"
proof (induction bs arbitrary: n)
  case (Cons b bs)
  then have "take_bit (n - 8) (from_le bs) = (from_le bs :: 'a word)" by simp
  moreover have "take_bit n (ucast b :: 'a word) = ucast b"
    using Cons.prems by (intro bit_word_eqI) (auto simp: bit_simps dest: bit_imp_le_length)
  ultimately show ?case by (simp add: take_bit_or take_bit_push_bit)
qed simp

lemma take_bit_8_from_le: "take_bit 8 (from_le (b # bs) :: 'a::len word) = ucast b"
  by (rule bit_word_eqI) (auto simp: bit_simps dest: bit_imp_le_length)

lemma drop_bit_8_from_le:
  "8 + 8 * length bs \<le> LENGTH('a) \<Longrightarrow> drop_bit 8 (from_le (b # bs) :: 'a::len word) = from_le bs"
proof -
  assume "8 + 8 * length bs \<le> LENGTH('a)"
  then have "take_bit (LENGTH('a) - 8) (from_le bs) = (from_le bs :: 'a word)"
    by (intro take_bit_from_le) simp
  moreover have "drop_bit 8 (from_le (b # bs) :: 'a word) = take_bit (LENGTH('a) - 8) (from_le bs)"
    by (intro bit_word_eqI) (auto simp: bit_simps dest: bit_imp_le_length)
  ultimately show ?thesis by simp
qed

lemma drop_bits_from_le:
  "8 + 8 * length bs \<le> LENGTH('a) \<Longrightarrow>
     drop_bit (8 + n) (from_le (b # bs) :: 'a::len word) = drop_bit n (from_le bs)"
  using drop_bit_8_from_le[of bs b] by (metis add.commute drop_bit_drop_bit)

lemma reverse_2_from_le: "length bs = 2 \<Longrightarrow> reverse_2 (from_le bs) = from_le (rev bs)"
  by (drule list_of_2, elim exE, hypsubst_thin)
    (simp add: reverse_2_def and_0xFF take_bit_8_from_le drop_bit_8_from_le or.commute
      del: from_le.simps(2), simp add: or.commute)

lemma reverse_4_from_le:
  assumes "length bs = 4"
  shows "reverse_4 (from_le bs) = from_le (rev bs)"
proof -
  obtain a b c d where bs: "bs = [a, b, c, d]" using list_of_4[OF assms] by blast
  have "drop_bit 16 (from_le bs :: u32) = from_le [c, d]" "drop_bit 24 (from_le bs :: u32) = from_le [d]"
    using drop_bits_from_le[where n = 8 and bs = "[b, c, d]" and b = a and 'a = 32]
      drop_bits_from_le[where n = 16 and bs = "[b, c, d]" and b = a and 'a = 32]
      drop_bits_from_le[where n = 8 and bs = "[c, d]" and b = b and 'a = 32]
    by (simp_all add: bs drop_bit_8_from_le del: from_le.simps(2))
  moreover have "drop_bit 8 (from_le bs :: u32) = from_le [b, c, d]"
    by (simp add: bs drop_bit_8_from_le del: from_le.simps(2))
  ultimately have "reverse_4 (from_le bs) = push_bit 24 (ucast a) OR push_bit 16 (ucast b)
      OR push_bit 8 (ucast c) OR ucast d"
    by (simp only: reverse_4_def and_0xFF take_bit_8_from_le) (simp only: bs take_bit_8_from_le)
  then show ?thesis
    by (simp add: bs push_bit_or ac_simps)
qed

lemma is_big_endian_eq: "is_big_endian h = of_bool (host_big h)"
  by (simp add: is_big_endian_def host_bytes_def numeral_eq_Suc)

end
