(* ===== verification/Memory.thy ===== *)
theory Memory
  imports Util
begin

text \<open>
  The simulated memory of \<^verbatim>\<open>memory.c\<close>: a block of bytes with a size and a simulated byte order,
  read and written by bytes, half-words and words.

  A function that returns \<open>-1\<close> and leaves its result parameter alone is \<open>Inr None\<close>, one that
  returns \<open>0\<close> is \<open>Inr (Some \<dots>)\<close>; an access outside the allocated block stops the process.
  \<^verbatim>\<open>size_t\<close> has 64 bits.  Allocation succeeds and its contents are a parameter; half-word and
  word accesses need no alignment, as on x86.

  The locale \<open>memory_access\<close> states what one width of access promises; it is interpreted
  for the byte, half-word and word functions.
\<close>

section \<open>State and operations\<close>

record memory_data =
  mem_size :: u64
  mem_is_big_endian :: int
  mem_bytes :: "u8 list"

definition memory_create :: "u64 \<Rightarrow> int \<Rightarrow> u8 list \<Rightarrow> memory_data" where
  "memory_create sz be raw = \<lparr>mem_size = sz, mem_is_big_endian = be, mem_bytes = raw\<rparr>"

definition memory_get_size :: "memory_data \<Rightarrow> u64" where
  "memory_get_size mem = mem_size mem"

text \<open>Accesses to the allocated block.\<close>

definition load_bytes :: "u8 list \<Rightarrow> nat \<Rightarrow> nat \<Rightarrow> u8 list outcome" where
  "load_bytes bs a n = (if a + n \<le> length bs then Inr (take n (drop a bs)) else Inl Out_Of_Bounds)"

definition splice :: "u8 list \<Rightarrow> nat \<Rightarrow> u8 list \<Rightarrow> u8 list" where
  "splice bs a vs = take a bs @ vs @ drop (a + length vs) bs"

definition store_bytes :: "u8 list \<Rightarrow> nat \<Rightarrow> u8 list \<Rightarrow> u8 list outcome" where
  "store_bytes bs a vs =
     (if a + length vs \<le> length bs then Inr (splice bs a vs) else Inl Out_Of_Bounds)"

definition memory_read_byte :: "memory_data \<Rightarrow> u32 \<Rightarrow> u8 option outcome" where
  "memory_read_byte mem address =
     (if ucast address \<ge> mem_size mem then Inr None
      else bnd (load_bytes (mem_bytes mem) (unat address) 1) (\<lambda>bs. Inr (Some (hd bs))))"

definition memory_read_half :: "host \<Rightarrow> memory_data \<Rightarrow> u32 \<Rightarrow> u16 option outcome" where
  "memory_read_half h mem address =
     (if ucast address \<ge> mem_size mem - 1 then Inr None
      else bnd (load_bytes (mem_bytes mem) (unat address) 2) (\<lambda>bs.
        if is_big_endian h = mem_is_big_endian mem then Inr (Some (host_value h bs))
        else Inr (Some (reverse_2 (host_value h bs)))))"

definition memory_read_word :: "host \<Rightarrow> memory_data \<Rightarrow> u32 \<Rightarrow> u32 option outcome" where
  "memory_read_word h mem address =
     (if ucast address \<ge> mem_size mem - 3 then Inr None
      else bnd (load_bytes (mem_bytes mem) (unat address) 4) (\<lambda>bs.
        if is_big_endian h = mem_is_big_endian mem then Inr (Some (host_value h bs))
        else Inr (Some (reverse_4 (host_value h bs)))))"

definition memory_write_byte :: "memory_data \<Rightarrow> u32 \<Rightarrow> u8 \<Rightarrow> memory_data option outcome" where
  "memory_write_byte mem address value =
     (if ucast address \<ge> mem_size mem then Inr None
      else bnd (store_bytes (mem_bytes mem) (unat address) [value]) (\<lambda>bs.
        Inr (Some (mem\<lparr>mem_bytes := bs\<rparr>))))"

definition memory_write_half :: "host \<Rightarrow> memory_data \<Rightarrow> u32 \<Rightarrow> u16 \<Rightarrow> memory_data option outcome" where
  "memory_write_half h mem address value =
     (if ucast address \<ge> mem_size mem - 1 then Inr None
      else bnd (store_bytes (mem_bytes mem) (unat address)
             (host_bytes h 2 (if is_big_endian h = mem_is_big_endian mem then value
                              else reverse_2 value))) (\<lambda>bs.
        Inr (Some (mem\<lparr>mem_bytes := bs\<rparr>))))"

definition memory_write_word :: "host \<Rightarrow> memory_data \<Rightarrow> u32 \<Rightarrow> u32 \<Rightarrow> memory_data option outcome" where
  "memory_write_word h mem address value =
     (if ucast address \<ge> mem_size mem - 3 then Inr None
      else bnd (store_bytes (mem_bytes mem) (unat address)
             (host_bytes h 4 (if is_big_endian h = mem_is_big_endian mem then value
                              else reverse_4 value))) (\<lambda>bs.
        Inr (Some (mem\<lparr>mem_bytes := bs\<rparr>))))"

section \<open>Well-formed memories and the simulated byte order\<close>

text \<open>The block has the recorded size, the size is at least 3 (below that the bound
  \<open>size - 3\<close> of the word accesses wraps around), and the byte order is 0 or 1.\<close>

definition wf_memory :: "memory_data \<Rightarrow> bool" where
  "wf_memory mem \<longleftrightarrow> length (mem_bytes mem) = unat (mem_size mem) \<and> 3 \<le> unat (mem_size mem)
     \<and> mem_is_big_endian mem \<in> {0, 1}"

text \<open>The bytes of a value and the value of bytes in the simulated order: no host involved.\<close>

definition sim_bytes :: "memory_data \<Rightarrow> nat \<Rightarrow> 'a::len word \<Rightarrow> u8 list" where
  "sim_bytes mem n v = (if mem_is_big_endian mem = 1 then rev (le_bytes n v) else le_bytes n v)"

definition sim_value :: "memory_data \<Rightarrow> u8 list \<Rightarrow> 'a::len word" where
  "sim_value mem bs = from_le (if mem_is_big_endian mem = 1 then rev bs else bs)"

text \<open>What an access does on a well-formed memory, as a function of the memory alone.\<close>

definition byte_at :: "memory_data \<Rightarrow> u32 \<Rightarrow> u8 option" where
  "byte_at m a = (if unat a < unat (mem_size m) then Some (mem_bytes m ! unat a) else None)"

definition half_at :: "memory_data \<Rightarrow> u32 \<Rightarrow> u16 option" where
  "half_at m a = (if unat a + 2 \<le> unat (mem_size m)
     then Some (sim_value m (take 2 (drop (unat a) (mem_bytes m)))) else None)"

definition word_at :: "memory_data \<Rightarrow> u32 \<Rightarrow> u32 option" where
  "word_at m a = (if unat a + 4 \<le> unat (mem_size m)
     then Some (sim_value m (take 4 (drop (unat a) (mem_bytes m)))) else None)"

definition put_byte :: "memory_data \<Rightarrow> u32 \<Rightarrow> u8 \<Rightarrow> memory_data option" where
  "put_byte m a v = (if unat a < unat (mem_size m)
     then Some (m\<lparr>mem_bytes := splice (mem_bytes m) (unat a) [v]\<rparr>) else None)"

definition put_half :: "memory_data \<Rightarrow> u32 \<Rightarrow> u16 \<Rightarrow> memory_data option" where
  "put_half m a v = (if unat a + 2 \<le> unat (mem_size m)
     then Some (m\<lparr>mem_bytes := splice (mem_bytes m) (unat a) (sim_bytes m 2 v)\<rparr>) else None)"

definition put_word :: "memory_data \<Rightarrow> u32 \<Rightarrow> u32 \<Rightarrow> memory_data option" where
  "put_word m a v = (if unat a + 4 \<le> unat (mem_size m)
     then Some (m\<lparr>mem_bytes := splice (mem_bytes m) (unat a) (sim_bytes m 4 v)\<rparr>) else None)"

lemmas at_defs = byte_at_def half_at_def word_at_def put_byte_def put_half_def put_word_def

lemma length_sim_bytes [simp]: "length (sim_bytes mem n v) = n"
  by (simp add: sim_bytes_def)

lemma sim_bytes_update [simp]: "sim_bytes (mem\<lparr>mem_bytes := bs\<rparr>) n v = sim_bytes mem n v"
  by (simp add: sim_bytes_def)

lemma sim_value_sim_bytes:
  "LENGTH('a::len) \<le> 8 * n \<Longrightarrow> sim_value mem (sim_bytes mem n (v :: 'a word)) = v"
  by (simp add: sim_value_def sim_bytes_def from_le_le_bytes take_bit_word_eq_self)

lemma sim_bytes_inject:
  "LENGTH('a::len) \<le> 8 * n \<Longrightarrow> sim_bytes mem n (v :: 'a word) = sim_bytes mem n w \<Longrightarrow> v = w"
  by (metis sim_value_sim_bytes)

lemma sim_bytes_sim_value:
  "8 * length bs \<le> LENGTH('a::len) \<Longrightarrow> sim_bytes mem (length bs) (sim_value mem bs :: 'a word) = bs"
  using le_bytes_from_le[of bs, where 'a = 'a] le_bytes_from_le[of "rev bs", where 'a = 'a]
  by (simp add: sim_value_def sim_bytes_def)

lemma length_splice [simp]: "a + length vs \<le> length bs \<Longrightarrow> length (splice bs a vs) = length bs"
  by (simp add: splice_def)

lemma slice_splice_same:
  "a + length vs \<le> length bs \<Longrightarrow> take (length vs) (drop a (splice bs a vs)) = vs"
  by (simp add: splice_def)

lemma nth_splice:
  "a + length vs \<le> length bs \<Longrightarrow> i < length bs \<Longrightarrow>
     splice bs a vs ! i = (if a \<le> i \<and> i < a + length vs then vs ! (i - a) else bs ! i)"
  by (auto simp: splice_def nth_append)

lemma slice_splice_disjoint:
  assumes "a + length vs \<le> length bs" "b + n \<le> length bs"
    and "b + n \<le> a \<or> a + length vs \<le> b"
  shows "take n (drop b (splice bs a vs)) = take n (drop b bs)"
  using assms by (intro nth_equalityI) (auto simp: nth_splice)

lemma splice_splice_same:
  "a + length vs \<le> length bs \<Longrightarrow> length ws = length vs \<Longrightarrow>
     splice (splice bs a vs) a ws = splice bs a ws"
  by (simp add: splice_def)

section \<open>The contract of one width of access\<close>

locale memory_access =
  fixes rd :: "'m \<Rightarrow> u32 \<Rightarrow> 'v option outcome"
    and wr :: "'m \<Rightarrow> u32 \<Rightarrow> 'v \<Rightarrow> 'm option outcome"
    and width :: nat
    and inv :: "'m \<Rightarrow> bool"
    and bytes :: "'m \<Rightarrow> u8 list"
    and enc :: "'m \<Rightarrow> 'v \<Rightarrow> u8 list"
  assumes enc_length: "length (enc m v) = width"
    and enc_inject: "enc m v = enc m w \<Longrightarrow> v = w"
    and rd_in: "inv m \<Longrightarrow> unat a + width \<le> length (bytes m) \<Longrightarrow>
      \<exists>v. rd m a = Inr (Some v) \<and> enc m v = take width (drop (unat a) (bytes m))"
    and rd_out: "inv m \<Longrightarrow> \<not> unat a + width \<le> length (bytes m) \<Longrightarrow> rd m a = Inr None"
    and wr_in: "inv m \<Longrightarrow> unat a + width \<le> length (bytes m) \<Longrightarrow>
      \<exists>m'. wr m a v = Inr (Some m') \<and> inv m' \<and> enc m' = enc m
        \<and> bytes m' = splice (bytes m) (unat a) (enc m v)"
    and wr_out: "inv m \<Longrightarrow> \<not> unat a + width \<le> length (bytes m) \<Longrightarrow> wr m a v = Inr None"
begin

lemma rd_total: "inv m \<Longrightarrow> \<exists>r. rd m a = Inr r"
  by (cases "unat a + width \<le> length (bytes m)") (auto dest: rd_in rd_out)

lemma rd_fails_iff: "inv m \<Longrightarrow> rd m a = Inr None \<longleftrightarrow> length (bytes m) < unat a + width"
  by (cases "unat a + width \<le> length (bytes m)") (auto dest: rd_in rd_out)

lemma rd_SomeD:
  assumes "inv m" "rd m a = Inr (Some v)"
  shows "unat a + width \<le> length (bytes m)" "enc m v = take width (drop (unat a) (bytes m))"
  using assms by (cases "unat a + width \<le> length (bytes m)"; auto dest: rd_in rd_out)+

lemma rd_SomeI:
  assumes "inv m" "unat a + width \<le> length (bytes m)"
    and "enc m v = take width (drop (unat a) (bytes m))"
  shows "rd m a = Inr (Some v)"
  using rd_in[OF assms(1,2)] assms(3) enc_inject by metis

lemma wr_total: "inv m \<Longrightarrow> \<exists>r. wr m a v = Inr r"
  by (cases "unat a + width \<le> length (bytes m)") (auto dest: wr_in wr_out)

lemma wr_fails_iff: "inv m \<Longrightarrow> wr m a v = Inr None \<longleftrightarrow> length (bytes m) < unat a + width"
  by (cases "unat a + width \<le> length (bytes m)") (auto dest: wr_in[where v = v] wr_out)

lemma never_stops: "inv m \<Longrightarrow> rd m a \<noteq> Inl e \<and> wr m a v \<noteq> Inl e"
  using rd_total[of m a] wr_total[of m a v] by auto

lemma wr_SomeD:
  assumes "inv m" "wr m a v = Inr (Some m')"
  shows "unat a + width \<le> length (bytes m)" "inv m'" "enc m' = enc m"
    "bytes m' = splice (bytes m) (unat a) (enc m v)" "length (bytes m') = length (bytes m)"
proof -
  show fits: "unat a + width \<le> length (bytes m)"
    using assms wr_out by force
  show "inv m'" "enc m' = enc m" "bytes m' = splice (bytes m) (unat a) (enc m v)"
    using wr_in[OF assms(1) fits, of v] assms(2) by auto
  then show "length (bytes m') = length (bytes m)"
    using fits by (simp add: enc_length)
qed

lemma rd_after_wr:
  assumes "inv m" "wr m a v = Inr (Some m')"
  shows "rd m' a = Inr (Some v)"
proof (rule rd_SomeI)
  note w = wr_SomeD[OF assms]
  show "inv m'" "unat a + width \<le> length (bytes m')" using w by simp_all
  show "enc m' v = take width (drop (unat a) (bytes m'))"
    using w slice_splice_same[of "unat a" "enc m v" "bytes m"] by (simp add: enc_length)
qed

lemma rd_after_disjoint_wr:
  assumes "inv m" "wr m a v = Inr (Some m')" "unat b + width \<le> unat a \<or> unat a + width \<le> unat b"
  shows "rd m' b = rd m b"
proof (cases "unat b + width \<le> length (bytes m)")
  case True
  note w = wr_SomeD[OF assms(1,2)]
  obtain u where u: "rd m b = Inr (Some u)" "enc m u = take width (drop (unat b) (bytes m))"
    using rd_in[OF assms(1) True] by blast
  have "rd m' b = Inr (Some u)"
    using w True u(2) assms(3) slice_splice_disjoint[of "unat a" "enc m v" "bytes m" "unat b" width]
    by (intro rd_SomeI) (simp_all add: enc_length)
  with u show ?thesis by simp
next
  case False
  then show ?thesis using wr_SomeD[OF assms(1,2)] rd_out assms(1) by metis
qed

end

section \<open>The three widths meet the contract\<close>

lemma guard_nat:
  "unat k \<le> unat s \<Longrightarrow> s - k \<le> (ucast (a :: u32) :: u64) \<longleftrightarrow> unat s \<le> unat a + unat k"
  by (auto simp: word_le_nat_alt unat_sub)

lemmas byte_guard = guard_nat[of 0, simplified]
lemmas guards = guard_nat[of 1, simplified] guard_nat[of 3, simplified]

text \<open>A host in the simulated order uses the value as it is, another one swaps it; either way
  the bytes are in the simulated order.\<close>

lemma stored_word_bytes:
  assumes "mem_is_big_endian m \<in> {0, 1}"
  shows "host_bytes h 4 (if is_big_endian h = mem_is_big_endian m then v else reverse_4 v)
    = sim_bytes m 4 v"
proof -
  have "le_bytes 4 (reverse_4 v) = rev (le_bytes 4 v)"
    using le_bytes_from_le[of "rev (le_bytes 4 v)", where 'a = 32] reverse_4_from_le[of "le_bytes 4 v"]
    by (simp add: from_le_le_bytes take_bit_word_eq_self)
  with assms show ?thesis by (auto simp: host_bytes_def sim_bytes_def is_big_endian_eq)
qed

lemma stored_half_bytes:
  assumes "mem_is_big_endian m \<in> {0, 1}"
  shows "host_bytes h 2 (if is_big_endian h = mem_is_big_endian m then v else reverse_2 v)
    = sim_bytes m 2 v"
proof -
  have "le_bytes 2 (reverse_2 v) = rev (le_bytes 2 v)"
    using le_bytes_from_le[of "rev (le_bytes 2 v)", where 'a = 16] reverse_2_from_le[of "le_bytes 2 v"]
    by (simp add: from_le_le_bytes take_bit_word_eq_self)
  with assms show ?thesis by (auto simp: host_bytes_def sim_bytes_def is_big_endian_eq)
qed

lemma loaded_word_value:
  assumes "mem_is_big_endian m \<in> {0, 1}" "length bs = 4"
  shows "(if is_big_endian h = mem_is_big_endian m then Inr (Some (host_value h bs))
      else Inr (Some (reverse_4 (host_value h bs)))) = (Inr (Some (sim_value m bs)) :: u32 option outcome)"
  using assms by (auto simp: host_value_def sim_value_def is_big_endian_eq reverse_4_from_le)

lemma loaded_half_value:
  assumes "mem_is_big_endian m \<in> {0, 1}" "length bs = 2"
  shows "(if is_big_endian h = mem_is_big_endian m then Inr (Some (host_value h bs))
      else Inr (Some (reverse_2 (host_value h bs)))) = (Inr (Some (sim_value m bs)) :: u16 option outcome)"
  using assms by (auto simp: host_value_def sim_value_def is_big_endian_eq reverse_2_from_le)

lemma memory_read_word_eq:
  assumes "wf_memory m"
  shows "memory_read_word h m a = Inr (word_at m a)"
  using assms loaded_word_value[of m "take 4 (drop (unat a) (mem_bytes m))" h]
  by (auto simp: memory_read_word_def at_defs wf_memory_def guards load_bytes_def)

lemma memory_read_half_eq:
  assumes "wf_memory m"
  shows "memory_read_half h m a = Inr (half_at m a)"
  using assms loaded_half_value[of m "take 2 (drop (unat a) (mem_bytes m))" h]
  by (auto simp: memory_read_half_def at_defs wf_memory_def guards load_bytes_def)

lemma memory_read_byte_eq:
  assumes "wf_memory m"
  shows "memory_read_byte m a = Inr (byte_at m a)"
  using assms by (auto simp: memory_read_byte_def at_defs wf_memory_def byte_guard load_bytes_def hd_drop_conv_nth)

lemma memory_write_word_eq:
  assumes "wf_memory m"
  shows "memory_write_word h m a v = Inr (put_word m a v)"
  using assms stored_word_bytes[of m h v]
  by (auto simp: memory_write_word_def at_defs wf_memory_def guards store_bytes_def)

lemma memory_write_half_eq:
  assumes "wf_memory m"
  shows "memory_write_half h m a v = Inr (put_half m a v)"
  using assms stored_half_bytes[of m h v]
  by (auto simp: memory_write_half_def at_defs wf_memory_def guards store_bytes_def)

lemma memory_write_byte_eq:
  assumes "wf_memory m"
  shows "memory_write_byte m a v = Inr (put_byte m a v)"
  using assms by (auto simp: memory_write_byte_def at_defs wf_memory_def byte_guard store_bytes_def)

lemma put_keeps:
  assumes "put_byte m a b = Some m' \<or> put_half m a c = Some m' \<or> put_word m a d = Some m'"
    and "wf_memory m"
  shows "wf_memory m'" "mem_size m' = mem_size m" "mem_is_big_endian m' = mem_is_big_endian m"
  using assms by (auto simp: at_defs wf_memory_def split: if_splits)

interpretation mem_byte: memory_access memory_read_byte memory_write_byte 1 wf_memory mem_bytes
    "\<lambda>m v. [v]"
proof unfold_locales
  show "\<exists>v. memory_read_byte m a = Inr (Some v) \<and> [v] = take 1 (drop (unat a) (mem_bytes m))"
    if "wf_memory m" "unat a + 1 \<le> length (mem_bytes m)" for m a
    using that by (auto simp: memory_read_byte_eq at_defs wf_memory_def take_Suc_conv_app_nth hd_drop_conv_nth
        take_Suc)
qed (auto simp: memory_read_byte_eq memory_write_byte_eq at_defs wf_memory_def)

interpretation mem_half: memory_access "memory_read_half h" "memory_write_half h" 2 wf_memory mem_bytes
    "\<lambda>m. sim_bytes m 2" for h
proof unfold_locales
  show "v = w" if "sim_bytes m 2 v = sim_bytes m 2 w" for m and v w :: u16
    using that by (rule sim_bytes_inject[rotated]) simp
  show "\<exists>v. memory_read_half h m a = Inr (Some v)
      \<and> sim_bytes m 2 v = take 2 (drop (unat a) (mem_bytes m))"
    if "wf_memory m" "unat a + 2 \<le> length (mem_bytes m)" for m a
    using that sim_bytes_sim_value[of "take 2 (drop (unat a) (mem_bytes m))" m, where 'a = 16]
    by (auto simp: memory_read_half_eq at_defs wf_memory_def)
qed (auto simp: memory_read_half_eq memory_write_half_eq at_defs wf_memory_def fun_eq_iff)

interpretation mem_word: memory_access "memory_read_word h" "memory_write_word h" 4 wf_memory mem_bytes
    "\<lambda>m. sim_bytes m 4" for h
proof unfold_locales
  show "v = w" if "sim_bytes m 4 v = sim_bytes m 4 w" for m and v w :: u32
    using that by (rule sim_bytes_inject[rotated]) simp
  show "\<exists>v. memory_read_word h m a = Inr (Some v)
      \<and> sim_bytes m 4 v = take 4 (drop (unat a) (mem_bytes m))"
    if "wf_memory m" "unat a + 4 \<le> length (mem_bytes m)" for m a
    using that sim_bytes_sim_value[of "take 4 (drop (unat a) (mem_bytes m))" m, where 'a = 32]
    by (auto simp: memory_read_word_eq at_defs wf_memory_def)
qed (auto simp: memory_read_word_eq memory_write_word_eq at_defs wf_memory_def fun_eq_iff)

text \<open>The laws on the memory alone, for the byte, half-word and word functions.\<close>

lemma at_after_put:
  assumes "wf_memory m"
  shows "put_byte m a b = Some m' \<Longrightarrow> byte_at m' a = Some b"
    and "put_half m a c = Some m' \<Longrightarrow> half_at m' a = Some c"
    and "put_word m a d = Some m' \<Longrightarrow> word_at m' a = Some d"
  using mem_byte.rd_after_wr[OF assms, of a b m'] mem_half.rd_after_wr[OF assms, of undefined a c m']
    mem_word.rd_after_wr[OF assms, of undefined a d m'] put_keeps(1)[OF _ assms, of a b m' c d]
  by (simp_all add: assms memory_read_byte_eq memory_read_half_eq memory_read_word_eq
      memory_write_byte_eq memory_write_half_eq memory_write_word_eq)

lemma word_at_disjoint_put:
  assumes "wf_memory m" "put_word m a d = Some m'" "unat b + 4 \<le> unat a \<or> unat a + 4 \<le> unat b"
  shows "word_at m' b = word_at m b"
  using mem_word.rd_after_disjoint_wr[of m undefined a d m' b] put_keeps(1)[of m a undefined m' undefined d] assms
  by (simp add: memory_read_word_eq memory_write_word_eq)

section \<open>Properties\<close>

lemma wf_memory_create:
  "length raw = unat s \<Longrightarrow> 3 \<le> unat s \<Longrightarrow> be \<in> {0, 1} \<Longrightarrow> wf_memory (memory_create s be raw)"
  by (simp add: wf_memory_def memory_create_def)

text \<open>The simulated memory does not depend on the machine that runs the simulator: on two
  hosts of different byte order every half-word and word access has the same result and leaves
  the same memory.\<close>

theorem memory_host_independent:
  assumes "wf_memory m"
  shows "memory_read_word h m a = memory_read_word h' m a
    \<and> memory_read_half h m a = memory_read_half h' m a
    \<and> memory_write_word h m a v = memory_write_word h' m a v
    \<and> memory_write_half h m a w = memory_write_half h' m a w"
  using assms by (simp add: memory_read_word_eq memory_read_half_eq memory_write_word_eq memory_write_half_eq)

theorem memory_host_independent_witness:
  "memory_read_word x86_host (memory_create 4 1 [0x11, 0x22, 0x33, 0x44]) 0
     = memory_read_word be_host (memory_create 4 1 [0x11, 0x22, 0x33, 0x44]) 0"
  using memory_host_independent[where m = "memory_create 4 1 [0x11, 0x22, 0x33, 0x44]"
      and h = x86_host and h' = be_host and a = 0] wf_memory_create
  by simp

text \<open>C24: bounds.  On a well-formed memory no access leaves the block, and an access fails
  exactly when one of its bytes would lie outside the memory.\<close>

theorem memory_access_bounds:
  assumes "wf_memory m"
  shows "(memory_read_byte m a = Inr None \<longleftrightarrow> unat (mem_size m) < unat a + 1)
    \<and> (memory_read_half h m a = Inr None \<longleftrightarrow> unat (mem_size m) < unat a + 2)
    \<and> (memory_read_word h m a = Inr None \<longleftrightarrow> unat (mem_size m) < unat a + 4)
    \<and> (memory_write_byte m a b = Inr None \<longleftrightarrow> unat (mem_size m) < unat a + 1)
    \<and> (memory_write_half h m a c = Inr None \<longleftrightarrow> unat (mem_size m) < unat a + 2)
    \<and> (memory_write_word h m a d = Inr None \<longleftrightarrow> unat (mem_size m) < unat a + 4)
    \<and> memory_read_byte m a \<noteq> Inl e \<and> memory_write_byte m a b \<noteq> Inl e
    \<and> memory_read_half h m a \<noteq> Inl e \<and> memory_write_half h m a c \<noteq> Inl e
    \<and> memory_read_word h m a \<noteq> Inl e \<and> memory_write_word h m a d \<noteq> Inl e"
proof -
  have "length (mem_bytes m) = unat (mem_size m)"
    using assms by (simp add: wf_memory_def)
  then show ?thesis
    using assms mem_byte.never_stops mem_half.never_stops mem_word.never_stops
    by (simp add: mem_byte.rd_fails_iff mem_byte.wr_fails_iff mem_half.rd_fails_iff
        mem_half.wr_fails_iff mem_word.rd_fails_iff mem_word.wr_fails_iff)
qed

theorem memory_access_bounds_witness:
  "memory_read_word x86_host (memory_create 4 0 [1, 2, 3, 4]) 1 = Inr None
   \<and> memory_write_half x86_host (memory_create 4 0 [1, 2, 3, 4]) 2 7 \<noteq> Inr None"
proof -
  let ?m = "memory_create 4 0 [1, 2, 3, 4]"
  have wf: "wf_memory ?m" by (rule wf_memory_create) simp_all
  show ?thesis
    using memory_access_bounds[OF wf, where h = x86_host and a = 1]
      memory_access_bounds[OF wf, where h = x86_host and a = 2 and c = 7]
    by (simp add: memory_create_def)
qed

text \<open>C23: a word written at an address is read back there, on any host; words that do not
  overlap keep their value; the bytes lie in the simulated order; the memory stays well formed
  and keeps its size.\<close>

theorem memory_write_word_correct:
  assumes "wf_memory m" and w: "memory_write_word h m a v = Inr (Some m')"
  shows "wf_memory m' \<and> mem_size m' = mem_size m
    \<and> memory_read_word h' m' a = Inr (Some v)
    \<and> (\<forall>b. unat b + 4 \<le> unat a \<or> unat a + 4 \<le> unat b \<longrightarrow>
         memory_read_word h' m' b = memory_read_word h' m b)
    \<and> (\<forall>i < 4. unat a + i < 2 ^ 32 \<longrightarrow> memory_read_byte m' (a + of_nat i)
         = Inr (Some (le_bytes 4 v ! (if mem_is_big_endian m = 1 then 3 - i else i))))"
proof -
  have w': "memory_write_word h' m a v = Inr (Some m')"
    using w assms(1) by (simp add: memory_write_word_eq)
  note wf = mem_word.wr_SomeD(2)[OF assms]
  have fits: "unat a + 4 \<le> unat (mem_size m)"
    and m': "m' = m\<lparr>mem_bytes := splice (mem_bytes m) (unat a) (sim_bytes m 4 v)\<rparr>"
    using w assms(1) by (auto simp: memory_write_word_eq put_word_def split: if_splits)
  have "memory_read_byte m' (a + of_nat i)
      = Inr (Some (le_bytes 4 v ! (if mem_is_big_endian m = 1 then 3 - i else i)))"
    if "i < 4" "unat a + i < 2 ^ 32" for i
    using that fits assms(1)
    by (subst memory_read_byte_eq[OF wf])
      (auto simp: m' byte_at_def unat_plus_of_nat nth_splice wf_memory_def sim_bytes_def rev_nth)
  then show ?thesis
    using wf mem_word.rd_after_wr[OF assms(1) w'] mem_word.rd_after_disjoint_wr[OF assms(1) w']
    by (simp add: m')
qed

theorem memory_write_word_correct_witness:
  "memory_read_word be_host (memory_create 8 1 [0, 0, 0, 0, 0x11, 0x22, 0x33, 0x44]) 4 = Inr (Some 0x11223344)"
proof -
  let ?m = "memory_create 8 1 (replicate 8 0)"
  have wf: "wf_memory ?m" by (rule wf_memory_create) simp_all
  have "memory_write_word x86_host ?m 4 0x11223344
      = Inr (Some (memory_create 8 1 [0, 0, 0, 0, 0x11, 0x22, 0x33, 0x44]))"
    by code_simp
  from memory_write_word_correct[OF wf this] show ?thesis by blast
qed

text \<open>A memory of fewer than 3 bytes is not protected: the bound \<^verbatim>\<open>size-3\<close> wraps around, so
  every word access passes the check and leaves the block.\<close>

theorem memory_small_unprotected:
  assumes "length (mem_bytes m) = unat (mem_size m)" and "unat (mem_size m) < 3"
  shows "memory_read_word h m a = Inl Out_Of_Bounds \<and> memory_write_word h m a v = Inl Out_Of_Bounds"
proof -
  have "unat (mem_size m - 3) = 2 ^ 64 + unat (mem_size m) - 3"
    using assms(2) by (simp add: unat_sub_if_size word_size)
  then have "\<not> mem_size m - 3 \<le> ucast a"
    using unsigned_less[of a, where 'a = nat] by (simp add: word_le_nat_alt)
  then show ?thesis using assms by (simp add: memory_read_word_def memory_write_word_def load_bytes_def store_bytes_def)
qed

theorem memory_small_unprotected_witness:
  "memory_read_word x86_host (memory_create 2 0 [1, 2]) 0 = Inl Out_Of_Bounds"
  using memory_small_unprotected[where m = "memory_create 2 0 [1, 2]" and h = x86_host and a = 0]
  by (simp add: memory_create_def)

end
