(* ===== verification/Arm_Constants.thy ===== *)
theory Arm_Constants
  imports Prelude
begin

text \<open>
  The constants of \<^verbatim>\<open>arm_constants.h\<close> (processor modes, exception numbers, positions of the
  condition flags, shift kinds) and the name tables of \<^verbatim>\<open>arm_constants.c\<close>.
\<close>

section \<open>Constants\<close>

text \<open>Processor modes.\<close>

abbreviation (input) USR :: u8 where "USR \<equiv> 0x10"
abbreviation (input) FIQ :: u8 where "FIQ \<equiv> 0x11"
abbreviation (input) IRQ :: u8 where "IRQ \<equiv> 0x12"
abbreviation (input) SVC :: u8 where "SVC \<equiv> 0x13"
abbreviation (input) ABT :: u8 where "ABT \<equiv> 0x17"
abbreviation (input) UND :: u8 where "UND \<equiv> 0x1b"
abbreviation (input) SYS :: u8 where "SYS \<equiv> 0x1f"

text \<open>Exceptions, which are also the result codes of instruction execution.\<close>

abbreviation (input) RESET :: int where "RESET \<equiv> 1"
abbreviation (input) UNDEFINED_INSTRUCTION :: int where "UNDEFINED_INSTRUCTION \<equiv> 2"
abbreviation (input) SOFTWARE_INTERRUPT :: int where "SOFTWARE_INTERRUPT \<equiv> 3"
abbreviation (input) PREFETCH_ABORT :: int where "PREFETCH_ABORT \<equiv> 4"
abbreviation (input) DATA_ABORT :: int where "DATA_ABORT \<equiv> 5"
abbreviation (input) INTERRUPT :: int where "INTERRUPT \<equiv> 6"
abbreviation (input) FAST_INTERRUPT :: int where "FAST_INTERRUPT \<equiv> 7"

text \<open>Bits of the status register.\<close>

abbreviation (input) N_bit :: nat where "N_bit \<equiv> 31"
abbreviation (input) Z_bit :: nat where "Z_bit \<equiv> 30"
abbreviation (input) C_bit :: nat where "C_bit \<equiv> 29"
abbreviation (input) V_bit :: nat where "V_bit \<equiv> 28"

text \<open>Shift kinds.\<close>

abbreviation (input) LSL :: u8 where "LSL \<equiv> 0"
abbreviation (input) LSR :: u8 where "LSR \<equiv> 1"
abbreviation (input) ASR :: u8 where "ASR \<equiv> 2"
abbreviation (input) ROR :: u8 where "ROR \<equiv> 3"

section \<open>Name tables\<close>

definition arm_mode_names :: "string option list" where
  "arm_mode_names =
     [None, None, None, None, None, None, None, None, None, None, None, None, None, None, None,
      None, Some ''USR'', Some ''FIQ'', Some ''IRQ'', Some ''SVC'', None, None, None,
      Some ''ABT'', None, None, None, Some ''UND'', None, None, None, Some ''SYS'']"

definition arm_register_names :: "string list" where
  "arm_register_names =
     [''R00'', ''R01'', ''R02'', ''R03'', ''R04'', ''R05'', ''R06'', ''R07'', ''R08'', ''R09'',
      ''R10'', ''R11'', ''R12'', ''SP'', ''LR'', ''PC'', ''CPSR'', ''SPSR'']"

definition arm_exception_names :: "string option list" where
  "arm_exception_names =
     [None, Some ''reset'', Some ''undefined instruction'', Some ''software interrupt'',
      Some ''prefetch abort'', Some ''data abort'', Some ''interrupt'', Some ''fast interrupt'']"

text \<open>Indexing a static table past its end is an out-of-bounds read.\<close>

definition table_entry :: "'a list \<Rightarrow> nat \<Rightarrow> 'a outcome" where
  "table_entry xs i = (if i < length xs then Inr (xs ! i) else Inl Out_Of_Bounds)"

definition arm_get_exception_name :: "u8 \<Rightarrow> string option outcome" where
  "arm_get_exception_name exc =
     (if exc < 8 then table_entry arm_exception_names (unat exc) else Inr None)"

definition arm_get_mode_name :: "u8 \<Rightarrow> string option outcome" where
  "arm_get_mode_name mode = table_entry arm_mode_names (unat mode)"

definition arm_get_register_name :: "u8 \<Rightarrow> string outcome" where
  "arm_get_register_name reg = table_entry arm_register_names (unat reg)"

section \<open>Which lookups are safe\<close>

lemma arm_get_exception_name_total: "\<exists>n. arm_get_exception_name exc = Inr n"
  by (auto simp: arm_get_exception_name_def table_entry_def arm_exception_names_def
      word_less_nat_alt)

lemma arm_get_mode_name_safe: "(\<exists>n. arm_get_mode_name mode = Inr n) \<longleftrightarrow> mode < 32"
  by (auto simp: arm_get_mode_name_def table_entry_def arm_mode_names_def word_less_nat_alt)

lemma arm_get_register_name_safe: "(\<exists>n. arm_get_register_name reg = Inr n) \<longleftrightarrow> reg < 18"
  by (auto simp: arm_get_register_name_def table_entry_def arm_register_names_def
      word_less_nat_alt)

end
