(* ===== verification/Registers.thy ===== *)
theory Registers
  imports Prelude Arm_Constants
begin

text \<open>
  The register bank of \<^verbatim>\<open>registers.c\<close>: 37 physical registers and, for each of the 7 modes, a table
  of 18 pointers (r0 to r15, CPSR, SPSR) into them.  A pointer is the index of the physical
  register, \<^verbatim>\<open>NULL\<close> is \<open>None\<close>.  Following a null pointer or indexing past a table stops the
  process.

  The locale \<open>register_file\<close> states what a view of the registers promises; it is interpreted
  for the view of the current mode and for the user view.
\<close>

section \<open>State and operations\<close>

abbreviation (input) NB_PHYS_REGS :: nat where "NB_PHYS_REGS \<equiv> 37"
abbreviation (input) NB_VIRT_REGS :: nat where "NB_VIRT_REGS \<equiv> 18"
abbreviation (input) NB_2BANKED_REGS :: nat where "NB_2BANKED_REGS \<equiv> 5"
abbreviation (input) NB_6BANKED_REGS :: nat where "NB_6BANKED_REGS \<equiv> 2"
abbreviation (input) NB_MODES :: nat where "NB_MODES \<equiv> 7"

record registers_data =
  mode :: u8
  registers :: "u32 list"
  virtual_regs :: "nat option list"

definition get_mode_num :: "registers_data \<Rightarrow> nat" where
  "get_mode_num r =
     (if mode r = USR then 0
      else if mode r = FIQ then 1
      else if mode r = IRQ then 2
      else if mode r = SVC then 3
      else if mode r = ABT then 4
      else if mode r = UND then 5
      else 6)"

text \<open>\<open>point k t\<close>: make table entry \<open>k\<close> point to physical register \<open>t\<close>.\<close>

definition point :: "nat \<Rightarrow> nat option \<Rightarrow> registers_data \<Rightarrow> registers_data" where
  "point k t r = r\<lparr>virtual_regs := (virtual_regs r)[k := t]\<rparr>"

text \<open>The initialisation of the table, one definition per mode.\<close>

definition init_usr :: "registers_data \<Rightarrow> registers_data" where
  "init_usr r =
    (let r = for_range 0 8 (\<lambda>i. point (0 * NB_VIRT_REGS + i) (Some i)) r;
         r = for_range 8 13 (\<lambda>i. point (0 * NB_VIRT_REGS + i) (Some i)) r;
         r = for_range 13 15 (\<lambda>i. point (0 * NB_VIRT_REGS + i) (Some (i + NB_2BANKED_REGS))) r;
         r = point (0 * NB_VIRT_REGS + 15) (Some (15 + NB_2BANKED_REGS + 5 * NB_6BANKED_REGS)) r;
         r = point (0 * NB_VIRT_REGS + 16) (Some (16 + NB_2BANKED_REGS + 5 * NB_6BANKED_REGS)) r
     in point (0 * NB_VIRT_REGS + 17) None r)"

definition init_fiq :: "registers_data \<Rightarrow> registers_data" where
  "init_fiq r =
    (let r = for_range 0 8 (\<lambda>i. point (1 * NB_VIRT_REGS + i) (Some i)) r;
         r = for_range 8 13 (\<lambda>i. point (1 * NB_VIRT_REGS + i) (Some (i + NB_2BANKED_REGS))) r;
         r = for_range 13 15 (\<lambda>i. point (1 * NB_VIRT_REGS + i)
               (Some (i + NB_2BANKED_REGS + NB_6BANKED_REGS))) r;
         r = point (1 * NB_VIRT_REGS + 15) (Some (15 + NB_2BANKED_REGS + 5 * NB_6BANKED_REGS)) r;
         r = point (1 * NB_VIRT_REGS + 16) (Some (16 + NB_2BANKED_REGS + 5 * NB_6BANKED_REGS)) r
     in point (1 * NB_VIRT_REGS + 17) (Some (17 + NB_2BANKED_REGS + 5 * NB_6BANKED_REGS)) r)"

definition init_irq :: "registers_data \<Rightarrow> registers_data" where
  "init_irq r =
    (let r = for_range 0 8 (\<lambda>i. point (2 * NB_VIRT_REGS + i) (Some i)) r;
         r = for_range 8 13 (\<lambda>i. point (2 * NB_VIRT_REGS + i) (Some i)) r;
         r = for_range 13 15 (\<lambda>i. point (2 * NB_VIRT_REGS + i)
               (Some (i + NB_2BANKED_REGS + 2 * NB_6BANKED_REGS))) r;
         r = point (2 * NB_VIRT_REGS + 15) (Some (15 + NB_2BANKED_REGS + 5 * NB_6BANKED_REGS)) r;
         r = point (2 * NB_VIRT_REGS + 16) (Some (16 + NB_2BANKED_REGS + 5 * NB_6BANKED_REGS)) r
     in point (2 * NB_VIRT_REGS + 17) (Some (17 + NB_2BANKED_REGS + 5 * NB_6BANKED_REGS + 1)) r)"

definition init_svc :: "registers_data \<Rightarrow> registers_data" where
  "init_svc r =
    (let r = for_range 0 8 (\<lambda>i. point (3 * NB_VIRT_REGS + i) (Some i)) r;
         r = for_range 8 13 (\<lambda>i. point (3 * NB_VIRT_REGS + i) (Some i)) r;
         r = for_range 13 15 (\<lambda>i. point (3 * NB_VIRT_REGS + i)
               (Some (i + NB_2BANKED_REGS + 3 * NB_6BANKED_REGS))) r;
         r = point (3 * NB_VIRT_REGS + 15) (Some (15 + NB_2BANKED_REGS + 5 * NB_6BANKED_REGS)) r;
         r = point (3 * NB_VIRT_REGS + 16) (Some (16 + NB_2BANKED_REGS + 5 * NB_6BANKED_REGS)) r
     in point (3 * NB_VIRT_REGS + 17) (Some (17 + NB_2BANKED_REGS + 5 * NB_6BANKED_REGS + 2)) r)"

definition init_abt :: "registers_data \<Rightarrow> registers_data" where
  "init_abt r =
    (let r = for_range 0 8 (\<lambda>i. point (4 * NB_VIRT_REGS + i) (Some i)) r;
         r = for_range 8 13 (\<lambda>i. point (4 * NB_VIRT_REGS + i) (Some i)) r;
         r = for_range 13 15 (\<lambda>i. point (4 * NB_VIRT_REGS + i)
               (Some (i + NB_2BANKED_REGS + 4 * NB_6BANKED_REGS))) r;
         r = point (4 * NB_VIRT_REGS + 15) (Some (15 + NB_2BANKED_REGS + 5 * NB_6BANKED_REGS)) r;
         r = point (4 * NB_VIRT_REGS + 16) (Some (16 + NB_2BANKED_REGS + 5 * NB_6BANKED_REGS)) r
     in point (4 * NB_VIRT_REGS + 17) (Some (17 + NB_2BANKED_REGS + 5 * NB_6BANKED_REGS + 3)) r)"

definition init_und :: "registers_data \<Rightarrow> registers_data" where
  "init_und r =
    (let r = for_range 0 8 (\<lambda>i. point (5 * NB_VIRT_REGS + i) (Some i)) r;
         r = for_range 8 13 (\<lambda>i. point (5 * NB_VIRT_REGS + i) (Some i)) r;
         r = for_range 13 15 (\<lambda>i. point (5 * NB_VIRT_REGS + i)
               (Some (i + NB_2BANKED_REGS + 5 * NB_6BANKED_REGS))) r;
         r = point (5 * NB_VIRT_REGS + 15) (Some (15 + NB_2BANKED_REGS + 5 * NB_6BANKED_REGS)) r;
         r = point (5 * NB_VIRT_REGS + 16) (Some (16 + NB_2BANKED_REGS + 5 * NB_6BANKED_REGS)) r
     in point (5 * NB_VIRT_REGS + 17) (Some (17 + NB_2BANKED_REGS + 5 * NB_6BANKED_REGS + 4)) r)"

definition init_sys :: "registers_data \<Rightarrow> registers_data" where
  "init_sys r =
    (let r = for_range 0 8 (\<lambda>i. point (6 * NB_VIRT_REGS + i) (Some i)) r;
         r = for_range 8 13 (\<lambda>i. point (6 * NB_VIRT_REGS + i) (Some i)) r;
         r = for_range 13 15 (\<lambda>i. point (6 * NB_VIRT_REGS + i) (Some (i + NB_2BANKED_REGS))) r;
         r = point (6 * NB_VIRT_REGS + 15) (Some (15 + NB_2BANKED_REGS + 5 * NB_6BANKED_REGS)) r;
         r = point (6 * NB_VIRT_REGS + 16) (Some (16 + NB_2BANKED_REGS + 5 * NB_6BANKED_REGS)) r
     in point (6 * NB_VIRT_REGS + 17) None r)"

text \<open>\<open>raw\<close> is the freshly allocated, uninitialised structure.\<close>

definition registers_create :: "registers_data \<Rightarrow> registers_data" where
  "registers_create raw =
    (let r = raw\<lparr>mode := SYS\<rparr>;
         r = init_usr r; r = init_fiq r; r = init_irq r; r = init_svc r;
         r = init_abt r; r = init_und r; r = init_sys r
     in for_range 0 NB_PHYS_REGS (\<lambda>i r. r\<lparr>registers := (registers r)[i := 0]\<rparr>) r)"

definition get_mode :: "registers_data \<Rightarrow> u8" where
  "get_mode r = mode r"

text \<open>The pointer at an index of the table, and what it points to.\<close>

definition deref :: "registers_data \<Rightarrow> nat \<Rightarrow> nat outcome" where
  "deref r k = bnd (table_entry (virtual_regs r) k) (\<lambda>t.
     case t of None \<Rightarrow> Inl Null_Deref
     | Some i \<Rightarrow> if i < length (registers r) then Inr i else Inl Out_Of_Bounds)"

definition current_mode_has_spsr :: "registers_data \<Rightarrow> bool outcome" where
  "current_mode_has_spsr r =
     bnd (table_entry (virtual_regs r) (get_mode_num r * NB_VIRT_REGS + 17)) (\<lambda>t. Inr (t \<noteq> None))"

definition in_a_privileged_mode :: "registers_data \<Rightarrow> bool" where
  "in_a_privileged_mode r = (get_mode_num r \<noteq> 0)"

definition read_register :: "registers_data \<Rightarrow> u8 \<Rightarrow> u32 outcome" where
  "read_register r reg =
     bnd (deref r (get_mode_num r * NB_VIRT_REGS + unat reg)) (\<lambda>i. Inr (registers r ! i))"

definition read_usr_register :: "registers_data \<Rightarrow> u8 \<Rightarrow> u32 outcome" where
  "read_usr_register r reg = bnd (deref r (unat reg)) (\<lambda>i. Inr (registers r ! i))"

definition read_cpsr :: "registers_data \<Rightarrow> u32 outcome" where
  "read_cpsr r = bnd (deref r (get_mode_num r * NB_VIRT_REGS + 16)) (\<lambda>i. Inr (registers r ! i))"

definition read_spsr :: "registers_data \<Rightarrow> u32 outcome" where
  "read_spsr r = bnd (deref r (get_mode_num r * NB_VIRT_REGS + 17)) (\<lambda>i. Inr (registers r ! i))"

definition write_register :: "registers_data \<Rightarrow> u8 \<Rightarrow> u32 \<Rightarrow> registers_data outcome" where
  "write_register r reg value =
     bnd (deref r (get_mode_num r * NB_VIRT_REGS + unat reg)) (\<lambda>i.
       Inr (r\<lparr>registers := (registers r)[i := value]\<rparr>))"

definition write_usr_register :: "registers_data \<Rightarrow> u8 \<Rightarrow> u32 \<Rightarrow> registers_data outcome" where
  "write_usr_register r reg value =
     bnd (deref r (unat reg)) (\<lambda>i. Inr (r\<lparr>registers := (registers r)[i := value]\<rparr>))"

definition write_cpsr :: "registers_data \<Rightarrow> u32 \<Rightarrow> registers_data outcome" where
  "write_cpsr r value =
     bnd (deref r (get_mode_num r * NB_VIRT_REGS + 16)) (\<lambda>i.
       Inr (r\<lparr>registers := (registers r)[i := value]\<rparr>))"

definition write_spsr :: "registers_data \<Rightarrow> u32 \<Rightarrow> registers_data outcome" where
  "write_spsr r value =
     bnd (deref r (get_mode_num r * NB_VIRT_REGS + 17)) (\<lambda>i.
       Inr (r\<lparr>registers := (registers r)[i := value]\<rparr>))"

section \<open>The banking of the architecture\<close>

text \<open>Where register \<open>reg\<close> of mode \<open>m\<close> lives: r0 to r7, the PC and the CPSR are common, r8 to r12
  have a second copy for FIQ, r13 and r14 one per mode (user and system share theirs), and the
  five exception modes have an SPSR.\<close>

definition bank :: "nat \<Rightarrow> nat \<Rightarrow> nat option" where
  "bank m reg =
     (if reg < 8 then Some reg
      else if reg < 13 then Some (if m = 1 then reg + 5 else reg)
      else if reg < 15 then Some (reg + 5 + 2 * (if m = 6 then 0 else m))
      else if reg < 17 then Some (reg + 15)
      else if m = 0 \<or> m = 6 then None else Some (31 + m))"

definition wf_registers :: "registers_data \<Rightarrow> bool" where
  "wf_registers r \<longleftrightarrow> length (registers r) = NB_PHYS_REGS
     \<and> length (virtual_regs r) = NB_MODES * NB_VIRT_REGS
     \<and> (\<forall>m < NB_MODES. \<forall>reg < NB_VIRT_REGS. virtual_regs r ! (m * NB_VIRT_REGS + reg) = bank m reg)"

text \<open>A freshly allocated structure: arrays of the declared lengths with any contents.\<close>

definition raw_registers :: "registers_data \<Rightarrow> bool" where
  "raw_registers r \<longleftrightarrow> length (registers r) = NB_PHYS_REGS
     \<and> length (virtual_regs r) = NB_MODES * NB_VIRT_REGS"

lemma get_mode_num_less [simp]: "get_mode_num r < NB_MODES"
  by (simp add: get_mode_num_def)

lemma bank_less: "m < NB_MODES \<Longrightarrow> reg < NB_VIRT_REGS \<Longrightarrow> bank m reg = Some i \<Longrightarrow> i < NB_PHYS_REGS"
  by (auto simp: bank_def split: if_splits)

lemma bank_inject: "m < NB_MODES \<Longrightarrow> bank m reg = Some i \<Longrightarrow> bank m reg' = Some i \<Longrightarrow>
    reg < NB_VIRT_REGS \<Longrightarrow> reg' < NB_VIRT_REGS \<Longrightarrow> reg = reg'"
  by (auto simp: bank_def split: if_splits)

lemma bank_Some: "reg < 17 \<Longrightarrow> \<exists>i. bank m reg = Some i"
  by (simp add: bank_def)

section \<open>The table built by registers\_create\<close>

lemma point_simps [simp]:
  "registers (point k t r) = registers r" "mode (point k t r) = mode r"
  "virtual_regs (point k t r) = (virtual_regs r)[k := t]"
  by (simp_all add: point_def)

lemma for_range_point_frame [simp]:
  "registers (for_range lo hi (\<lambda>i. point (g i) (f i)) r) = registers r"
  "mode (for_range lo hi (\<lambda>i. point (g i) (f i)) r) = mode r"
  "length (virtual_regs (for_range lo hi (\<lambda>i. point (g i) (f i)) r)) = length (virtual_regs r)"
    apply (rule for_range_invariant[where P = "\<lambda>s. registers s = registers r"]; simp)
   apply (rule for_range_invariant[where P = "\<lambda>s. mode s = mode r"]; simp)
  apply (rule for_range_invariant[where P = "\<lambda>s. length (virtual_regs s) = length (virtual_regs r)"]; simp)
  done

lemma nth_update: "k < length xs \<Longrightarrow> xs[j := x] ! k = (if k = j then x else xs ! k)"
  by simp

lemma nth_for_range_point:
  assumes "k < length (virtual_regs r)"
  shows "virtual_regs (for_range lo hi (\<lambda>i. point (b + i) (f i)) r) ! k
    = (if b + lo \<le> k \<and> k < b + hi then f (k - b) else virtual_regs r ! k)"
proof (cases "lo \<le> hi")
  case True
  then show ?thesis
  proof (induction hi rule: dec_induct)
    case (step n)
    then show ?case using assms by (auto simp: for_range_Suc nth_update)
  qed (auto simp: for_range_def)
qed (auto simp: for_range_def)

text \<open>The common shape of the seven blocks of the initialisation.\<close>

lemma nth_block:
  assumes "k < length (virtual_regs r)"
  shows "virtual_regs (point (b + 17) t17 (point (b + 16) t16 (point (b + 15) t15
      (for_range 13 15 (\<lambda>i. point (b + i) (f13 i)) (for_range 8 13 (\<lambda>i. point (b + i) (f8 i))
        (for_range 0 8 (\<lambda>i. point (b + i) (f0 i)) r)))))) ! k =
    (if b \<le> k \<and> k < b + 18
     then if k < b + 8 then f0 (k - b) else if k < b + 13 then f8 (k - b)
       else if k < b + 15 then f13 (k - b)
       else if k = b + 15 then t15 else if k = b + 16 then t16 else t17
     else virtual_regs r ! k)"
  using assms by (auto simp: nth_update nth_for_range_point)

lemmas init_defs = init_usr_def init_fiq_def init_irq_def init_svc_def init_abt_def init_und_def
  init_sys_def

text \<open>Each block writes the 18 entries of its mode and nothing else.\<close>

definition fills :: "nat \<Rightarrow> (registers_data \<Rightarrow> registers_data) \<Rightarrow> bool" where
  "fills m f \<longleftrightarrow> (\<forall>r. registers (f r) = registers r \<and> mode (f r) = mode r
     \<and> length (virtual_regs (f r)) = length (virtual_regs r)
     \<and> (\<forall>k < length (virtual_regs r). virtual_regs (f r) ! k =
          (if m * NB_VIRT_REGS \<le> k \<and> k < m * NB_VIRT_REGS + NB_VIRT_REGS
           then bank m (k - m * NB_VIRT_REGS) else virtual_regs r ! k)))"

lemma fillsI:
  assumes "\<And>r. f r = point (m * NB_VIRT_REGS + 17) t17 (point (m * NB_VIRT_REGS + 16) t16
      (point (m * NB_VIRT_REGS + 15) t15
        (for_range 13 15 (\<lambda>i. point (m * NB_VIRT_REGS + i) (f13 i))
          (for_range 8 13 (\<lambda>i. point (m * NB_VIRT_REGS + i) (f8 i))
            (for_range 0 8 (\<lambda>i. point (m * NB_VIRT_REGS + i) (f0 i)) r)))))"
    and "\<forall>i < 8. f0 i = bank m i" "\<forall>i \<in> {8..<13}. f8 i = bank m i" "\<forall>i \<in> {13..<15}. f13 i = bank m i"
    and "t15 = bank m 15" "t16 = bank m 16" "t17 = bank m 17"
  shows "fills m f"
proof -
  have "virtual_regs (f r) ! k = (if m * NB_VIRT_REGS \<le> k \<and> k < m * NB_VIRT_REGS + NB_VIRT_REGS
      then bank m (k - m * NB_VIRT_REGS) else virtual_regs r ! k)"
    if "k < length (virtual_regs r)" for r k
  proof -
    have "\<exists>j < 18. k = m * 18 + j" if "m * 18 \<le> k \<and> k < m * 18 + 18"
      using that by (intro exI[of _ "k - m * 18"]) auto
    moreover have "bank m 17 = bank m j" if "j < 18" "\<not> j < 15" "j \<noteq> 15" "j \<noteq> 16" for j
    proof -
      have "j = 17" using that by linarith
      then show ?thesis by simp
    qed
    ultimately show ?thesis
      using assms(2-) unfolding assms(1) nth_block[OF that] by auto
  qed
  then show ?thesis by (simp add: fills_def assms(1))
qed

lemma fills_blocks: "fills 0 init_usr" "fills 1 init_fiq" "fills 2 init_irq" "fills 3 init_svc"
    "fills 4 init_abt" "fills 5 init_und" "fills 6 init_sys"
  by (rule fillsI, simp only: init_defs Let_def, (simp add: bank_def; fail)+)+

lemma fills_frame:
  "fills m f \<Longrightarrow> registers (f r) = registers r \<and> mode (f r) = mode r
     \<and> length (virtual_regs (f r)) = length (virtual_regs r)"
  by (simp add: fills_def)

lemma fills_nth:
  assumes "fills m f" "length (virtual_regs r) = NB_MODES * NB_VIRT_REGS" "m' < NB_MODES" "reg < NB_VIRT_REGS"
  shows "virtual_regs (f r) ! (m' * NB_VIRT_REGS + reg) =
    (if m' = m then bank m reg else virtual_regs r ! (m' * NB_VIRT_REGS + reg))"
proof -
  have "m' * 18 + reg < length (virtual_regs r)" using assms(2-) by simp
  moreover have "m * 18 \<le> m' * 18 + reg \<and> m' * 18 + reg < m * 18 + 18 \<longleftrightarrow> m' = m"
    using assms(4) by auto
  ultimately show ?thesis using assms(1) by (auto simp: fills_def)
qed

lemma registers_zeroed:
  assumes "length (registers r) = n"
  shows "for_range 0 n (\<lambda>i r. r\<lparr>registers := (registers r)[i := 0]\<rparr>) r = r\<lparr>registers := replicate n 0\<rparr>"
proof -
  have "for_range 0 k (\<lambda>i r. r\<lparr>registers := (registers r)[i := 0]\<rparr>) r
      = r\<lparr>registers := replicate k 0 @ drop k (registers r)\<rparr>" if "k \<le> n" for k
    using that
  proof (induction k)
    case (Suc k)
    then have "(replicate k 0 @ drop k (registers r))[k := 0] = replicate (Suc k) 0 @ drop (Suc k) (registers r)"
      using assms by (simp add: list_update_append replicate_append_same[symmetric] Cons_nth_drop_Suc[symmetric])
    with Suc show ?case by (simp add: for_range_Suc)
  qed (simp add: for_range_def)
  from this[of n] show ?thesis using assms by simp
qed

lemma registers_create_fields:
  assumes "raw_registers raw"
  shows "mode (registers_create raw) = SYS" "registers (registers_create raw) = replicate NB_PHYS_REGS 0"
    and wf_registers_create: "wf_registers (registers_create raw)"
proof -
  note frames = fills_blocks[THEN fills_frame] raw_registers_def
  show "mode (registers_create raw) = SYS" "registers (registers_create raw) = replicate NB_PHYS_REGS 0"
    using assms by (simp_all add: registers_create_def Let_def registers_zeroed frames)
  moreover have "virtual_regs (registers_create raw) ! (m * NB_VIRT_REGS + reg) = bank m reg"
    if "m < NB_MODES" "reg < NB_VIRT_REGS" for m reg
  proof -
    have "m = 0 \<or> m = 1 \<or> m = 2 \<or> m = 3 \<or> m = 4 \<or> m = 5 \<or> m = 6" using that(1) by auto
    then show ?thesis
      using assms that
      by (simp add: registers_create_def Let_def registers_zeroed frames fills_blocks[THEN fills_nth])
        auto
  qed
  moreover have "length (virtual_regs (registers_create raw)) = NB_MODES * NB_VIRT_REGS"
    using assms by (simp add: registers_create_def Let_def registers_zeroed frames)
  ultimately show "wf_registers (registers_create raw)"
    by (simp add: wf_registers_def)
qed

section \<open>Accesses on a well-formed bank\<close>

text \<open>The physical register behind register \<open>reg\<close> (not the SPSR) of mode number \<open>m\<close>.\<close>

definition phys :: "nat \<Rightarrow> nat \<Rightarrow> nat" where
  "phys m reg = the (bank m reg)"

lemma phys_less [simp]: "m < NB_MODES \<Longrightarrow> reg < 17 \<Longrightarrow> phys m reg < NB_PHYS_REGS"
  by (simp add: phys_def bank_def)

lemma phys_eq_iff [simp]:
  "m < NB_MODES \<Longrightarrow> reg < 17 \<Longrightarrow> reg' < 17 \<Longrightarrow> phys m reg = phys m reg' \<longleftrightarrow> reg = reg'"
  by (auto simp: phys_def bank_def)

lemma deref_eq:
  assumes "wf_registers r" "m < NB_MODES" "reg < NB_VIRT_REGS"
  shows "deref r (m * NB_VIRT_REGS + reg) = (case bank m reg of None \<Rightarrow> Inl Null_Deref | Some i \<Rightarrow> Inr i)"
  using assms bank_less[of m reg]
  by (auto simp: deref_def table_entry_def wf_registers_def split: option.splits)

lemma deref_phys:
  "wf_registers r \<Longrightarrow> m < NB_MODES \<Longrightarrow> reg < 17 \<Longrightarrow> deref r (m * NB_VIRT_REGS + reg) = Inr (phys m reg)"
  using bank_Some[of reg m] by (auto simp: deref_eq phys_def)

lemma get_mode_num_update [simp]: "get_mode_num (r\<lparr>registers := x\<rparr>) = get_mode_num r"
  by (simp add: get_mode_num_def)

lemma wf_registers_update [simp]:
  "wf_registers r \<Longrightarrow> wf_registers (r\<lparr>registers := (registers r)[i := v]\<rparr>)"
  by (simp add: wf_registers_def)

lemma wf_registers_length [simp]: "wf_registers r \<Longrightarrow> length (registers r) = NB_PHYS_REGS"
  by (simp add: wf_registers_def)

lemma read_register_eq:
  "wf_registers r \<Longrightarrow> unat reg < 17 \<Longrightarrow> read_register r reg = Inr (registers r ! phys (get_mode_num r) (unat reg))"
  by (simp add: read_register_def deref_phys)

lemma write_register_eq:
  "wf_registers r \<Longrightarrow> unat reg < 17 \<Longrightarrow> write_register r reg v =
     Inr (r\<lparr>registers := (registers r)[phys (get_mode_num r) (unat reg) := v]\<rparr>)"
  by (simp add: write_register_def deref_phys)

lemma read_usr_register_eq:
  "wf_registers r \<Longrightarrow> unat reg < 17 \<Longrightarrow> read_usr_register r reg = Inr (registers r ! phys 0 (unat reg))"
  using deref_phys[of r 0 "unat reg"] by (simp add: read_usr_register_def)

lemma write_usr_register_eq:
  "wf_registers r \<Longrightarrow> unat reg < 17 \<Longrightarrow> write_usr_register r reg v =
     Inr (r\<lparr>registers := (registers r)[phys 0 (unat reg) := v]\<rparr>)"
  using deref_phys[of r 0 "unat reg"] by (simp add: write_usr_register_def)

lemma phys_cpsr [simp]: "phys m 16 = 31" and phys_pc [simp]: "phys m 15 = 30"
  by (simp_all add: phys_def bank_def)

lemma read_cpsr_eq: "wf_registers r \<Longrightarrow> read_cpsr r = Inr (registers r ! 31)"
  by (simp add: read_cpsr_def deref_phys)

lemma write_cpsr_eq:
  "wf_registers r \<Longrightarrow> write_cpsr r v = Inr (r\<lparr>registers := (registers r)[31 := v]\<rparr>)"
  by (simp add: write_cpsr_def deref_phys)

lemma spsr_eq:
  assumes "wf_registers r"
  shows "read_spsr r = (if get_mode_num r = 0 \<or> get_mode_num r = 6 then Inl Null_Deref
      else Inr (registers r ! (31 + get_mode_num r)))"
    and "write_spsr r v = (if get_mode_num r = 0 \<or> get_mode_num r = 6 then Inl Null_Deref
      else Inr (r\<lparr>registers := (registers r)[31 + get_mode_num r := v]\<rparr>))"
    and "current_mode_has_spsr r = Inr (\<not> (get_mode_num r = 0 \<or> get_mode_num r = 6))"
proof -
  have "bank (get_mode_num r) 17 = (if get_mode_num r = 0 \<or> get_mode_num r = 6 then None
      else Some (31 + get_mode_num r))"
    by (simp add: bank_def)
  moreover have "virtual_regs r ! (get_mode_num r * NB_VIRT_REGS + 17) = bank (get_mode_num r) 17"
    using assms get_mode_num_less[of r] unfolding wf_registers_def by simp
  moreover have "get_mode_num r * NB_VIRT_REGS + 17 < length (virtual_regs r)"
    using assms get_mode_num_less[of r] unfolding wf_registers_def by linarith
  ultimately show "read_spsr r = (if get_mode_num r = 0 \<or> get_mode_num r = 6 then Inl Null_Deref
      else Inr (registers r ! (31 + get_mode_num r)))"
    "write_spsr r v = (if get_mode_num r = 0 \<or> get_mode_num r = 6 then Inl Null_Deref
      else Inr (r\<lparr>registers := (registers r)[31 + get_mode_num r := v]\<rparr>))"
    "current_mode_has_spsr r = Inr (\<not> (get_mode_num r = 0 \<or> get_mode_num r = 6))"
    using assms
    by (simp_all add: read_spsr_def write_spsr_def deref_eq current_mode_has_spsr_def table_entry_def)
qed

section \<open>The contract of a view of the registers\<close>

locale register_file =
  fixes rd :: "'r \<Rightarrow> 'k \<Rightarrow> 'v outcome"
    and wr :: "'r \<Rightarrow> 'k \<Rightarrow> 'v \<Rightarrow> 'r outcome"
    and inv :: "'r \<Rightarrow> bool"
    and ok :: "'k \<Rightarrow> bool"
  assumes rd_ok: "inv r \<Longrightarrow> ok k \<Longrightarrow> \<exists>v. rd r k = Inr v"
    and wr_ok: "inv r \<Longrightarrow> ok k \<Longrightarrow> \<exists>r'. wr r k v = Inr r' \<and> inv r'"
    and rd_wr: "inv r \<Longrightarrow> ok k \<Longrightarrow> ok k' \<Longrightarrow> wr r k v = Inr r' \<Longrightarrow>
      rd r' k' = (if k' = k then Inr v else rd r k')"
begin

lemma wr_inv: "inv r \<Longrightarrow> ok k \<Longrightarrow> wr r k v = Inr r' \<Longrightarrow> inv r'"
  using wr_ok[of r k v] by auto

text \<open>Writing a list of registers one after the other: each keeps the last value written to it.\<close>

fun wr_all :: "('k \<times> 'v) list \<Rightarrow> 'r \<Rightarrow> 'r outcome" where
  "wr_all [] r = Inr r"
| "wr_all ((k, v) # kvs) r = bnd (wr r k v) (wr_all kvs)"

lemma wr_all_total:
  "inv r \<Longrightarrow> \<forall>(k, v) \<in> set kvs. ok k \<Longrightarrow> \<exists>r'. wr_all kvs r = Inr r' \<and> inv r'"
proof (induction kvs arbitrary: r)
  case (Cons kv kvs)
  obtain k v where kv: "kv = (k, v)" by force
  with Cons.prems obtain r1 where "wr r k v = Inr r1" "inv r1" using wr_ok[of r k v] by auto
  with Cons kv show ?case by simp
qed simp

lemma rd_wr_all:
  assumes "inv r" "\<forall>(k, v) \<in> set kvs. ok k" "ok k" "wr_all kvs r = Inr r'"
  shows "rd r' k = (case map_of (rev kvs) k of None \<Rightarrow> rd r k | Some v \<Rightarrow> Inr v)"
  using assms
proof (induction kvs arbitrary: r)
  case (Cons kv kvs)
  obtain k1 v1 where kv: "kv = (k1, v1)" by force
  with Cons.prems obtain r1 where r1: "wr r k1 v1 = Inr r1" "wr_all kvs r1 = Inr r'"
    by (auto simp: bnd_eq_Inr_iff)
  with Cons.prems kv have "inv r1" using wr_inv[of r k1 v1 r1] by simp
  with Cons.IH[of r1] Cons.prems kv r1 rd_wr[of r k1 k v1 r1] show ?case
    by (auto simp: map_add_def split: option.splits)
qed simp

end

interpretation cur: register_file read_register write_register wf_registers "\<lambda>reg. unat reg < 17"
  by unfold_locales (auto simp: read_register_eq write_register_eq nth_update word_unat_eq_iff)

interpretation usr: register_file read_usr_register write_usr_register wf_registers
    "\<lambda>reg. unat reg < 17"
  by unfold_locales (auto simp: read_usr_register_eq write_usr_register_eq nth_update word_unat_eq_iff)

section \<open>Properties\<close>

text \<open>C38: the bank that \<^verbatim>\<open>registers_create\<close> builds is the one of the ARM architecture, whatever the
  allocated memory held: register \<open>i\<close> of mode \<open>m\<close> and register \<open>j\<close> of mode \<open>m'\<close> are the same storage
  exactly when \<open>i = j\<close> and the register is not banked (r0 to r7, PC, CPSR), or is one of r8 to r12
  and both or neither mode is FIQ, or is r13 or r14 and the modes are equal or both user/system,
  or is the SPSR of one exception mode.\<close>

theorem registers_create_banking:
  assumes "raw_registers raw" and "m < 7" "m' < 7" "i < 18" "j < 18"
  shows "(\<exists>x. deref (registers_create raw) (m * 18 + i) = Inr x
           \<and> deref (registers_create raw) (m' * 18 + j) = Inr x)
    \<longleftrightarrow> i = j \<and> (i \<le> 7 \<or> i = 15 \<or> i = 16
      \<or> (8 \<le> i \<and> i \<le> 12 \<and> (m = 1 \<longleftrightarrow> m' = 1))
      \<or> ((i = 13 \<or> i = 14) \<and> (m = m' \<or> m \<in> {0, 6} \<and> m' \<in> {0, 6}))
      \<or> (i = 17 \<and> m = m' \<and> m \<notin> {0, 6}))"
proof -
  have "deref (registers_create raw) (m * 18 + i) = (case bank m i of None \<Rightarrow> Inl Null_Deref | Some i \<Rightarrow> Inr i)"
    "deref (registers_create raw) (m' * 18 + j) = (case bank m' j of None \<Rightarrow> Inl Null_Deref | Some i \<Rightarrow> Inr i)"
    using assms by (simp_all add: deref_eq wf_registers_create)
  then show ?thesis using assms(2-) by (auto simp: bank_def) presburger
qed

theorem registers_create_banking_witness:
  "\<not> (\<exists>x. deref (registers_create \<lparr>mode = 0, registers = replicate 37 7, virtual_regs = replicate 126 None\<rparr>) (1 * 18 + 8) = Inr x
      \<and> deref (registers_create \<lparr>mode = 0, registers = replicate 37 7, virtual_regs = replicate 126 None\<rparr>) (0 * 18 + 8) = Inr x)"
  using registers_create_banking[where m = 1 and m' = 0 and i = 8 and j = 8
      and raw = "\<lparr>mode = 0, registers = replicate 37 7, virtual_regs = replicate 126 None\<rparr>"]
  by (simp add: raw_registers_def)

text \<open>C39: register accesses.  In a well-formed bank every access to r0 to r15 and to the CPSR returns;
  a write is read back, in the view it was made in, and leaves every other register of that view
  alone; no write changes the mode, not even one to the CPSR that changes its mode bits.\<close>

theorem register_access_correct:
  assumes "wf_registers r" and "unat a < 17" and "unat b < 17"
  shows "\<exists>r1 r2. write_register r a v = Inr r1 \<and> write_usr_register r a v = Inr r2
    \<and> wf_registers r1 \<and> wf_registers r2 \<and> mode r1 = mode r \<and> mode r2 = mode r
    \<and> read_register r1 b = (if b = a then Inr v else read_register r b)
    \<and> read_usr_register r2 b = (if b = a then Inr v else read_usr_register r b)
    \<and> read_register r b \<noteq> Inl e \<and> read_usr_register r b \<noteq> Inl e"
proof -
  obtain r1 where r1: "write_register r a v = Inr r1" "wf_registers r1" using cur.wr_ok[OF assms(1,2)] by blast
  obtain r2 where r2: "write_usr_register r a v = Inr r2" "wf_registers r2" using usr.wr_ok[OF assms(1,2)] by blast
  have "mode r1 = mode r" "mode r2 = mode r"
    using r1(1) r2(1) assms by (auto simp: write_register_eq write_usr_register_eq)
  with r1 r2 show ?thesis
    using cur.rd_wr[OF assms(1-3) r1(1)] usr.rd_wr[OF assms(1-3) r2(1)] cur.rd_ok[OF assms(1,3)] usr.rd_ok[OF assms(1,3)]
    by auto
qed

theorem register_access_correct_witness:
  "\<exists>r1. write_register (registers_create \<lparr>mode = 0, registers = replicate 37 7, virtual_regs = replicate 126 None\<rparr>) 16 0x10
        = Inr r1 \<and> mode r1 = SYS \<and> read_register r1 16 = Inr 0x10"
proof -
  let ?raw = "\<lparr>mode = 0, registers = replicate 37 7, virtual_regs = replicate 126 None\<rparr>"
  have raw: "raw_registers ?raw" by (simp add: raw_registers_def)
  from register_access_correct[OF wf_registers_create[OF raw], where a = 16 and b = 16 and v = "0x10"]
  show ?thesis using registers_create_fields(1)[OF raw] by auto
qed

end
