(* ===== verification/Arm_Core.thy ===== *)
theory Arm_Core
  imports Memory Registers
begin

text \<open>
  The processor state of \<^verbatim>\<open>arm_core.c\<close> (cycle counter, registers, memory), the register and memory
  accesses that the instruction modules use, the exception entry of \<^verbatim>\<open>arm_exception.c\<close> and
  \<^verbatim>\<open>arm_create\<close>.

  Each access of the source also calls \<^verbatim>\<open>trace_register\<close> or \<^verbatim>\<open>trace_memory\<close>; these calls print and
  change nothing that the processor reads, and are left out here; \<open>Trace\<close> adds them and
  shows that they do not matter.
\<close>

section \<open>State\<close>

record arm_core_data =
  cycle_count :: u32
  reg :: registers_data
  mem :: memory_data

section \<open>Register accesses\<close>

definition arm_current_mode_has_spsr :: "'a arm_core_data_scheme \<Rightarrow> bool outcome" where
  "arm_current_mode_has_spsr p = current_mode_has_spsr (reg p)"

definition arm_in_a_privileged_mode :: "'a arm_core_data_scheme \<Rightarrow> bool" where
  "arm_in_a_privileged_mode p = in_a_privileged_mode (reg p)"

definition arm_get_cycle_count :: "'a arm_core_data_scheme \<Rightarrow> u32" where
  "arm_get_cycle_count p = cycle_count p"

definition arm_read_register :: "'a arm_core_data_scheme \<Rightarrow> u8 \<Rightarrow> u32 outcome" where
  "arm_read_register p r =
     bnd (read_register (reg p) r) (\<lambda>value.
       Inr (if r = 15 then (value + 4) AND 0xFFFFFFFD else value))"

definition arm_read_usr_register :: "'a arm_core_data_scheme \<Rightarrow> u8 \<Rightarrow> u32 outcome" where
  "arm_read_usr_register p r =
     bnd (read_usr_register (reg p) r) (\<lambda>value.
       Inr (if r = 15 then (value + 4) AND 0xFFFFFFFD else value))"

definition arm_read_cpsr :: "'a arm_core_data_scheme \<Rightarrow> u32 outcome" where
  "arm_read_cpsr p = read_cpsr (reg p)"

definition arm_read_spsr :: "'a arm_core_data_scheme \<Rightarrow> u32 outcome" where
  "arm_read_spsr p = read_spsr (reg p)"

definition arm_write_register ::
    "'a arm_core_data_scheme \<Rightarrow> u8 \<Rightarrow> u32 \<Rightarrow> 'a arm_core_data_scheme outcome" where
  "arm_write_register p r value =
     bnd (write_register (reg p) r value) (\<lambda>rs. Inr (p\<lparr>reg := rs\<rparr>))"

definition arm_write_usr_register ::
    "'a arm_core_data_scheme \<Rightarrow> u8 \<Rightarrow> u32 \<Rightarrow> 'a arm_core_data_scheme outcome" where
  "arm_write_usr_register p r value =
     bnd (write_usr_register (reg p) r value) (\<lambda>rs. Inr (p\<lparr>reg := rs\<rparr>))"

definition arm_write_cpsr ::
    "'a arm_core_data_scheme \<Rightarrow> u32 \<Rightarrow> 'a arm_core_data_scheme outcome" where
  "arm_write_cpsr p value = bnd (write_cpsr (reg p) value) (\<lambda>rs. Inr (p\<lparr>reg := rs\<rparr>))"

definition arm_write_spsr ::
    "'a arm_core_data_scheme \<Rightarrow> u32 \<Rightarrow> 'a arm_core_data_scheme outcome" where
  "arm_write_spsr p value = bnd (write_spsr (reg p) value) (\<lambda>rs. Inr (p\<lparr>reg := rs\<rparr>))"

section \<open>Memory accesses\<close>

text \<open>A read gives \<open>None\<close> for the result \<open>-1\<close>; a write gives the flag of success and the state.\<close>

definition arm_fetch ::
    "host \<Rightarrow> 'a arm_core_data_scheme \<Rightarrow> (u32 option \<times> 'a arm_core_data_scheme) outcome" where
  "arm_fetch h p =
    (let p = p\<lparr>cycle_count := cycle_count p + 1\<rparr>
     in bnd (arm_read_register p 15) (\<lambda>pc.
        let address = pc - 4
        in bnd (memory_read_word h (mem p) address) (\<lambda>value.
           bnd (arm_write_register p 15 (address + 4)) (\<lambda>p. Inr (value, p)))))"

definition arm_read_byte :: "'a arm_core_data_scheme \<Rightarrow> u32 \<Rightarrow> u8 option outcome" where
  "arm_read_byte p address = memory_read_byte (mem p) address"

definition arm_read_half :: "host \<Rightarrow> 'a arm_core_data_scheme \<Rightarrow> u32 \<Rightarrow> u16 option outcome" where
  "arm_read_half h p address = memory_read_half h (mem p) address"

definition arm_read_word :: "host \<Rightarrow> 'a arm_core_data_scheme \<Rightarrow> u32 \<Rightarrow> u32 option outcome" where
  "arm_read_word h p address = memory_read_word h (mem p) address"

text \<open>The memory is shared and updated in place: a failed write leaves the state as it was.\<close>

definition put_mem :: "'a arm_core_data_scheme \<Rightarrow> memory_data option \<Rightarrow> bool \<times> 'a arm_core_data_scheme" where
  "put_mem p r = (case r of None \<Rightarrow> (False, p) | Some m \<Rightarrow> (True, p\<lparr>mem := m\<rparr>))"

definition arm_write_byte ::
    "'a arm_core_data_scheme \<Rightarrow> u32 \<Rightarrow> u8 \<Rightarrow> (bool \<times> 'a arm_core_data_scheme) outcome" where
  "arm_write_byte p address value =
     bnd (memory_write_byte (mem p) address value) (\<lambda>r. Inr (put_mem p r))"

definition arm_write_half ::
    "host \<Rightarrow> 'a arm_core_data_scheme \<Rightarrow> u32 \<Rightarrow> u16 \<Rightarrow> (bool \<times> 'a arm_core_data_scheme) outcome" where
  "arm_write_half h p address value =
     bnd (memory_write_half h (mem p) address value) (\<lambda>r. Inr (put_mem p r))"

definition arm_write_word ::
    "host \<Rightarrow> 'a arm_core_data_scheme \<Rightarrow> u32 \<Rightarrow> u32 \<Rightarrow> (bool \<times> 'a arm_core_data_scheme) outcome" where
  "arm_write_word h p address value =
     bnd (memory_write_word h (mem p) address value) (\<lambda>r. Inr (put_mem p r))"

section \<open>Exceptions and creation\<close>

definition Exception_bit_9 :: u32 where
  "Exception_bit_9 = push_bit 9 0"

definition arm_exception :: "'a arm_core_data_scheme \<Rightarrow> u8 \<Rightarrow> 'a arm_core_data_scheme outcome" where
  "arm_exception p exc =
     (if exc = 1 then
        bnd (arm_write_cpsr p (0x1d3 OR Exception_bit_9)) (\<lambda>p. arm_write_usr_register p 15 0)
      else if exc = 2 then Inr p
      else if exc = 5 then Inr p
      else Inr p)"

text \<open>\<open>p\<close> is the allocated structure before its fields are set and \<open>raw\<close> that of its registers.\<close>

definition arm_create ::
    "'a arm_core_data_scheme \<Rightarrow> registers_data \<Rightarrow> memory_data \<Rightarrow> 'a arm_core_data_scheme outcome" where
  "arm_create p raw m =
    (let p = p\<lparr>mem := m\<rparr>; p = p\<lparr>reg := registers_create raw\<rparr>
     in bnd (arm_exception p 1) (\<lambda>p. Inr (p\<lparr>cycle_count := 0\<rparr>)))"

section \<open>The processor seen as a set of values\<close>

text \<open>\<open>rget\<close> and \<open>rset\<close> read and write register number \<open>r\<close> (15 the PC, 16 the CPSR) of the current
  mode; \<open>rview\<close> is what an instruction sees, its own address plus 8 for the PC.  \<open>uget\<close> and \<open>uset\<close>
  are the same for the user registers.\<close>

definition rget :: "'a arm_core_data_scheme \<Rightarrow> nat \<Rightarrow> u32" where
  "rget p r = registers (reg p) ! phys (get_mode_num (reg p)) r"

definition rset :: "'a arm_core_data_scheme \<Rightarrow> nat \<Rightarrow> u32 \<Rightarrow> 'a arm_core_data_scheme" where
  "rset p r v = p\<lparr>reg := (reg p)\<lparr>registers := (registers (reg p))[phys (get_mode_num (reg p)) r := v]\<rparr>\<rparr>"

definition uget :: "'a arm_core_data_scheme \<Rightarrow> nat \<Rightarrow> u32" where
  "uget p r = registers (reg p) ! phys 0 r"

definition uset :: "'a arm_core_data_scheme \<Rightarrow> nat \<Rightarrow> u32 \<Rightarrow> 'a arm_core_data_scheme" where
  "uset p r v = p\<lparr>reg := (reg p)\<lparr>registers := (registers (reg p))[phys 0 r := v]\<rparr>\<rparr>"

definition pc_view :: "u32 \<Rightarrow> u32" where
  "pc_view v = (v + 4) AND 0xFFFFFFFD"

definition rview :: "'a arm_core_data_scheme \<Rightarrow> nat \<Rightarrow> u32" where
  "rview p r = (if r = 15 then pc_view (rget p 15) else rget p r)"

definition wf_core :: "'a arm_core_data_scheme \<Rightarrow> bool" where
  "wf_core p \<longleftrightarrow> wf_registers (reg p) \<and> wf_memory (mem p)"

text \<open>The states the simulator can reach: well formed and in system mode, which \<^verbatim>\<open>registers_create\<close>
  sets and nothing changes.\<close>

definition sys_core :: "'a arm_core_data_scheme \<Rightarrow> bool" where
  "sys_core p \<longleftrightarrow> wf_core p \<and> mode (reg p) = SYS"

named_theorems core_eqs

lemma sys_core_wf [simp]: "sys_core p \<Longrightarrow> wf_core p"
  by (simp add: sys_core_def)

lemma unat_15: "unat (r :: u8) = 15 \<longleftrightarrow> r = 15"
  by (simp add: word_unat_eq_iff)

lemma arm_read_register_eq [core_eqs]:
  "wf_core p \<Longrightarrow> unat r < 17 \<Longrightarrow> arm_read_register p r = Inr (rview p (unat r))"
  by (auto simp: arm_read_register_def wf_core_def read_register_eq rview_def rget_def pc_view_def unat_15)

lemma arm_write_register_eq [core_eqs]:
  "wf_core p \<Longrightarrow> unat r < 17 \<Longrightarrow> arm_write_register p r v = Inr (rset p (unat r) v)"
  by (simp add: arm_write_register_def wf_core_def write_register_eq rset_def)

lemma arm_read_usr_register_eq [core_eqs]:
  "wf_core p \<Longrightarrow> unat r < 17 \<Longrightarrow> arm_read_usr_register p r =
     Inr (if unat r = 15 then pc_view (uget p 15) else uget p (unat r))"
  by (auto simp: arm_read_usr_register_def wf_core_def read_usr_register_eq uget_def pc_view_def unat_15)

lemma arm_write_usr_register_eq [core_eqs]:
  "wf_core p \<Longrightarrow> unat r < 17 \<Longrightarrow> arm_write_usr_register p r v = Inr (uset p (unat r) v)"
  by (simp add: arm_write_usr_register_def wf_core_def write_usr_register_eq uset_def)

lemma arm_cpsr_eq [core_eqs]:
  "wf_core p \<Longrightarrow> arm_read_cpsr p = Inr (rget p 16)"
  "wf_core p \<Longrightarrow> arm_write_cpsr p v = Inr (rset p 16 v)"
  by (simp_all add: arm_read_cpsr_def arm_write_cpsr_def wf_core_def read_cpsr_eq write_cpsr_eq rget_def rset_def)

lemma arm_spsr_sys [core_eqs]:
  "sys_core p \<Longrightarrow> arm_read_spsr p = Inl Null_Deref"
  "sys_core p \<Longrightarrow> arm_write_spsr p v = Inl Null_Deref"
  "sys_core p \<Longrightarrow> arm_current_mode_has_spsr p = Inr False"
  by (simp_all add: arm_read_spsr_def arm_write_spsr_def arm_current_mode_has_spsr_def sys_core_def
      wf_core_def spsr_eq get_mode_num_def)

lemma arm_memory_eq [core_eqs]:
  "wf_core p \<Longrightarrow> arm_read_byte p a = Inr (byte_at (mem p) a)"
  "wf_core p \<Longrightarrow> arm_read_half h p a = Inr (half_at (mem p) a)"
  "wf_core p \<Longrightarrow> arm_read_word h p a = Inr (word_at (mem p) a)"
  "wf_core p \<Longrightarrow> arm_write_byte p a b = Inr (put_mem p (put_byte (mem p) a b))"
  "wf_core p \<Longrightarrow> arm_write_half h p a c = Inr (put_mem p (put_half (mem p) a c))"
  "wf_core p \<Longrightarrow> arm_write_word h p a d = Inr (put_mem p (put_word (mem p) a d))"
  by (simp_all add: wf_core_def arm_read_byte_def arm_read_half_def arm_read_word_def arm_write_byte_def
      arm_write_half_def arm_write_word_def memory_read_byte_eq memory_read_half_eq memory_read_word_eq
      memory_write_byte_eq memory_write_half_eq memory_write_word_eq)

text \<open>Reading after writing, and what a write leaves alone.\<close>

lemma rget_rset:
  "wf_core p \<Longrightarrow> r < 17 \<Longrightarrow> r' < 17 \<Longrightarrow> rget (rset p r v) r' = (if r' = r then v else rget p r')"
  by (auto simp: rget_def rset_def wf_core_def nth_update)

lemma rset_frame [simp]:
  "mem (rset p r v) = mem p" "cycle_count (rset p r v) = cycle_count p"
  "mode (reg (rset p r v)) = mode (reg p)" "arm_core_data.more (rset p r v) = arm_core_data.more p"
  "mem (uset p r v) = mem p" "cycle_count (uset p r v) = cycle_count p"
  "mode (reg (uset p r v)) = mode (reg p)" "arm_core_data.more (uset p r v) = arm_core_data.more p"
  by (simp_all add: rset_def uset_def)

lemma wf_core_set [simp]:
  "wf_core p \<Longrightarrow> wf_core (rset p r v)" "wf_core p \<Longrightarrow> wf_core (uset p r v)"
  by (simp_all add: wf_core_def rset_def uset_def)

lemma sys_core_set [simp]:
  "sys_core p \<Longrightarrow> sys_core (rset p r v)" "sys_core p \<Longrightarrow> sys_core (uset p r v)"
  by (simp_all add: sys_core_def)

lemma wf_core_cycle [simp]:
  "wf_core (p\<lparr>cycle_count := c\<rparr>) = wf_core p" "sys_core (p\<lparr>cycle_count := c\<rparr>) = sys_core p"
  "rget (p\<lparr>cycle_count := c\<rparr>) r = rget p r" "rview (p\<lparr>cycle_count := c\<rparr>) r = rview p r"
  "rset (p\<lparr>cycle_count := c\<rparr>) r v = (rset p r v)\<lparr>cycle_count := c\<rparr>"
  by (simp_all add: wf_core_def sys_core_def rget_def rview_def rset_def)

lemma rget_mem [simp]:
  "rget (p\<lparr>mem := m\<rparr>) r = rget p r" "rview (p\<lparr>mem := m\<rparr>) r = rview p r" "uget (p\<lparr>mem := m\<rparr>) r = uget p r"
  "mem (p\<lparr>mem := m\<rparr>) = m"
  by (simp_all add: rget_def rview_def uget_def)

lemma rset_rset_same [simp]: "rset (rset p r v) r w = rset p r w"
  by (simp add: rset_def)

text \<open>In system mode the user view is the current view.\<close>

lemma sys_user_view:
  assumes "sys_core p" "r < 17"
  shows "uget p r = rget p r" "uset p r v = rset p r v"
proof -
  have "get_mode_num (reg p) = 6" using assms(1) by (simp add: sys_core_def get_mode_num_def)
  moreover have "phys 0 r = phys 6 r" using assms(2) by (simp add: phys_def bank_def)
  ultimately show "uget p r = rget p r" "uset p r v = rset p r v"
    by (simp_all add: uget_def rget_def uset_def rset_def)
qed

lemma put_mem_simps [simp]:
  "put_mem p None = (False, p)" "put_mem p (Some m) = (True, p\<lparr>mem := m\<rparr>)"
  by (simp_all add: put_mem_def)

lemma core_put:
  assumes "put_byte (mem p) a b = Some m \<or> put_half (mem p) a c = Some m \<or> put_word (mem p) a d = Some m"
  shows "wf_core p \<Longrightarrow> wf_core (p\<lparr>mem := m\<rparr>)" "sys_core p \<Longrightarrow> sys_core (p\<lparr>mem := m\<rparr>)"
  using put_keeps(1)[OF assms] by (simp_all add: wf_core_def sys_core_def)

lemma core_put_snd [simp]:
  "wf_core p \<Longrightarrow> wf_core (snd (put_mem p (put_byte (mem p) a b)))"
  "wf_core p \<Longrightarrow> wf_core (snd (put_mem p (put_half (mem p) a c)))"
  "wf_core p \<Longrightarrow> wf_core (snd (put_mem p (put_word (mem p) a d)))"
  "sys_core p \<Longrightarrow> sys_core (snd (put_mem p (put_byte (mem p) a b)))"
  "sys_core p \<Longrightarrow> sys_core (snd (put_mem p (put_half (mem p) a c)))"
  "sys_core p \<Longrightarrow> sys_core (snd (put_mem p (put_word (mem p) a d)))"
  by (auto simp: put_mem_def intro: core_put split: option.splits)

lemma put_mem_frame [simp]:
  "rget (snd (put_mem p r)) k = rget p k" "rview (snd (put_mem p r)) k = rview p k"
  "uget (snd (put_mem p r)) k = uget p k"
  "cycle_count (snd (put_mem p r)) = cycle_count p" "reg (snd (put_mem p r)) = reg p"
  by (simp_all add: put_mem_def split: option.splits)

text \<open>The contract of a register view holds at the level of the core for r0 to r14.\<close>

interpretation core_regs: register_file arm_read_register arm_write_register wf_core "\<lambda>r. unat r < 15"
  by unfold_locales (auto simp: core_eqs rview_def rget_rset word_unat_eq_iff)

section \<open>Fetch, reset and creation\<close>

lemma bit_plus_4: "bit (v + 4 :: u32) (Suc 0) \<longleftrightarrow> bit v (Suc 0)"
proof transfer
  fix v :: int
  have "odd ((v + 4) div 2) \<longleftrightarrow> odd (v div 2)" by presburger
  then show "Suc 0 < LENGTH(32) \<and> bit (v + 4) (Suc 0) \<longleftrightarrow> Suc 0 < LENGTH(32) \<and> bit v (Suc 0)"
    by (simp add: bit_iff_odd)
qed

lemma pc_view_eq [simp]: "\<not> bit v 1 \<Longrightarrow> pc_view v = v + 4"
proof -
  assume "\<not> bit v 1"
  then have "\<not> bit (v + 4) 1" using bit_plus_4 by simp
  moreover have "pc_view v = unset_bit 1 (v + 4)"
  proof -
    have m: "(0xFFFFFFFD :: u32) = - 3" by simp
    have "pc_view v = (v + 4) AND - 3" unfolding pc_view_def m by (rule refl)
    then show ?thesis by (simp add: unset_bit_eq_and_not)
  qed
  ultimately show "pc_view v = v + 4"
    by (auto intro!: bit_word_eqI simp: bit_unset_bit_iff)
qed

lemma arm_fetch_eq [core_eqs]:
  "wf_core p \<Longrightarrow> arm_fetch h p = Inr (word_at (mem p) (pc_view (rget p 15) - 4),
     (rset p 15 (pc_view (rget p 15)))\<lparr>cycle_count := cycle_count p + 1\<rparr>)"
  by (simp add: arm_fetch_def core_eqs rview_def memory_read_word_eq wf_core_def)

lemma arm_exception_eq [core_eqs]:
  "wf_core p \<Longrightarrow> arm_exception p exc = Inr (if exc = 1 then uset (rset p 16 0x1d3) 15 0 else p)"
  by (simp add: arm_exception_def core_eqs Exception_bit_9_def)

text \<open>A concrete machine: a memory image, a created register bank and the rest of the record.\<close>

definition raw_bank :: registers_data where
  "raw_bank = \<lparr>mode = 0, registers = replicate 37 7, virtual_regs = replicate 126 None\<rparr>"

definition machine :: "u8 list \<Rightarrow> 'a \<Rightarrow> 'a arm_core_data_scheme" where
  "machine img x = \<lparr>cycle_count = 0, reg = registers_create raw_bank,
     mem = memory_create (of_nat (length img)) 0 img, \<dots> = x\<rparr>"

lemma raw_bank_ok: "raw_registers raw_bank"
  by (simp add: raw_registers_def raw_bank_def)

lemma sys_core_machine: "3 \<le> length img \<Longrightarrow> length img < 2 ^ 32 \<Longrightarrow> sys_core (machine img x)"
  using wf_memory_create[of img "of_nat (length img)" 0]
  by (simp add: sys_core_def wf_core_def machine_def raw_bank_ok registers_create_fields wf_registers_create
      unsigned_of_nat take_bit_nat_eq_self)

lemma rget_machine: "r < 17 \<Longrightarrow> rget (machine img x) r = 0"
  by (simp add: rget_def machine_def registers_create_fields raw_bank_ok)

section \<open>Properties\<close>

text \<open>Fetching.  From a PC with bit 1 clear, \<^verbatim>\<open>arm_fetch\<close> reads the word at the PC (or fails as
  that read does), adds 4 to the PC and 1 to the cycle counter, and changes nothing else; the PC
  that the instruction then reads is its own address plus 8, as the architecture has it.\<close>

theorem arm_fetch_correct:
  assumes "wf_core p" and "\<not> bit (rget p 15) 1"
  shows "\<exists>v p'. arm_fetch h p = Inr (v, p') \<and> memory_read_word h (mem p) (rget p 15) = Inr v
    \<and> rget p' 15 = rget p 15 + 4 \<and> arm_read_register p' 15 = Inr (rget p 15 + 8)
    \<and> cycle_count p' = cycle_count p + 1 \<and> mem p' = mem p
    \<and> (\<forall>r < 17. r \<noteq> 15 \<longrightarrow> rget p' r = rget p r) \<and> wf_core p'"
proof -
  have "\<not> bit (rget p 15 + 4) 1" using assms(2) bit_plus_4 by simp
  then have "pc_view (rget p 15 + 4) = rget p 15 + 8" by simp
  then show ?thesis
    using assms by (simp add: core_eqs rget_rset rview_def memory_read_word_eq wf_core_def[of p])
qed

theorem arm_fetch_correct_witness:
  "\<exists>p'. arm_fetch be_host (machine [1, 2, 3, 4] ()) = Inr (Some 0x04030201, p') \<and> rget p' 15 = 4"
proof -
  have "memory_read_word be_host (mem (machine [1, 2, 3, 4] ())) 0 = Inr (Some 0x04030201)"
    by code_simp
  then show ?thesis
    using arm_fetch_correct[where p = "machine [1, 2, 3, 4] ()" and h = be_host]
      sys_core_machine[of "[1, 2, 3, 4]" "()"]
    by (auto simp: rget_machine)
qed

text \<open>Creation.  \<^verbatim>\<open>arm_create\<close> gives a well-formed processor with the given memory, every general
  register and the PC zero, no cycles counted and the CPSR \<^verbatim>\<open>0x1d3\<close>.  The mode bits of that CPSR say
  supervisor, the register bank is in system mode.\<close>

theorem arm_create_correct:
  assumes "raw_registers raw" and "wf_memory m"
  shows "\<exists>p'. arm_create p raw m = Inr p' \<and> sys_core p' \<and> mem p' = m \<and> cycle_count p' = 0
    \<and> (\<forall>r < 16. rget p' r = 0) \<and> rget p' 16 = 0x1d3
    \<and> take_bit 5 (rget p' 16) = ucast SVC \<and> mode (reg p') = SYS"
proof -
  let ?p = "p\<lparr>mem := m, reg := registers_create raw\<rparr>"
  have sys: "sys_core ?p"
    using assms by (simp add: sys_core_def wf_core_def registers_create_fields wf_registers_create)
  moreover have "rget ?p r = 0" if "r < 17" for r
    using that assms by (simp add: rget_def registers_create_fields)
  moreover have "arm_create p raw m = Inr ((rset (rset ?p 16 0x1d3) 15 0)\<lparr>cycle_count := 0\<rparr>)"
    using sys by (simp add: arm_create_def Let_def core_eqs sys_user_view)
  moreover have "mode (reg ?p) = SYS" using sys by (simp add: sys_core_def)
  ultimately show ?thesis by (simp add: rget_rset)
qed

theorem arm_create_correct_witness:
  "\<exists>p'. arm_create (machine [9] ()) raw_bank (memory_create 4 0 [1, 2, 3, 4]) = Inr p' \<and> rget p' 16 = 0x1d3"
  using arm_create_correct[OF raw_bank_ok, where p = "machine [9] ()" and m = "memory_create 4 0 [1, 2, 3, 4]"]
    wf_memory_create[of "[1, 2, 3, 4]" 4 0]
  by auto

end
