(* ===== verification/Arm_Data_Processing.thy ===== *)
theory Arm_Data_Processing
  imports Arm_Core
begin

text \<open>
  The data-processing instructions of \<^verbatim>\<open>arm_data_processing.c\<close>: the decoding of the shifter operand,
  the sixteen operations and their effect on the condition flags.

  The global variable \<^verbatim>\<open>shifter_carry_out\<close>, which \<^verbatim>\<open>decode_so\<close> sets and the logical operations read,
  is a field of the state \<open>cpu\<close>, an extension of the processor record.  C functions that return
  0 or 1 as a truth value return a \<open>bool\<close>.
\<close>

section \<open>State\<close>

record cpu = arm_core_data +
  shifter_carry_out :: u32

section \<open>The shifter operand\<close>

definition albit :: "u32 \<Rightarrow> nat \<Rightarrow> bool \<Rightarrow> u32" where
  "albit x i b = (if b then set_bit_c x i else clr_bit x i)"

definition so_result :: "cpu \<Rightarrow> u32 \<Rightarrow> u32 \<Rightarrow> (u32 \<times> cpu) outcome" where
  "so_result p carry result = Inr (result, p\<lparr>shifter_carry_out := carry\<rparr>)"

text \<open>The branch for a register shifted by an immediate.\<close>

definition decode_so_imm_shift :: "host \<Rightarrow> cpu \<Rightarrow> u32 \<Rightarrow> (u32 \<times> cpu) outcome" where
  "decode_so_imm_shift h p ins =
    (let shift_imm = ucast (get_bits ins 11 7) :: u8;
         shift = ucast (get_bits ins 6 5) :: u8;
         rm = ucast (get_bits ins 3 0) :: u8
     in bnd (arm_read_register p rm) (\<lambda>rm_cont.
       if shift = LSL then
         if shift_imm = 0 then
           bnd (arm_read_cpsr p) (\<lambda>cpsr. so_result p (get_bit cpsr C_bit) rm_cont)
         else so_result p (get_bit rm_cont (32 - unat shift_imm)) (c_shl h rm_cont (unat shift_imm))
       else if shift = LSR then
         if shift_imm = 0 then so_result p (get_bit rm_cont 31) 0
         else so_result p (get_bit rm_cont (unat shift_imm - 1)) (c_shr h rm_cont (unat shift_imm))
       else if shift = ASR then
         if shift_imm = 0 then
           if get_bit rm_cont 31 = 0 then so_result p 0 0 else so_result p 1 (- 1)
         else so_result p (get_bit rm_cont (unat shift_imm - 1)) (asr h rm_cont shift_imm)
       else if shift_imm = 0 then
         bnd (arm_read_cpsr p) (\<lambda>cpsr. so_result p (get_bit rm_cont 0)
           (c_shl h (get_bit cpsr C_bit) 31 OR c_shr h rm_cont 1))
       else so_result p (get_bit rm_cont (unat shift_imm - 1)) (ror h rm_cont shift_imm)))"

text \<open>The branch for a register shifted by a register.\<close>

definition decode_so_reg_shift :: "host \<Rightarrow> cpu \<Rightarrow> u32 \<Rightarrow> (u32 \<times> cpu) outcome" where
  "decode_so_reg_shift h p ins =
     bnd (arm_read_register p (ucast (get_bits ins 11 8))) (\<lambda>rs_cont.
     let shift_imm = ucast (rs_cont AND 0xFF) :: u8;
         shift = ucast (get_bits ins 6 5) :: u8;
         rm = ucast (get_bits ins 3 0) :: u8
     in bnd (arm_read_register p rm) (\<lambda>rm_cont.
       if shift = LSL then
         if shift_imm = 32 then so_result p (get_bit rm_cont 0) 0
         else if shift_imm > 32 then so_result p 0 0
         else if shift_imm = 0 then
           bnd (arm_read_cpsr p) (\<lambda>cpsr. so_result p (get_bit cpsr C_bit) rm_cont)
         else so_result p (get_bit rm_cont (32 - unat shift_imm)) (c_shl h rm_cont (unat shift_imm))
       else if shift = LSR then
         if shift_imm = 32 then so_result p (get_bit rm_cont 31) 0
         else if shift_imm > 32 then so_result p 0 0
         else if shift_imm = 0 then so_result p (get_bit rm_cont 31) 0
         else so_result p (get_bit rm_cont (unat shift_imm - 1)) (c_shr h rm_cont (unat shift_imm))
       else if shift = ASR then
         if shift_imm \<ge> 32 then
           if get_bit rm_cont 31 = 0 then so_result p (get_bit rm_cont 31) 0
           else so_result p (get_bit rm_cont 31) (- 1)
         else if shift_imm = 0 then
           if get_bit rm_cont 31 = 0 then so_result p 0 0 else so_result p 1 (- 1)
         else so_result p (get_bit rm_cont (unat shift_imm - 1)) (asr h rm_cont shift_imm)
       else
         let shift_imm_5L = shift_imm AND 0x1F
         in if shift_imm = 0 then
              bnd (arm_read_cpsr p) (\<lambda>cpsr. so_result p (get_bit cpsr C_bit) rm_cont)
            else if shift_imm_5L = 0 then so_result p (get_bit rm_cont 31) rm_cont
            else so_result p (get_bit rm_cont (unat shift_imm_5L - 1)) (ror h rm_cont shift_imm_5L)))"

definition decode_so :: "host \<Rightarrow> cpu \<Rightarrow> u32 \<Rightarrow> (u32 \<times> cpu) outcome" where
  "decode_so h p ins =
     (if get_bit ins 25 \<noteq> 0 then
        let result = ror h (get_bits ins 7 0) (ucast (get_bits ins 11 8 * 2))
        in if get_bits ins 11 8 = 0 then
             bnd (arm_read_cpsr p) (\<lambda>cpsr. so_result p (get_bit cpsr C_bit) result)
           else so_result p (get_bit result 31) result
      else if get_bit ins 4 = 0 then decode_so_imm_shift h p ins
      else decode_so_reg_shift h p ins)"

section \<open>Flags\<close>

definition handle_rd15 :: "cpu \<Rightarrow> u8 \<Rightarrow> u32 \<Rightarrow> cpu outcome" where
  "handle_rd15 p rd s_bit =
     (if s_bit \<noteq> 0 \<and> rd = 15 then
        bnd (arm_current_mode_has_spsr p) (\<lambda>has.
          if has then bnd (arm_read_spsr p) (arm_write_cpsr p) else Inr p)
      else Inr p)"

definition borrowFrom :: "u32 \<Rightarrow> u32 \<Rightarrow> bool" where
  "borrowFrom rn rm = (rn < rm)"

definition overflowFrom :: "u32 \<Rightarrow> u32 \<Rightarrow> bool \<Rightarrow> bool" where
  "overflowFrom rn rm add =
     (if add then get_bit rn 31 = get_bit rm 31 \<and> get_bit (rn - rm) 31 \<noteq> get_bit rn 31
      else get_bit rn 31 \<noteq> get_bit rm 31 \<and> get_bit rn 31 \<noteq> get_bit (rn - rm) 31)"

definition carryFrom :: "u32 \<Rightarrow> u32 \<Rightarrow> bool" where
  "carryFrom rn rm = (rn + rm < rn)"

definition update_flags1 :: "cpu \<Rightarrow> u32 \<Rightarrow> cpu outcome" where
  "update_flags1 p res =
     bnd (arm_read_cpsr p) (\<lambda>cpsr.
     let cpsr = albit cpsr N_bit (get_bit res 31 \<noteq> 0);
         cpsr = albit cpsr Z_bit (res = 0);
         cpsr = albit cpsr C_bit (shifter_carry_out p \<noteq> 0)
     in arm_write_cpsr p cpsr)"

definition update_flags2 :: "cpu \<Rightarrow> u32 \<Rightarrow> u32 \<Rightarrow> u32 \<Rightarrow> cpu outcome" where
  "update_flags2 p res rn so =
     bnd (arm_read_cpsr p) (\<lambda>cpsr.
     let cpsr = albit cpsr N_bit (get_bit res 31 \<noteq> 0);
         cpsr = albit cpsr Z_bit (res = 0);
         cpsr = albit cpsr C_bit (\<not> borrowFrom rn so);
         cpsr = albit cpsr V_bit (overflowFrom rn so False)
     in arm_write_cpsr p cpsr)"

definition update_flags3 :: "cpu \<Rightarrow> u32 \<Rightarrow> u32 \<Rightarrow> u32 \<Rightarrow> cpu outcome" where
  "update_flags3 p res rn so =
     bnd (arm_read_cpsr p) (\<lambda>cpsr.
     let cpsr = albit cpsr N_bit (get_bit res 31 \<noteq> 0);
         cpsr = albit cpsr Z_bit (res = 0);
         cpsr = albit cpsr C_bit (carryFrom rn so);
         cpsr = albit cpsr V_bit (overflowFrom rn so True)
     in arm_write_cpsr p cpsr)"

section \<open>The sixteen operations\<close>

definition and_ins :: "cpu \<Rightarrow> u8 \<Rightarrow> u32 \<Rightarrow> u32 \<Rightarrow> u32 \<Rightarrow> cpu outcome" where
  "and_ins p rd rn so s_bit =
    (let res = rn AND so
     in bnd (arm_write_register p rd res) (\<lambda>p.
        bnd (handle_rd15 p rd s_bit) (\<lambda>p.
        if s_bit \<noteq> 0 \<and> rd \<noteq> 15 then update_flags1 p res else Inr p)))"

definition eor_ins :: "cpu \<Rightarrow> u8 \<Rightarrow> u32 \<Rightarrow> u32 \<Rightarrow> u32 \<Rightarrow> cpu outcome" where
  "eor_ins p rd rn so s_bit =
    (let res = rn XOR so
     in bnd (arm_write_register p rd res) (\<lambda>p.
        bnd (handle_rd15 p rd s_bit) (\<lambda>p.
        if s_bit \<noteq> 0 \<and> rd \<noteq> 15 then update_flags1 p res else Inr p)))"

definition sub_ins :: "cpu \<Rightarrow> u8 \<Rightarrow> u32 \<Rightarrow> u32 \<Rightarrow> u32 \<Rightarrow> cpu outcome" where
  "sub_ins p rd rn so s_bit =
    (let res = rn - so
     in bnd (arm_write_register p rd res) (\<lambda>p.
        bnd (handle_rd15 p rd s_bit) (\<lambda>p.
        if s_bit \<noteq> 0 \<and> rd \<noteq> 15 then update_flags2 p res rn so else Inr p)))"

definition rsb_ins :: "cpu \<Rightarrow> u8 \<Rightarrow> u32 \<Rightarrow> u32 \<Rightarrow> u32 \<Rightarrow> cpu outcome" where
  "rsb_ins p rd rn so s_bit =
    (let res = so - rn
     in bnd (arm_write_register p rd res) (\<lambda>p.
        bnd (handle_rd15 p rd s_bit) (\<lambda>p.
        if s_bit \<noteq> 0 \<and> rd \<noteq> 15 then update_flags2 p res so rn else Inr p)))"

definition add_ins :: "cpu \<Rightarrow> u8 \<Rightarrow> u32 \<Rightarrow> u32 \<Rightarrow> u32 \<Rightarrow> cpu outcome" where
  "add_ins p rd rn so s_bit =
    (let res = rn + so
     in bnd (arm_write_register p rd res) (\<lambda>p.
        bnd (handle_rd15 p rd s_bit) (\<lambda>p.
        if s_bit \<noteq> 0 \<and> rd \<noteq> 15 then update_flags3 p res rn so else Inr p)))"

definition adc_ins :: "cpu \<Rightarrow> u8 \<Rightarrow> u32 \<Rightarrow> u32 \<Rightarrow> u32 \<Rightarrow> cpu outcome" where
  "adc_ins p rd rn so s_bit =
     bnd (arm_read_cpsr p) (\<lambda>cpsr0.
     let res = rn + so + get_bit cpsr0 C_bit
     in bnd (arm_write_register p rd res) (\<lambda>p.
        bnd (handle_rd15 p rd s_bit) (\<lambda>p.
        if s_bit \<noteq> 0 \<and> rd \<noteq> 15 then
          bnd (arm_read_cpsr p) (\<lambda>cpsr1.
          let cpsr = albit cpsr1 N_bit (get_bit res 31 \<noteq> 0);
              cpsr = albit cpsr Z_bit (res = 0);
              cpsr = albit cpsr C_bit (carryFrom rn so \<or> carryFrom (rn + so) (get_bit cpsr1 C_bit));
              cpsr = albit cpsr V_bit (overflowFrom rn so True \<or> overflowFrom (rn + so) (get_bit cpsr1 C_bit) True)
          in arm_write_cpsr p cpsr)
        else Inr p)))"

definition sbc_ins :: "cpu \<Rightarrow> u8 \<Rightarrow> u32 \<Rightarrow> u32 \<Rightarrow> u32 \<Rightarrow> cpu outcome" where
  "sbc_ins p rd rn so s_bit =
     bnd (arm_read_cpsr p) (\<lambda>cpsr0.
     let res = rn - so - of_bool (get_bit cpsr0 C_bit = 0)
     in bnd (arm_write_register p rd res) (\<lambda>p.
        bnd (handle_rd15 p rd s_bit) (\<lambda>p.
        if s_bit \<noteq> 0 \<and> rd \<noteq> 15 then
          bnd (arm_read_cpsr p) (\<lambda>cpsr1.
          let cpsr = albit cpsr1 N_bit (get_bit res 31 \<noteq> 0);
              cpsr = albit cpsr Z_bit (res = 0);
              cpsr = albit cpsr C_bit (\<not> borrowFrom rn so \<or> \<not> borrowFrom (rn - so) (of_bool (get_bit cpsr1 C_bit = 0)));
              cpsr = albit cpsr V_bit (overflowFrom rn so False \<or> overflowFrom (rn - so) (of_bool (get_bit cpsr1 C_bit = 0)) False)
          in arm_write_cpsr p cpsr)
        else Inr p)))"

definition rsc_ins :: "cpu \<Rightarrow> u8 \<Rightarrow> u32 \<Rightarrow> u32 \<Rightarrow> u32 \<Rightarrow> cpu outcome" where
  "rsc_ins p rd rn so s_bit =
     bnd (arm_read_cpsr p) (\<lambda>cpsr0.
     let res = so - rn - of_bool (get_bit cpsr0 C_bit = 0)
     in bnd (arm_write_register p rd res) (\<lambda>p.
        bnd (handle_rd15 p rd s_bit) (\<lambda>p.
        if s_bit \<noteq> 0 \<and> rd \<noteq> 15 then
          bnd (arm_read_cpsr p) (\<lambda>cpsr1.
          let cpsr = albit cpsr1 N_bit (get_bit res 31 \<noteq> 0);
              cpsr = albit cpsr Z_bit (res = 0);
              cpsr = albit cpsr C_bit (\<not> borrowFrom so rn \<or> \<not> borrowFrom (so - rn) (of_bool (get_bit cpsr1 C_bit = 0)));
              cpsr = albit cpsr V_bit (overflowFrom so rn False \<or> overflowFrom (so - rn) (of_bool (get_bit cpsr1 C_bit = 0)) False)
          in arm_write_cpsr p cpsr)
        else Inr p)))"

definition tst_ins :: "cpu \<Rightarrow> u8 \<Rightarrow> u32 \<Rightarrow> u32 \<Rightarrow> u32 \<Rightarrow> cpu outcome" where
  "tst_ins p rd rn so s_bit = (let alu_out = rn AND so in update_flags1 p alu_out)"

definition teq_ins :: "cpu \<Rightarrow> u8 \<Rightarrow> u32 \<Rightarrow> u32 \<Rightarrow> u32 \<Rightarrow> cpu outcome" where
  "teq_ins p rd rn so s_bit = (let alu_out = rn XOR so in update_flags1 p alu_out)"

definition cmp_ins :: "cpu \<Rightarrow> u8 \<Rightarrow> u32 \<Rightarrow> u32 \<Rightarrow> u32 \<Rightarrow> cpu outcome" where
  "cmp_ins p rd rn so s_bit = (let alu_out = rn - so in update_flags2 p alu_out rn so)"

definition cmn_ins :: "cpu \<Rightarrow> u8 \<Rightarrow> u32 \<Rightarrow> u32 \<Rightarrow> u32 \<Rightarrow> cpu outcome" where
  "cmn_ins p rd rn so s_bit = (let alu_out = rn + so in update_flags3 p alu_out rn so)"

definition orr_ins :: "cpu \<Rightarrow> u8 \<Rightarrow> u32 \<Rightarrow> u32 \<Rightarrow> u32 \<Rightarrow> cpu outcome" where
  "orr_ins p rd rn so s_bit =
    (let res = rn OR so
     in bnd (arm_write_register p rd res) (\<lambda>p.
        bnd (handle_rd15 p rd s_bit) (\<lambda>p.
        if s_bit \<noteq> 0 \<and> rd \<noteq> 15 then update_flags1 p res else Inr p)))"

definition mov_ins :: "cpu \<Rightarrow> u8 \<Rightarrow> u32 \<Rightarrow> u32 \<Rightarrow> u32 \<Rightarrow> cpu outcome" where
  "mov_ins p rd rn so s_bit =
    (let res = so
     in bnd (arm_write_register p rd res) (\<lambda>p.
        bnd (handle_rd15 p rd s_bit) (\<lambda>p.
        if s_bit \<noteq> 0 \<and> rd \<noteq> 15 then update_flags1 p res else Inr p)))"

definition bic_ins :: "cpu \<Rightarrow> u8 \<Rightarrow> u32 \<Rightarrow> u32 \<Rightarrow> u32 \<Rightarrow> cpu outcome" where
  "bic_ins p rd rn so s_bit =
    (let res = rn AND NOT so
     in bnd (arm_write_register p rd res) (\<lambda>p.
        bnd (handle_rd15 p rd s_bit) (\<lambda>p.
        if s_bit \<noteq> 0 \<and> rd \<noteq> 15 then update_flags1 p res else Inr p)))"

definition mvn_ins :: "cpu \<Rightarrow> u8 \<Rightarrow> u32 \<Rightarrow> u32 \<Rightarrow> u32 \<Rightarrow> cpu outcome" where
  "mvn_ins p rd rn so s_bit =
    (let res = NOT so
     in bnd (arm_write_register p rd res) (\<lambda>p.
        bnd (handle_rd15 p rd s_bit) (\<lambda>p.
        if s_bit \<noteq> 0 \<and> rd \<noteq> 15 then update_flags1 p res else Inr p)))"

section \<open>Dispatch\<close>

definition arm_data_processing_shift :: "host \<Rightarrow> cpu \<Rightarrow> u32 \<Rightarrow> (int \<times> cpu) outcome" where
  "arm_data_processing_shift h p ins =
     bnd (arm_read_register p (ucast (get_bits ins 19 16))) (\<lambda>rn_cont.
     let rd = ucast (get_bits ins 15 12) :: u8
     in bnd (decode_so h p ins) (\<lambda>(so, p).
     let s_bit = get_bit ins 20; opcode = get_bits ins 24 21
     in bnd
      (if opcode = 0 then and_ins p rd rn_cont so s_bit
       else if opcode = 1 then eor_ins p rd rn_cont so s_bit
       else if opcode = 2 then sub_ins p rd rn_cont so s_bit
       else if opcode = 3 then rsb_ins p rd rn_cont so s_bit
       else if opcode = 4 then add_ins p rd rn_cont so s_bit
       else if opcode = 5 then adc_ins p rd rn_cont so s_bit
       else if opcode = 6 then sbc_ins p rd rn_cont so s_bit
       else if opcode = 7 then rsc_ins p rd rn_cont so s_bit
       else if opcode = 8 then tst_ins p rd rn_cont so s_bit
       else if opcode = 9 then teq_ins p rd rn_cont so s_bit
       else if opcode = 10 then cmp_ins p rd rn_cont so s_bit
       else if opcode = 11 then cmn_ins p rd rn_cont so s_bit
       else if opcode = 12 then orr_ins p rd rn_cont so s_bit
       else if opcode = 13 then mov_ins p rd rn_cont so s_bit
       else if opcode = 14 then bic_ins p rd rn_cont so s_bit
       else mvn_ins p rd rn_cont so s_bit)
      (\<lambda>p. Inr (0, p))))"

definition arm_data_processing_immediate_msr :: "cpu \<Rightarrow> u32 \<Rightarrow> (int \<times> cpu) outcome" where
  "arm_data_processing_immediate_msr p ins = Inr (UNDEFINED_INSTRUCTION, p)"

section \<open>The flags\<close>

lemma bit_albit [simp]: "i < 32 \<Longrightarrow> bit (albit x i b) j \<longleftrightarrow> (if j = i then b else bit x j)"
  by (auto simp: albit_def c_macros bit_set_bit_iff bit_unset_bit_iff)

text \<open>The CPSR with new values of N, Z and C, and of V.\<close>

definition nzc :: "u32 \<Rightarrow> bool \<Rightarrow> bool \<Rightarrow> bool \<Rightarrow> u32" where
  "nzc x n z c = albit (albit (albit x N_bit n) Z_bit z) C_bit c"

definition nzcv :: "u32 \<Rightarrow> bool \<Rightarrow> bool \<Rightarrow> bool \<Rightarrow> bool \<Rightarrow> u32" where
  "nzcv x n z c v = albit (nzc x n z c) V_bit v"

lemma bit_nzc [simp]:
  "bit (nzc x n z c) j \<longleftrightarrow> (if j = 31 then n else if j = 30 then z else if j = 29 then c else bit x j)"
  by (simp add: nzc_def)

lemma bit_nzcv [simp]:
  "bit (nzcv x n z c v) j \<longleftrightarrow> (if j = 28 then v else if j = 31 then n else if j = 30 then z
     else if j = 29 then c else bit x j)"
  by (simp add: nzcv_def)

lemma update_flags_eq [core_eqs]:
  "wf_core p \<Longrightarrow> update_flags1 p res =
     Inr (rset p 16 (nzc (rget p 16) (bit res 31) (res = 0) (shifter_carry_out p \<noteq> 0)))"
  "wf_core p \<Longrightarrow> update_flags2 p res rn so =
     Inr (rset p 16 (nzcv (rget p 16) (bit res 31) (res = 0) (\<not> borrowFrom rn so) (overflowFrom rn so False)))"
  "wf_core p \<Longrightarrow> update_flags3 p res rn so =
     Inr (rset p 16 (nzcv (rget p 16) (bit res 31) (res = 0) (carryFrom rn so) (overflowFrom rn so True)))"
  by (simp_all add: update_flags1_def update_flags2_def update_flags3_def core_eqs nzc_def nzcv_def)

lemma handle_rd15_sys [core_eqs]: "sys_core p \<Longrightarrow> handle_rd15 p rd s_bit = Inr p"
  by (simp add: handle_rd15_def core_eqs)

text \<open>The sign bit, unsigned comparison and signed overflow.\<close>

lemma bit_31_iff: "bit (x :: u32) 31 \<longleftrightarrow> sint x < 0"
  by (simp add: bit_last_iff[symmetric])

lemma sint_u32_range: "- (2 ^ 31) \<le> sint (x :: u32)" "sint (x :: u32) < 2 ^ 31"
  using sint_greater_eq[of x] sint_less[of x] by simp_all

lemma sint_minus_u32:
  "sint (x - y :: u32) = (let d = sint x - sint y in
     if d < - (2 ^ 31) then d + 2 ^ 32 else if d \<ge> 2 ^ 31 then d - 2 ^ 32 else d)"
proof -
  define d where "d = sint x - sint y"
  have "- (2 ^ 32) < d" "d < 2 ^ 32"
    using sint_u32_range[of x] sint_u32_range[of y] by (simp_all add: d_def)
  moreover have "sint (x - y) = (d + 2 ^ 31) mod 2 ^ 32 - 2 ^ 31"
    by (simp add: sint_word_diff signed_take_bit_eq_take_bit_shift take_bit_eq_mod d_def)
  ultimately show ?thesis by (simp add: mod_near flip: d_def)
qed

lemma overflowFrom_sub: "overflowFrom x y False \<longleftrightarrow> sint (x - y) \<noteq> sint x - sint y"
  using sint_u32_range[of x] sint_u32_range[of y]
  by (auto simp: overflowFrom_def bit_31_iff sint_minus_u32 Let_def)

lemma overflowFrom_add: "overflowFrom x y True \<longleftrightarrow> (sint x < 0 \<longleftrightarrow> sint y < 0) \<and> (sint x < sint y \<longleftrightarrow> 0 \<le> sint x)"
  using sint_u32_range[of x] sint_u32_range[of y]
  by (auto simp: overflowFrom_def bit_31_iff sint_minus_u32 Let_def)

lemma carryFrom_eq: "carryFrom x y \<longleftrightarrow> 2 ^ 32 \<le> unat x + unat y"
  using unsigned_less[of y, where 'a = nat]
  by (auto simp: carryFrom_def word_less_nat_alt unat_plus_if')

section \<open>The shifter operand against a reference shifter\<close>

text \<open>The barrel shifter of the architecture: result and carry out of shifting \<open>x\<close> by \<open>n\<close>.\<close>

definition shifter :: "u8 \<Rightarrow> nat \<Rightarrow> u32 \<Rightarrow> bool \<Rightarrow> u32 \<times> bool" where
  "shifter kind n x c =
     (if n = 0 then (x, c)
      else if kind = LSL then (push_bit n x, n \<le> 32 \<and> bit x (32 - n))
      else if kind = LSR then (drop_bit n x, bit x (n - 1))
      else if kind = ASR then (signed_drop_bit n x, bit x (min (n - 1) 31))
      else (word_rotr n x, bit x ((n - 1) mod 32)))"

text \<open>With an immediate count, 0 stands for 32 in LSR and ASR, and for rotate-with-extend in ROR.\<close>

definition imm_shifter :: "u8 \<Rightarrow> nat \<Rightarrow> u32 \<Rightarrow> bool \<Rightarrow> u32 \<times> bool" where
  "imm_shifter kind n x c =
     (if n = 0 \<and> kind = ROR then (push_bit 31 (of_bool c) OR drop_bit 1 x, bit x 0)
      else shifter kind (if n = 0 \<and> (kind = LSR \<or> kind = ASR) then 32 else n) x c)"

text \<open>The second operand of a data-processing instruction: a rotated immediate, a register shifted
  by an immediate, or a register shifted by the low byte of a register.\<close>

definition operand2 :: "cpu \<Rightarrow> u32 \<Rightarrow> u32 \<times> bool" where
  "operand2 p ins =
    (let c = bit (rget p 16) C_bit; x = rview p (unat (get_bits ins 3 0));
         kind = ucast (get_bits ins 6 5) :: u8
     in if bit ins 25 then
          let rot = 2 * unat (get_bits ins 11 8); v = word_rotr rot (get_bits ins 7 0)
          in (v, if rot = 0 then c else bit v 31)
        else if \<not> bit ins 4 then
          imm_shifter kind (unat (get_bits ins 11 7)) x c
        else shifter kind (unat (take_bit 8 (rview p (unat (get_bits ins 11 8))))) x c)"

text \<open>A register-specified LSR or ASR by zero, the one form the code gets wrong.\<close>

definition zero_right_shift :: "cpu \<Rightarrow> u32 \<Rightarrow> bool" where
  "zero_right_shift p ins \<longleftrightarrow> \<not> bit ins 25 \<and> bit ins 4
     \<and> (get_bits ins 6 5 = 1 \<or> get_bits ins 6 5 = 2)
     \<and> take_bit 8 (rview p (unat (get_bits ins 11 8))) = 0"

lemma word_rotr_mod_32: "word_rotr (n mod 32) (x :: u32) = word_rotr n x"
  by (rule bit_word_eqI) (simp add: bit_word_rotr_iff mod_add_right_eq)

lemma so_carry_sign: "signed_drop_bit 32 (x :: u32) = (if bit x 31 then - 1 else 0)"
  by (rule bit_word_eqI) (auto simp: bit_simps)

lemma decode_so_immediate:
  assumes "wf_core p" "host_shl32 h" "bit ins 25"
  shows "decode_so h p ins = so_result p (of_bool (snd (operand2 p ins))) (fst (operand2 p ins))"
proof -
  let ?f = "get_bits ins 11 8"
  have f: "unat ?f < 16" by simp
  have "2 * unat ?f mod 2 ^ 32 = 2 * unat ?f"
    by (intro mod_less) (simp add: less_trans[OF f])
  then have "unat (?f * 2) = 2 * unat ?f"
    by (simp add: unat_word_ariths mult.commute)
  moreover have "take_bit 8 (2 * unat ?f) = 2 * unat ?f"
    by (intro take_bit_nat_eq_self) (simp add: less_trans[OF f])
  ultimately have u: "unat (ucast (?f * 2) :: u8) = 2 * unat ?f"
    by (simp add: unsigned_ucast_eq)
  then have "ror h (get_bits ins 7 0) (ucast (?f * 2)) = word_rotr (2 * unat ?f) (get_bits ins 7 0)"
    using f assms(2) by (simp add: ror_eq)
  moreover note u
  ultimately show ?thesis
    using assms by (simp add: decode_so_def operand2_def core_eqs Let_def get_bit_eq unat_eq_0)
qed

lemma shift_kind_cases: "get_bits ins 6 5 = 0 \<or> get_bits ins 6 5 = 1 \<or> get_bits ins 6 5 = 2 \<or> get_bits ins 6 5 = 3"
proof -
  have "unat (get_bits ins 6 5) < 4" using get_bits_bound[of ins 6 5] by simp
  then have "unat (get_bits ins 6 5) = 0 \<or> unat (get_bits ins 6 5) = 1 \<or> unat (get_bits ins 6 5) = 2
      \<or> unat (get_bits ins 6 5) = 3" by linarith
  then show ?thesis by (simp add: word_unat_eq_iff)
qed

lemma decode_so_by_immediate:
  assumes "wf_core p" "\<not> bit ins 25" "\<not> bit ins 4"
  shows "decode_so h p ins = so_result p (of_bool (snd (operand2 p ins))) (fst (operand2 p ins))"
proof -
  have n: "unat (get_bits ins 11 7) < 32" using get_bits_bound[of ins 11 7] by simp
  then have n': "unat (get_bits ins 11 7) - Suc 0 \<le> 31" by linarith
  note defs = decode_so_def decode_so_imm_shift_def operand2_def imm_shifter_def shifter_def core_eqs Let_def
    get_bit_eq field_eq_iff unat_eq_0 ror_pos_eq asr_eq so_carry_sign unat_gt_0
  show ?thesis
    using shift_kind_cases[of ins] assms n n'
    by (elim disjE; cases "get_bits ins 11 7 = 0"; simp add: defs min_absorb1)
qed

lemma unat_and_31: "unat (n AND 0x1F :: u8) = unat n mod 32"
proof -
  have "n AND 0x1F = take_bit 5 n" by (simp add: take_bit_eq_mask mask_eq_exp_minus_1)
  then have "unat (n AND 0x1F) = take_bit 5 (unat n)" by (simp only: unsigned_take_bit_eq)
  then show ?thesis by (simp add: take_bit_eq_mod)
qed

lemma pred_mod_32: "0 < n mod 32 \<Longrightarrow> (n - Suc 0) mod 32 = n mod 32 - Suc 0" for n :: nat
  by (cases n) (auto simp: mod_Suc split: if_splits)

lemma pred_mod_32_0: "n mod 32 = 0 \<Longrightarrow> n \<noteq> 0 \<Longrightarrow> (n - Suc 0) mod 32 = 31" for n :: nat
  by (cases n) (auto simp: mod_Suc split: if_splits)

lemma wide_shifts:
  assumes "32 < n"
  shows "push_bit n (x :: u32) = 0" "drop_bit n (x :: u32) = 0" "\<not> bit (x :: u32) (n - Suc 0)"
    "signed_drop_bit n (x :: u32) = (if bit x 31 then - 1 else 0)"
  using assms by (auto intro!: bit_word_eqI simp: bit_simps min_def dest: bit_imp_le_length)

text \<open>A rotation by a register, whose low five bits the code uses.\<close>

lemma ror_by_register:
  assumes "n \<noteq> 0"
  shows "(if n AND 0x1F = 0 then so_result p (of_bool (bit x 31)) x
          else so_result p (of_bool (bit x (unat (n AND 0x1F) - 1))) (ror h x (n AND 0x1F)))
       = so_result p (of_bool (bit x ((unat n - 1) mod 32))) (word_rotr (unat n) x)"
proof -
  have z: "n AND 0x1F = 0 \<longleftrightarrow> unat n mod 32 = 0" by (metis unat_and_31 unat_eq_0)
  show ?thesis
  proof (cases "unat n mod 32 = 0")
    case True
    then have "word_rotr (unat n) x = x" by (metis word_rotr_mod_32 word_rotr_u32_0)
    with True z assms show ?thesis by (simp add: pred_mod_32_0 unat_eq_0)
  next
    case False
    with z show ?thesis
      by (simp add: ror_pos_eq unat_and_31 pred_mod_32 word_rotr_mod_32)
  qed
qed

lemma decode_so_by_register:
  assumes "wf_core p" "\<not> bit ins 25" "bit ins 4" "\<not> zero_right_shift p ins"
  shows "decode_so h p ins = so_result p (of_bool (snd (operand2 p ins))) (fst (operand2 p ins))"
proof -
  let ?x = "rview p (unat (get_bits ins 3 0))"
  define rs where "rs = rview p (unat (get_bits ins 11 8))"
  define n :: u8 where "n = ucast (take_bit 8 rs)"
  have n: "unat (take_bit 8 rs) = unat n"
    by (simp add: n_def unsigned_ucast_eq unsigned_take_bit_eq)
  then have n0: "take_bit 8 rs = 0 \<longleftrightarrow> n = 0"
    by (metis unat_eq_0)
  note defs = decode_so_def decode_so_reg_shift_def operand2_def shifter_def core_eqs Let_def
    get_bit_eq field_eq_iff unat_eq_0 asr_eq so_carry_sign unat_gt_0 and_0xFF
    word_less_nat_alt word_le_nat_alt rs_def[symmetric] n n0 n_def[symmetric]
  consider "n = 0" | "n \<noteq> 0" "get_bits ins 6 5 = 3" | "n \<noteq> 0" "get_bits ins 6 5 \<noteq> 3" "unat n < 32"
    | "n = 32" "get_bits ins 6 5 \<noteq> 3" | "32 < unat n" "get_bits ins 6 5 \<noteq> 3"
    by (cases "unat n" "32 :: nat" rule: linorder_cases) (auto simp: word_unat_eq_iff)
  then show ?thesis
  proof cases
    case 1
    then show ?thesis using shift_kind_cases[of ins] assms
      by (elim disjE; simp add: defs zero_right_shift_def)
  next
    case 2
    then have "decode_so h p ins = (if n AND 0x1F = 0 then so_result p (of_bool (bit ?x 31)) ?x
          else so_result p (of_bool (bit ?x (unat (n AND 0x1F) - 1))) (ror h ?x (n AND 0x1F)))"
      using assms by (simp add: defs)
    moreover from 2 assms have "operand2 p ins = (word_rotr (unat n) ?x, bit ?x ((unat n - 1) mod 32))"
      by (simp add: defs)
    ultimately show ?thesis by (simp only: ror_by_register[OF 2(1)] fst_conv snd_conv)
  next
    case 3
    then have "unat n - Suc 0 \<le> 31" by linarith
    with 3 show ?thesis using shift_kind_cases[of ins] assms
      by (elim disjE; simp add: defs min_absorb1)
  next
    case 4
    then show ?thesis using shift_kind_cases[of ins] assms
      by (elim disjE; simp add: defs)
  next
    case 5
    moreover from this have "n \<noteq> 0" "n \<noteq> 32" by auto
    ultimately show ?thesis using shift_kind_cases[of ins] assms
      by (elim disjE; simp add: defs wide_shifts)
  qed
qed

lemma zero_right_shift_eq:
  assumes "wf_core p" "zero_right_shift p ins"
  shows "decode_so h p ins =
    (let x = rview p (unat (get_bits ins 3 0)); k = ucast (get_bits ins 6 5) :: u8
     in so_result p (of_bool (snd (shifter k 32 x False))) (fst (shifter k 32 x False)))"
proof -
  have "(ucast (take_bit 8 (rview p (unat (get_bits ins 11 8)))) :: u8) = 0"
    using assms(2) by (simp add: zero_right_shift_def)
  then show ?thesis using assms
    by (auto simp: zero_right_shift_def decode_so_def decode_so_reg_shift_def shifter_def core_eqs Let_def
        get_bit_eq field_eq_iff and_0xFF so_carry_sign)
qed

lemma decode_so_eq:
  assumes "wf_core p" "host_shl32 h" "\<not> zero_right_shift p ins"
  shows "decode_so h p ins =
    Inr (fst (operand2 p ins), p\<lparr>shifter_carry_out := of_bool (snd (operand2 p ins))\<rparr>)"
  using assms decode_so_immediate[of p h ins] decode_so_by_immediate[of p ins h]
    decode_so_by_register[of p ins h]
  by (cases "bit ins 25"; cases "bit ins 4") (simp_all add: so_result_def)

text \<open>The operand that the code computes.\<close>

definition code_operand :: "cpu \<Rightarrow> u32 \<Rightarrow> u32 \<times> bool" where
  "code_operand p ins =
     (if zero_right_shift p ins then shifter (ucast (get_bits ins 6 5)) 32 (rview p (unat (get_bits ins 3 0))) False
      else operand2 p ins)"

lemma decode_so_code:
  assumes "wf_core p" "host_shl32 h"
  shows "decode_so h p ins = Inr (fst (code_operand p ins), p\<lparr>shifter_carry_out := of_bool (snd (code_operand p ins))\<rparr>)"
  using zero_right_shift_eq[OF assms(1), of ins h] decode_so_eq[OF assms, of ins]
  by (simp add: code_operand_def so_result_def Let_def)

section \<open>The operations against a reference ALU\<close>

definition alu :: "u32 \<Rightarrow> u32 \<Rightarrow> u32 \<Rightarrow> bool \<Rightarrow> u32" where
  "alu op a b c =
     (if op = 0 \<or> op = 8 then a AND b else if op = 1 \<or> op = 9 then a XOR b
      else if op = 2 \<or> op = 10 then a - b else if op = 3 then b - a
      else if op = 4 \<or> op = 11 then a + b else if op = 5 then a + b + of_bool c
      else if op = 6 then a - b - of_bool (\<not> c) else if op = 7 then b - a - of_bool (\<not> c)
      else if op = 12 then a OR b else if op = 13 then b else if op = 14 then a AND NOT b
      else NOT b)"

text \<open>Signed overflow of a subtraction, and the condition that the code uses for the V flag of an
  addition.\<close>

definition sub_overflow :: "u32 \<Rightarrow> u32 \<Rightarrow> bool" where
  "sub_overflow a b \<longleftrightarrow> sint (a - b) \<noteq> sint a - sint b"

definition skew :: "u32 \<Rightarrow> u32 \<Rightarrow> bool" where
  "skew a b \<longleftrightarrow> (sint a < 0 \<longleftrightarrow> sint b < 0) \<and> (sint a < sint b \<longleftrightarrow> 0 \<le> sint a)"

text \<open>The CPSR after an operation that sets the flags, as the code computes it: unsigned carry or no-borrow in C, except
  for SBC and RSC, which set C always.\<close>

definition alu_cpsr :: "u32 \<Rightarrow> u32 \<Rightarrow> u32 \<Rightarrow> bool \<Rightarrow> u32 \<Rightarrow> u32" where
  "alu_cpsr op a b shc cpsr =
    (let c = bit cpsr C_bit; r = alu op a b c; set = nzcv cpsr (bit r 31) (r = 0)
     in if op = 2 \<or> op = 10 then set (b \<le> a) (sub_overflow a b)
        else if op = 3 then set (a \<le> b) (sub_overflow b a)
        else if op = 4 \<or> op = 11 then set (2 ^ 32 \<le> unat a + unat b) (skew a b)
        else if op = 5 then set (2 ^ 32 \<le> unat a + unat b + of_bool c) (skew a b \<or> skew (a + b) (of_bool c))
        else if op = 6 then set True (sub_overflow a b \<or> sub_overflow (a - b) (of_bool (\<not> c)))
        else if op = 7 then set True (sub_overflow b a \<or> sub_overflow (b - a) (of_bool (\<not> c)))
        else nzc cpsr (bit r 31) (r = 0) shc)"

text \<open>The result written to \<open>rd\<close>, and the flags unless \<open>rd\<close> is the PC.\<close>

definition commit :: "cpu \<Rightarrow> u8 \<Rightarrow> u32 \<Rightarrow> u32 \<Rightarrow> u32 \<Rightarrow> cpu" where
  "commit p rd s_bit r cpsr =
    (let p = rset p (unat rd) r in if s_bit \<noteq> 0 \<and> rd \<noteq> 15 then rset p 16 cpsr else p)"

lemma finish_ins:
  assumes "sys_core p" "unat rd < 16" and "\<And>p. sys_core p \<Longrightarrow> k p = Inr (rset p 16 (f p))"
  shows "bnd (arm_write_register p rd r) (\<lambda>p. bnd (handle_rd15 p rd s_bit) (\<lambda>p.
      if s_bit \<noteq> 0 \<and> rd \<noteq> 15 then k p else Inr p))
    = Inr (commit p rd s_bit r (f (rset p (unat rd) r)))"
  using assms by (simp add: core_eqs commit_def Let_def)

lemma carry_of_adc:
  "4294967296 \<le> unat a + unat b \<or> 4294967295 \<le> unat (a + b) \<longleftrightarrow> 4294967295 \<le> unat a + unat b"
  "4294967296 \<le> unat a + unat b \<or> 4294967296 \<le> unat (a + b) \<longleftrightarrow> 4294967296 \<le> unat a + unat b"
  for a b :: u32
  using unsigned_less[of a, where 'a = nat] unsigned_less[of b, where 'a = nat]
  by (auto simp: unat_plus_if')

lemma sbc_carry: "b \<le> a \<or> 1 \<le> a - b" for a b :: u32
  using unsigned_less[of a, where 'a = nat] unsigned_less[of b, where 'a = nat]
  by (auto simp: word_le_nat_alt unat_sub_if')

lemma rget_16_write: "sys_core p \<Longrightarrow> unat rd < 16 \<Longrightarrow> rget (rset p (unat rd) r) 16 = rget p 16"
  by (simp add: rget_rset)

lemma sco_rset [simp]: "shifter_carry_out (rset p r v) = shifter_carry_out p"
  by (simp add: rset_def)

lemmas arith_flags = overflowFrom_sub[folded sub_overflow_def] overflowFrom_add[folded skew_def]
  carry_of_adc carryFrom_eq sbc_carry

text \<open>Every writing operation commits the result and flags of the reference, every comparison
  its flags.\<close>

definition alu_ins :: "u32 \<Rightarrow> cpu \<Rightarrow> u8 \<Rightarrow> u32 \<Rightarrow> u32 \<Rightarrow> u32 \<Rightarrow> cpu outcome" where
  "alu_ins op p rd a b s_bit =
    (let cpsr = rget p 16; cpsr' = alu_cpsr op a b (shifter_carry_out p \<noteq> 0) cpsr
     in Inr (if op = 8 \<or> op = 9 \<or> op = 10 \<or> op = 11 then rset p 16 cpsr'
             else commit p rd s_bit (alu op a b (bit cpsr C_bit)) cpsr'))"

lemmas ins_defs = and_ins_def eor_ins_def sub_ins_def rsb_ins_def add_ins_def adc_ins_def sbc_ins_def
  rsc_ins_def orr_ins_def mov_ins_def bic_ins_def mvn_ins_def

lemmas alu_simps = alu_ins_def alu_cpsr_def alu_def commit_def core_eqs rget_16_write arith_flags
  borrowFrom_def not_less get_bit_eq Let_def

lemma ins_eq_alu [core_eqs]:
  assumes "sys_core p" "unat rd < 16"
  shows "and_ins p rd a b s = alu_ins 0 p rd a b s" "eor_ins p rd a b s = alu_ins 1 p rd a b s"
    "sub_ins p rd a b s = alu_ins 2 p rd a b s" "rsb_ins p rd a b s = alu_ins 3 p rd a b s"
    "add_ins p rd a b s = alu_ins 4 p rd a b s" "orr_ins p rd a b s = alu_ins 12 p rd a b s"
    "mov_ins p rd a b s = alu_ins 13 p rd a b s" "bic_ins p rd a b s = alu_ins 14 p rd a b s"
    "mvn_ins p rd a b s = alu_ins 15 p rd a b s"
  using assms by (simp_all add: ins_defs alu_simps)

lemma comparison_eq_alu [core_eqs]:
  assumes "sys_core p"
  shows "tst_ins p rd a b s = alu_ins 8 p rd a b s" "teq_ins p rd a b s = alu_ins 9 p rd a b s"
    "cmp_ins p rd a b s = alu_ins 10 p rd a b s" "cmn_ins p rd a b s = alu_ins 11 p rd a b s"
  using assms by (simp_all add: tst_ins_def teq_ins_def cmp_ins_def cmn_ins_def alu_simps)

lemma carry_ins_eq_alu [core_eqs]:
  assumes "sys_core p" "unat rd < 16"
  shows "adc_ins p rd a b s = alu_ins 5 p rd a b s" "sbc_ins p rd a b s = alu_ins 6 p rd a b s"
    "rsc_ins p rd a b s = alu_ins 7 p rd a b s"
  using assms by (simp_all add: ins_defs alu_simps nzcv_def nzc_def)

lemma alu_ins_other: "op \<notin> {0, 1, 2, 3, 4, 5, 6, 7, 8, 9, 10, 11, 12, 13, 14} \<Longrightarrow> alu_ins op = alu_ins 15"
  by (auto simp: fun_eq_iff alu_ins_def alu_cpsr_def alu_def Let_def)

lemma sys_core_sco [simp]:
  "sys_core (p\<lparr>shifter_carry_out := c\<rparr>) = sys_core p" "wf_core (p\<lparr>shifter_carry_out := c\<rparr>) = wf_core p"
  "rget (p\<lparr>shifter_carry_out := c\<rparr>) r = rget p r" "rview (p\<lparr>shifter_carry_out := c\<rparr>) r = rview p r"
  by (simp_all add: sys_core_def wf_core_def rget_def rview_def)

lemma arm_data_processing_shift_eq:
  assumes "sys_core p" "decode_so h p ins = Inr (b, p1)" "sys_core p1"
  shows "arm_data_processing_shift h p ins =
    bnd (alu_ins (get_bits ins 24 21) p1 (ucast (get_bits ins 15 12)) (rview p (unat (get_bits ins 19 16)))
      b (get_bit ins 20)) (\<lambda>p. Inr (0, p))"
proof (cases "get_bits ins 24 21 \<in> {0, 1, 2, 3, 4, 5, 6, 7, 8, 9, 10, 11, 12, 13, 14}")
  case True
  then show ?thesis using assms
    by (auto simp: arm_data_processing_shift_def core_eqs Let_def)
next
  case False
  then show ?thesis using assms alu_ins_other[OF False]
    by (simp add: arm_data_processing_shift_def core_eqs Let_def)
qed

text \<open>Addition and subtraction of two-word numbers.\<close>

lemma two_word: "(m * d + s) mod (m * m) = m * ((d + s div m) mod m) + s mod m" if "0 < m" for m d s :: int
  using that by (simp add: zmod_zmult2_eq)

lemma uint_u32_less: "uint (x :: u32) < 4294967296"
  using unsigned_less[of x, where 'a = int] by simp

lemma wide_sum:
  fixes a0 b0 a1 b1 :: u32
  shows "2 ^ 32 * uint (a1 + b1 + of_bool (2 ^ 32 \<le> unat a0 + unat b0)) + uint (a0 + b0)
    = ((2 ^ 32 * uint a1 + uint a0) + (2 ^ 32 * uint b1 + uint b0)) mod 2 ^ 64"
proof -
  let ?s = "uint a0 + uint b0"
  have "int (unat a0 + unat b0) = ?s" by simp
  then have "4294967296 \<le> unat a0 + unat b0 \<longleftrightarrow> 4294967296 \<le> ?s" by linarith
  moreover have "- 4294967296 \<le> ?s" "?s < 2 * 4294967296" "\<not> ?s < 0"
    using uint_u32_less[of a0] uint_u32_less[of b0] uint_ge_0[of a0] uint_ge_0[of b0] by linarith+
  ultimately have "?s div 4294967296 = of_bool (2 ^ 32 \<le> unat a0 + unat b0)"
    by (simp add: div_near)
  then show ?thesis
    using two_word[of "4294967296" "uint a1 + uint b1" ?s]
    by (simp add: uint_word_ariths mod_simps algebra_simps)
qed

lemma wide_difference:
  fixes a0 b0 a1 b1 :: u32
  shows "2 ^ 32 * uint (a1 - b1 - of_bool (\<not> b0 \<le> a0)) + uint (a0 - b0)
    = ((2 ^ 32 * uint a1 + uint a0) - (2 ^ 32 * uint b1 + uint b0)) mod 2 ^ 64"
proof -
  let ?s = "uint a0 - uint b0"
  have "?s < 0 \<longleftrightarrow> \<not> b0 \<le> a0" by (simp add: word_le_def not_le)
  moreover have "- 4294967296 \<le> ?s" "?s < 2 * 4294967296" "\<not> 4294967296 \<le> ?s"
    using uint_u32_less[of a0] uint_u32_less[of b0] uint_ge_0[of a0] uint_ge_0[of b0] by linarith+
  ultimately have "?s div 4294967296 = - of_bool (\<not> b0 \<le> a0)"
    by (simp add: div_near)
  then show ?thesis
    using two_word[of "4294967296" "uint a1 - uint b1" ?s]
    by (simp add: uint_word_ariths mod_simps algebra_simps)
qed

text \<open>The flags of the architecture: the exact result of an arithmetic operation, read unsigned or signed by \<open>f\<close>;
  C is its carry out or the absence of a borrow, V that it does not fit.  The other operations take C from the
  shifter and leave V.\<close>

definition arithmetic :: "u32 \<Rightarrow> bool" where
  "arithmetic op \<longleftrightarrow> op \<in> {2, 3, 4, 5, 6, 7, 10, 11}"

definition exact :: "(u32 \<Rightarrow> int) \<Rightarrow> u32 \<Rightarrow> u32 \<Rightarrow> u32 \<Rightarrow> bool \<Rightarrow> int" where
  "exact f op a b c =
     (if op = 2 \<or> op = 10 then f a - f b else if op = 3 then f b - f a
      else if op = 4 \<or> op = 11 then f a + f b else if op = 5 then f a + f b + of_bool c
      else if op = 6 then f a - f b - of_bool (\<not> c) else f b - f a - of_bool (\<not> c))"

definition arch_carry :: "u32 \<Rightarrow> u32 \<Rightarrow> u32 \<Rightarrow> bool \<Rightarrow> bool \<Rightarrow> bool" where
  "arch_carry op a b c shc =
     (if \<not> arithmetic op then shc
      else if op \<in> {4, 5, 11} then 2 ^ 32 \<le> exact uint op a b c else 0 \<le> exact uint op a b c)"

definition arch_overflow :: "u32 \<Rightarrow> u32 \<Rightarrow> u32 \<Rightarrow> bool \<Rightarrow> bool \<Rightarrow> bool" where
  "arch_overflow op a b c v = (if arithmetic op then sint (alu op a b c) \<noteq> exact sint op a b c else v)"

text \<open>What the code does instead: SBC and RSC always set C, and V also when the borrow brings a difference of \<open>2 ^ 31\<close> back into
  the range; ADD, CMN and ADC compute V from \<open>skew\<close>.\<close>

definition code_carry :: "u32 \<Rightarrow> u32 \<Rightarrow> u32 \<Rightarrow> bool \<Rightarrow> bool \<Rightarrow> bool" where
  "code_carry op a b c shc \<longleftrightarrow> op \<in> {6, 7} \<or> arch_carry op a b c shc"

definition code_overflow :: "u32 \<Rightarrow> u32 \<Rightarrow> u32 \<Rightarrow> bool \<Rightarrow> bool \<Rightarrow> bool" where
  "code_overflow op a b c v \<longleftrightarrow>
     (if op \<in> {4, 11} then skew a b
      else if op = 5 then skew a b \<or> skew (a + b) (of_bool c)
      else arch_overflow op a b c v \<or> op \<in> {6, 7} \<and> \<not> c \<and> exact sint op a b c = 2 ^ 31 - 1)"

lemma borrow_overflow:
  "sub_overflow a b \<or> sub_overflow (a - b) (of_bool (\<not> c))
     \<longleftrightarrow> sint (a - b - of_bool (\<not> c)) \<noteq> sint a - sint b - of_bool (\<not> c) \<or> \<not> c \<and> sint a - sint b = 2 ^ 31"
  using sint_u32_range[of a] sint_u32_range[of b] sint_u32_range[of "a - b"]
  by (cases c) (auto simp: sub_overflow_def sint_minus_u32 Let_def split: if_splits)

lemma uint_le_diff: "0 \<le> uint a - uint b \<longleftrightarrow> b \<le> a" for a b :: u32
  by (simp add: word_le_def)

lemma uint_unat_sum: "2 ^ 32 \<le> uint a + uint b + of_bool c \<longleftrightarrow> 2 ^ 32 \<le> unat a + unat b + of_bool c" for a b :: u32
proof -
  have "uint a + uint b + of_bool c = int (unat a + unat b + of_bool c)" "(2 :: int) ^ 32 = int (2 ^ 32)" by simp_all
  then show ?thesis by (simp only: of_nat_le_iff)
qed

text \<open>The CPSR of the reference ALU, bit by bit.\<close>

lemma alu_cpsr_flags:
  "bit (alu_cpsr op a b shc x) j \<longleftrightarrow>
     (let c = bit x C_bit; r = alu op a b c
      in if j = N_bit then sint r < 0 else if j = Z_bit then r = 0
         else if j = C_bit then code_carry op a b c shc
         else if j = V_bit then code_overflow op a b c (bit x V_bit)
         else bit x j)"
proof -
  note defs = alu_cpsr_def alu_def Let_def code_carry_def code_overflow_def arch_carry_def arch_overflow_def exact_def arithmetic_def
    bit_31_iff sub_overflow_def
  have "op \<in> {4, 5, 11} \<Longrightarrow> ?thesis"
    using uint_unat_sum[of a b False] uint_unat_sum[of a b "bit x C_bit"] by (elim insertE; simp add: defs)
  moreover have "op \<in> {2, 3, 10} \<Longrightarrow> ?thesis"
    using uint_le_diff[of a b] uint_le_diff[of b a] by (elim insertE; simp add: defs)
  moreover have "op \<in> {6, 7} \<Longrightarrow> ?thesis"
    using borrow_overflow[of a b "bit x C_bit"] borrow_overflow[of b a "bit x C_bit"] by (elim insertE; cases "bit x C_bit"; simp add: defs)
  moreover have "\<not> arithmetic op \<Longrightarrow> ?thesis" by (simp add: defs)
  ultimately show ?thesis by (auto simp only: arithmetic_def)
qed

text \<open>A concrete machine with the shifter carry clear.\<close>

definition cpu_machine :: "u8 list \<Rightarrow> cpu" where
  "cpu_machine img = machine img (cpu.fields 0)"

lemma sys_core_cpu_machine: "3 \<le> length img \<Longrightarrow> length img < 2 ^ 32 \<Longrightarrow> sys_core (cpu_machine img)"
  by (simp add: cpu_machine_def sys_core_machine)

lemma rget_cpu_machine: "r < 17 \<Longrightarrow> rget (cpu_machine img) r = 0"
  by (simp add: cpu_machine_def rget_machine)

section \<open>Properties\<close>

text \<open>C20: the shifter operand.  In every addressing mode \<^verbatim>\<open>decode_so\<close> returns the value and sets the
  carry that the barrel shifter of the architecture gives, and changes nothing else.  The one
  exception is LSR or ASR by a register whose low byte is zero: the architecture leaves the operand
  and the carry alone, the code shifts by 32.\<close>

theorem decode_so_correct:
  assumes "wf_core p" and "host_shl32 h"
  shows "decode_so h p ins =
    (let (v, c) = (if zero_right_shift p ins
                   then shifter (ucast (get_bits ins 6 5)) 32 (rview p (unat (get_bits ins 3 0))) False
                   else operand2 p ins)
     in Inr (v, p\<lparr>shifter_carry_out := of_bool c\<rparr>))"
  using assms zero_right_shift_eq[of p ins h] decode_so_eq[of p h ins]
  by (auto simp: so_result_def Let_def split: prod.splits)

theorem decode_so_correct_witness:
  "decode_so be_host (cpu_machine (replicate 8 0)) 0xE3A01C12
     = Inr (0x1200, (cpu_machine (replicate 8 0))\<lparr>shifter_carry_out := 0\<rparr>)"
proof -
  have "operand2 (cpu_machine (replicate 8 0)) 0xE3A01C12 = (0x1200, False)"
    "\<not> zero_right_shift (cpu_machine (replicate 8 0)) 0xE3A01C12"
    by code_simp+
  then show ?thesis
    using decode_so_correct[where p = "cpu_machine (replicate 8 0)" and h = be_host and ins = "0xE3A01C12"]
      sys_core_cpu_machine[of "replicate 8 0"] host_shl32_instances
    by simp
qed

text \<open>C1: every data-processing instruction.  The sixteen operations write the result of the
  reference ALU on \<open>Rn\<close> and the shifter operand to \<open>Rd\<close> (the comparisons write none).  The flags
  change exactly for comparisons and for the S form with \<open>Rd\<close> other than the PC.  N and Z are those of the result.
  C is the architecture's for all operations but SBC and RSC, which always set it.  V is the architecture's
  for all operations but ADD, ADC and CMN, where it is computed by the wrong formula \<open>skew\<close>, and SBC and RSC with the carry clear and
  a result of \<open>2 ^ 31 - 1\<close>, where it is set without an overflow.  The shifter operand is the architecture's except for LSR and
  ASR by a register whose low byte is zero, which shift by 32 instead of 0.  No other register, no memory and no counter changes, and no
  exception is raised.\<close>

theorem data_processing_correct:
  fixes p :: cpu and ins :: u32
  assumes "sys_core p" and "host_shl32 h"
  defines "op \<equiv> get_bits ins 24 21" and "rd \<equiv> unat (get_bits ins 15 12)" and "x \<equiv> rget p 16"
    and "c \<equiv> bit (rget p 16) C_bit" and "a \<equiv> rview p (unat (get_bits ins 19 16))" and "b \<equiv> fst (code_operand p ins)"
  shows "\<exists>p'. arm_data_processing_shift h p ins = Inr (0, p')
    \<and> (\<forall>r < 16. rget p' r = (if r = rd \<and> op \<notin> {8, 9, 10, 11} then alu op a b c else rget p r))
    \<and> (\<forall>j. bit (rget p' 16) j \<longleftrightarrow>
        (if (op \<in> {8, 9, 10, 11} \<or> bit ins 20 \<and> rd \<noteq> 15) \<and> j \<in> {N_bit, Z_bit, C_bit, V_bit} then
           if j = N_bit then sint (alu op a b c) < 0
           else if j = Z_bit then alu op a b c = 0
           else if j = C_bit then op \<in> {6, 7} \<or> arch_carry op a b c (snd (code_operand p ins))
           else if op \<in> {4, 11} then skew a b
           else if op = 5 then skew a b \<or> skew (a + b) (of_bool c)
           else arch_overflow op a b c (bit x V_bit) \<or> op \<in> {6, 7} \<and> \<not> c \<and> exact sint op a b c = 2 ^ 31 - 1
         else bit x j))
    \<and> mem p' = mem p \<and> cycle_count p' = cycle_count p \<and> sys_core p'"
proof -
  have rd: "ucast (get_bits ins 15 12) = (15 :: u8) \<longleftrightarrow> rd = 15" "rd < 16"
    by (simp_all add: rd_def field_eq_iff word_unat_eq_iff)
  have so: "decode_so h p ins = Inr (b, p\<lparr>shifter_carry_out := of_bool (snd (code_operand p ins))\<rparr>)"
    using decode_so_code[OF _ assms(2), of p ins] assms(1) by (simp add: b_def sys_core_def)
  have "\<exists>p'. arm_data_processing_shift h p ins = Inr (0, p')
      \<and> (\<forall>r < 16. rget p' r = (if r = rd \<and> op \<notin> {8, 9, 10, 11} then alu op a b c else rget p r))
      \<and> rget p' 16 = (if op \<in> {8, 9, 10, 11} \<or> bit ins 20 \<and> rd \<noteq> 15 then alu_cpsr op a b (snd (code_operand p ins)) x else x)
      \<and> mem p' = mem p \<and> cycle_count p' = cycle_count p \<and> sys_core p'"
    using assms(1) rd(2) arm_data_processing_shift_eq[OF assms(1) so]
    by (auto simp: alu_ins_def commit_def Let_def rd(1) rget_rset op_def a_def x_def c_def simp flip: rd_def)
  then obtain p' where p': "arm_data_processing_shift h p ins = Inr (0, p')"
      "\<forall>r < 16. rget p' r = (if r = rd \<and> op \<notin> {8, 9, 10, 11} then alu op a b c else rget p r)"
      "rget p' 16 = (if op \<in> {8, 9, 10, 11} \<or> bit ins 20 \<and> rd \<noteq> 15 then alu_cpsr op a b (snd (code_operand p ins)) x else x)"
      "mem p' = mem p \<and> cycle_count p' = cycle_count p \<and> sys_core p'" by blast
  have "bit (rget p' 16) j \<longleftrightarrow>
        (if (op \<in> {8, 9, 10, 11} \<or> bit ins 20 \<and> rd \<noteq> 15) \<and> j \<in> {N_bit, Z_bit, C_bit, V_bit} then
           if j = N_bit then sint (alu op a b c) < 0
           else if j = Z_bit then alu op a b c = 0
           else if j = C_bit then code_carry op a b c (snd (code_operand p ins))
           else code_overflow op a b c (bit x V_bit)
         else bit x j)" for j
    by (simp add: p'(3) alu_cpsr_flags Let_def c_def x_def)
  then show ?thesis
    using p'(1,2,4) unfolding code_carry_def code_overflow_def by blast
qed

theorem data_processing_correct_witness:
  "\<exists>p'. arm_data_processing_shift x86_host (cpu_machine (replicate 8 0)) 0xE3A01C12 = Inr (0, p')
    \<and> rget p' 1 = 0x1200 \<and> rget p' 2 = 0"
proof -
  have "get_bits 0xE3A01C12 24 21 = 13" "unat (get_bits 0xE3A01C12 15 12) = 1"
    "fst (code_operand (cpu_machine (replicate 8 0)) 0xE3A01C12) = 0x1200"
    by code_simp+
  then show ?thesis
    using data_processing_correct[where p = "cpu_machine (replicate 8 0)" and h = x86_host and ins = "0xE3A01C12"]
      sys_core_cpu_machine[of "replicate 8 0"] host_shl32_instances
    by (auto simp: alu_def rget_cpu_machine)
qed

text \<open>A pair ADDS, ADC computes the 64-bit sum and a pair SUBS, SBC the 64-bit difference of two
  numbers held in two registers each: the carry that the first leaves is the one the second needs.\<close>

theorem double_word_arithmetic:
  assumes "sys_core p" and "unat lo < 15" and "unat hi < 15" and "lo \<noteq> hi"
  defines "wide \<equiv> \<lambda>h l. 2 ^ 32 * uint h + uint l :: int" and "val \<equiv> \<lambda>p r. rget (p :: cpu) (unat (r :: u8))"
  shows "(\<exists>p1 p2. add_ins p lo a0 b0 1 = Inr p1 \<and> adc_ins p1 hi a1 b1 s = Inr p2
      \<and> wide (val p2 hi) (val p2 lo) = (wide a1 a0 + wide b1 b0) mod 2 ^ 64)
    \<and> (\<exists>p1 p2. sub_ins p lo a0 b0 1 = Inr p1 \<and> sbc_ins p1 hi a1 b1 s = Inr p2
      \<and> wide (val p2 hi) (val p2 lo) = (wide a1 a0 - wide b1 b0) mod 2 ^ 64)"
proof -
  have neq: "lo \<noteq> 15" "hi \<noteq> 15" "unat lo \<noteq> unat hi" using assms(2-4) by (auto simp: word_unat_eq_iff)
  have sys: "sys_core (commit p lo 1 r x)" for r x
    using assms(1) by (simp add: commit_def Let_def)
  have val: "rget (commit (commit p lo 1 r x) hi s r' x') (unat hi) = r'"
    "rget (commit (commit p lo 1 r x) hi s r' x') (unat lo) = r"
    "rget (commit p lo 1 r x) 16 = x" for r x r' x'
    using assms(1-4) neq by (auto simp: commit_def Let_def rget_rset)
  show ?thesis
    using assms(1-3) neq(1,2) wide_sum[of a1 b1 a0 b0] wide_difference[of a1 b1 b0 a0]
    by (simp add: core_eqs alu_ins_def sys val alu_def alu_cpsr_def Let_def wide_def val_def
        split del: if_split split: split_of_bool_asm)
qed

theorem double_word_arithmetic_witness:
  "\<exists>p1 p2. add_ins (cpu_machine (replicate 8 0)) 0 0xFFFFFFFF 1 1 = Inr p1 \<and> adc_ins p1 1 2 3 0 = Inr p2
     \<and> 2 ^ 32 * uint (rget p2 1) + uint (rget p2 0) = 6 * 2 ^ 32"
  using double_word_arithmetic[where p = "cpu_machine (replicate 8 0)" and lo = 0 and hi = 1 and s = 0
      and ?a0.0 = "0xFFFFFFFF" and ?b0.0 = 1 and ?a1.0 = 2 and ?b1.0 = 3] sys_core_cpu_machine[of "replicate 8 0"]
  by simp

text \<open>The flags of ADDS.  N, Z and C are those of the sum, but the V flag is computed from the
  difference of the operands: for two non-negative operands it is set exactly when the first is
  smaller, whether or not the sum overflows.\<close>

theorem adds_overflow_flag:
  assumes "sys_core p" and "unat rd < 15"
  shows "\<exists>p'. add_ins p rd a b 1 = Inr p' \<and> rget p' (unat rd) = a + b
    \<and> (bit (rget p' 16) N_bit \<longleftrightarrow> sint (a + b) < 0) \<and> (bit (rget p' 16) Z_bit \<longleftrightarrow> a + b = 0)
    \<and> (bit (rget p' 16) C_bit \<longleftrightarrow> 2 ^ 32 \<le> unat a + unat b)
    \<and> (0 \<le> sint a \<and> 0 \<le> sint b \<longrightarrow> (bit (rget p' 16) V_bit \<longleftrightarrow> sint a < sint b))"
proof -
  have "rd \<noteq> 15" using assms(2) by auto
  with assms show ?thesis
    by (auto simp: core_eqs alu_ins_def commit_def alu_def alu_cpsr_def Let_def rget_rset skew_def bit_31_iff[of "a + b"])
qed

theorem adds_overflow_flag_witness:
  "(\<exists>p'. add_ins (cpu_machine (replicate 8 0)) 0 1 2 1 = Inr p' \<and> bit (rget p' 16) V_bit)
   \<and> (\<exists>p'. add_ins (cpu_machine (replicate 8 0)) 0 0x7FFFFFFF 1 1 = Inr p' \<and> \<not> bit (rget p' 16) V_bit)"
  using adds_overflow_flag[where p = "cpu_machine (replicate 8 0)" and rd = 0 and a = 1 and b = 2]
    adds_overflow_flag[where p = "cpu_machine (replicate 8 0)" and rd = 0 and a = "0x7FFFFFFF" and b = 1]
    sys_core_cpu_machine[of "replicate 8 0"]
  by auto

text \<open>SBCS and RSCS subtract with borrow, but leave the C flag set whatever the operands are: a
  borrow out of the second word of a subtraction is lost.\<close>

theorem sbc_rsc_carry_always_set:
  assumes "sys_core p" and "unat rd < 15"
  shows "(\<exists>p'. sbc_ins p rd a b 1 = Inr p' \<and> bit (rget p' 16) C_bit
      \<and> rget p' (unat rd) = a - b - of_bool (\<not> bit (rget p 16) C_bit))
    \<and> (\<exists>p'. rsc_ins p rd a b 1 = Inr p' \<and> bit (rget p' 16) C_bit
      \<and> rget p' (unat rd) = b - a - of_bool (\<not> bit (rget p 16) C_bit))"
proof -
  have "rd \<noteq> 15" using assms(2) by auto
  with assms show ?thesis
    by (simp add: core_eqs alu_ins_def commit_def alu_def alu_cpsr_def Let_def rget_rset)
qed

theorem sbc_rsc_carry_always_set_witness:
  "\<exists>p'. sbc_ins (cpu_machine (replicate 8 0)) 0 1 5 1 = Inr p' \<and> bit (rget p' 16) C_bit \<and> rget p' 0 = - 5"
  using sbc_rsc_carry_always_set[where p = "cpu_machine (replicate 8 0)" and rd = 0 and a = 1 and b = 5]
    sys_core_cpu_machine[of "replicate 8 0"]
  by (simp add: rget_cpu_machine)

end
