(* ===== verification/Arm_Load_Store.thy ===== *)
theory Arm_Load_Store
  imports Arm_Data_Processing
begin

text \<open>
  The load and store instructions of \<^verbatim>\<open>arm_load_store.c\<close>: single transfers of words, bytes and
  half-words in their addressing modes, and the multiple transfers.

  A result variable that is 0 or -1 is \<open>True\<close> for success in the single transfers (a load keeps
  the value read as \<open>Some\<close>); in the loops of the multiple transfers \<open>result\<close> is \<open>True\<close> once an
  access has failed.
\<close>

type_synonym 'a core = "'a arm_core_data_scheme"

section \<open>Offsets\<close>

definition decode_off :: "host \<Rightarrow> 'a core \<Rightarrow> u32 \<Rightarrow> u32 outcome" where
  "decode_off h p ins =
     (if get_bit ins 25 = 0 then Inr (get_bits ins 11 0)
      else bnd (arm_read_register p (ucast (get_bits ins 3 0))) (\<lambda>rm.
        let shift_imm = ucast (get_bits ins 11 7) :: u8;
            shift = ucast (get_bits ins 6 5) :: u8
        in if get_bits ins 11 4 = 0 then Inr rm
           else if shift = LSL then Inr (c_shl h rm (unat shift_imm))
           else if shift = LSR then
             if shift_imm = 0 then Inr 0 else Inr (c_shr h rm (unat shift_imm))
           else if shift = ASR then
             if shift_imm = 0 then if get_bit rm 31 \<noteq> 0 then Inr (- 1) else Inr 0
             else Inr (asr h rm shift_imm)
           else if shift_imm = 0 then
             bnd (arm_read_cpsr p) (\<lambda>cpsr. Inr (c_shl h (get_bit cpsr C_bit) 31 OR c_shr h rm 1))
           else Inr (ror h rm shift_imm)))"

definition decode_off_h :: "host \<Rightarrow> 'a core \<Rightarrow> u32 \<Rightarrow> u32 outcome" where
  "decode_off_h h p ins =
     (if get_bit ins 22 = 0 then Inr (c_shl h (get_bits ins 11 8) 4 OR get_bits ins 3 0)
      else arm_read_register p (ucast (get_bits ins 3 0)))"

section \<open>Single transfers\<close>

definition str ::
    "host \<Rightarrow> 'a core \<Rightarrow> u8 \<Rightarrow> u8 \<Rightarrow> u32 \<Rightarrow> u32 \<Rightarrow> u32 \<Rightarrow> u32 \<Rightarrow> (int \<times> 'a core) outcome" where
  "str h p rd rn off p_bit u_bit w_bit =
     bnd (arm_read_register p rn) (\<lambda>rn_cont.
     bnd (arm_read_register p rd) (\<lambda>rd_cont.
     bnd (if u_bit \<noteq> 0 then
           let address = rn_cont + off
           in if p_bit \<noteq> 0 then
                bnd (arm_write_word h p address rd_cont) (\<lambda>(result, p).
                  if w_bit \<noteq> 0 then bnd (arm_write_register p rn address) (\<lambda>p. Inr (result, p))
                  else Inr (result, p))
              else
                bnd (arm_write_word h p rn_cont rd_cont) (\<lambda>(result, p).
                  bnd (arm_write_register p rn address) (\<lambda>p. Inr (result, p)))
         else
           let address = rn_cont - off
           in if p_bit \<noteq> 0 then
                bnd (arm_write_word h p address rd_cont) (\<lambda>(result, p).
                  if w_bit \<noteq> 0 then bnd (arm_write_register p rn address) (\<lambda>p. Inr (result, p))
                  else Inr (result, p))
              else
                bnd (arm_write_word h p rn_cont rd_cont) (\<lambda>(result, p).
                  bnd (arm_write_register p rn address) (\<lambda>p. Inr (result, p))))
      (\<lambda>(result, p). Inr (if result then 0 else DATA_ABORT, p))))"

definition strb ::
    "'a core \<Rightarrow> u8 \<Rightarrow> u8 \<Rightarrow> u32 \<Rightarrow> u32 \<Rightarrow> u32 \<Rightarrow> u32 \<Rightarrow> (int \<times> 'a core) outcome" where
  "strb p rd rn off p_bit u_bit w_bit =
     bnd (arm_read_register p rn) (\<lambda>rn_cont.
     bnd (arm_read_register p rd) (\<lambda>rd_word.
     let rd_cont = ucast rd_word :: u8 in
     bnd (if u_bit \<noteq> 0 then
           let address = rn_cont + off
           in if p_bit \<noteq> 0 then
                bnd (arm_write_byte p address rd_cont) (\<lambda>(result, p).
                  if w_bit \<noteq> 0 then bnd (arm_write_register p rn address) (\<lambda>p. Inr (result, p))
                  else Inr (result, p))
              else
                bnd (arm_write_byte p rn_cont rd_cont) (\<lambda>(result, p).
                  bnd (arm_write_register p rn address) (\<lambda>p. Inr (result, p)))
         else
           let address = rn_cont - off
           in if p_bit \<noteq> 0 then
                bnd (arm_write_byte p address rd_cont) (\<lambda>(result, p).
                  if w_bit \<noteq> 0 then bnd (arm_write_register p rn address) (\<lambda>p. Inr (result, p))
                  else Inr (result, p))
              else
                bnd (arm_write_byte p rn_cont rd_cont) (\<lambda>(result, p).
                  bnd (arm_write_register p rn address) (\<lambda>p. Inr (result, p))))
      (\<lambda>(result, p). Inr (if result then 0 else DATA_ABORT, p))))"

definition ldr ::
    "host \<Rightarrow> 'a core \<Rightarrow> u8 \<Rightarrow> u8 \<Rightarrow> u32 \<Rightarrow> u32 \<Rightarrow> u32 \<Rightarrow> u32 \<Rightarrow> (int \<times> 'a core) outcome" where
  "ldr h p rd rn off p_bit u_bit w_bit =
     bnd (arm_read_register p rn) (\<lambda>rn_cont.
     bnd (if u_bit \<noteq> 0 then
           let address = rn_cont + off
           in if p_bit \<noteq> 0 then
                bnd (arm_read_word h p address) (\<lambda>result.
                  if w_bit \<noteq> 0 then bnd (arm_write_register p rn address) (\<lambda>p. Inr (result, p))
                  else Inr (result, p))
              else
                bnd (arm_read_word h p rn_cont) (\<lambda>result.
                  bnd (arm_write_register p rn address) (\<lambda>p. Inr (result, p)))
         else
           let address = rn_cont - off
           in if p_bit \<noteq> 0 then
                bnd (arm_read_word h p address) (\<lambda>result.
                  if w_bit \<noteq> 0 then bnd (arm_write_register p rn address) (\<lambda>p. Inr (result, p))
                  else Inr (result, p))
              else
                bnd (arm_read_word h p rn_cont) (\<lambda>result.
                  bnd (arm_write_register p rn address) (\<lambda>p. Inr (result, p))))
      (\<lambda>(result, p).
        case result of
          None \<Rightarrow> Inr (DATA_ABORT, p)
        | Some rd_cont \<Rightarrow>
            if rd = 15 then bnd (arm_write_register p rd (rd_cont AND 0xFFFFFFFC)) (\<lambda>p. Inr (0, p))
            else bnd (arm_write_register p rd rd_cont) (\<lambda>p. Inr (0, p))))"

definition ldrb ::
    "'a core \<Rightarrow> u8 \<Rightarrow> u8 \<Rightarrow> u32 \<Rightarrow> u32 \<Rightarrow> u32 \<Rightarrow> u32 \<Rightarrow> (int \<times> 'a core) outcome" where
  "ldrb p rd rn off p_bit u_bit w_bit =
     bnd (arm_read_register p rn) (\<lambda>rn_cont.
     bnd (if u_bit \<noteq> 0 then
           let address = rn_cont + off
           in if p_bit \<noteq> 0 then
                bnd (arm_read_byte p address) (\<lambda>result.
                  if w_bit \<noteq> 0 then bnd (arm_write_register p rn address) (\<lambda>p. Inr (result, p))
                  else Inr (result, p))
              else
                bnd (arm_read_byte p rn_cont) (\<lambda>result.
                  bnd (arm_write_register p rn address) (\<lambda>p. Inr (result, p)))
         else
           let address = rn_cont - off
           in if p_bit \<noteq> 0 then
                bnd (arm_read_byte p address) (\<lambda>result.
                  if w_bit \<noteq> 0 then bnd (arm_write_register p rn address) (\<lambda>p. Inr (result, p))
                  else Inr (result, p))
              else
                bnd (arm_read_byte p rn_cont) (\<lambda>result.
                  bnd (arm_write_register p rn address) (\<lambda>p. Inr (result, p))))
      (\<lambda>(result, p).
        case result of
          None \<Rightarrow> Inr (DATA_ABORT, p)
        | Some rd_cont \<Rightarrow>
            bnd (arm_write_register p rd (ucast rd_cont)) (\<lambda>p. Inr (0, p))))"

definition strh ::
    "host \<Rightarrow> 'a core \<Rightarrow> u8 \<Rightarrow> u8 \<Rightarrow> u32 \<Rightarrow> u32 \<Rightarrow> u32 \<Rightarrow> u32 \<Rightarrow> (int \<times> 'a core) outcome" where
  "strh h p rd rn off p_bit u_bit w_bit =
     bnd (arm_read_register p rn) (\<lambda>rn_cont.
     bnd (arm_read_register p rd) (\<lambda>rd_word.
     let rd_cont = ucast rd_word :: u16 in
     bnd (if u_bit \<noteq> 0 then
           let address = rn_cont + off
           in if p_bit \<noteq> 0 then
                bnd (arm_write_half h p address rd_cont) (\<lambda>(result, p).
                  if w_bit \<noteq> 0 then bnd (arm_write_register p rn address) (\<lambda>p. Inr (result, p))
                  else Inr (result, p))
              else
                bnd (arm_write_half h p rn_cont rd_cont) (\<lambda>(result, p).
                  bnd (arm_write_register p rn address) (\<lambda>p. Inr (result, p)))
         else
           let address = rn_cont - off
           in if p_bit \<noteq> 0 then
                bnd (arm_write_half h p address rd_cont) (\<lambda>(result, p).
                  if w_bit \<noteq> 0 then bnd (arm_write_register p rn address) (\<lambda>p. Inr (result, p))
                  else Inr (result, p))
              else
                bnd (arm_write_half h p rn_cont rd_cont) (\<lambda>(result, p).
                  bnd (arm_write_register p rn address) (\<lambda>p. Inr (result, p))))
      (\<lambda>(result, p). Inr (if result then 0 else DATA_ABORT, p))))"

definition ldrh ::
    "host \<Rightarrow> 'a core \<Rightarrow> u8 \<Rightarrow> u8 \<Rightarrow> u32 \<Rightarrow> u32 \<Rightarrow> u32 \<Rightarrow> u32 \<Rightarrow> (int \<times> 'a core) outcome" where
  "ldrh h p rd rn off p_bit u_bit w_bit =
     bnd (arm_read_register p rn) (\<lambda>rn_cont.
     bnd (if u_bit \<noteq> 0 then
           let address = rn_cont + off
           in if p_bit \<noteq> 0 then
                bnd (arm_read_half h p address) (\<lambda>result.
                  if w_bit \<noteq> 0 then bnd (arm_write_register p rn address) (\<lambda>p. Inr (result, p))
                  else Inr (result, p))
              else
                bnd (arm_read_half h p rn_cont) (\<lambda>result.
                  bnd (arm_write_register p rn address) (\<lambda>p. Inr (result, p)))
         else
           let address = rn_cont - off
           in if p_bit \<noteq> 0 then
                bnd (arm_read_half h p address) (\<lambda>result.
                  if w_bit \<noteq> 0 then bnd (arm_write_register p rn address) (\<lambda>p. Inr (result, p))
                  else Inr (result, p))
              else
                bnd (arm_read_half h p rn_cont) (\<lambda>result.
                  bnd (arm_write_register p rn address) (\<lambda>p. Inr (result, p))))
      (\<lambda>(result, p).
        case result of
          None \<Rightarrow> Inr (DATA_ABORT, p)
        | Some rd_cont \<Rightarrow>
            bnd (arm_write_register p rd (ucast rd_cont)) (\<lambda>p. Inr (0, p))))"

definition arm_load_store :: "host \<Rightarrow> 'a core \<Rightarrow> u32 \<Rightarrow> (int \<times> 'a core) outcome" where
  "arm_load_store h p ins =
    (let rn = ucast (get_bits ins 19 16); rd = ucast (get_bits ins 15 12);
         p_bit = get_bit ins 24; u_bit = get_bit ins 23; w_bit = get_bit ins 21
     in if get_bit ins 26 \<noteq> 0 then
          bnd (decode_off h p ins) (\<lambda>off.
          let sel = c_shl h (get_bit ins 22) 1 OR get_bit ins 20
          in if sel = 0 then str h p rd rn off p_bit u_bit w_bit
             else if sel = 1 then ldr h p rd rn off p_bit u_bit w_bit
             else if sel = 2 then strb p rd rn off p_bit u_bit w_bit
             else ldrb p rd rn off p_bit u_bit w_bit)
        else
          bnd (decode_off_h h p ins) (\<lambda>off.
          if get_bit ins 20 \<noteq> 0 then ldrh h p rd rn off p_bit u_bit w_bit
          else strh h p rd rn off p_bit u_bit w_bit))"

section \<open>Multiple transfers\<close>

text \<open>The loop of \<^verbatim>\<open>ldm\<close>, which the source writes four times: for the user or the current registers
  (\<open>wr\<close>), with an address that grows or falls (\<open>step\<close>).  Its state is the address, the last value
  read, whether an access failed, and the processor.\<close>

definition ldm_read :: "host \<Rightarrow> 'a core \<Rightarrow> u32 \<Rightarrow> u32 \<Rightarrow> bool \<Rightarrow> (u32 \<times> bool) outcome" where
  "ldm_read h p address value result =
     bnd (arm_read_word h p address) (\<lambda>r.
       Inr (case r of None \<Rightarrow> (value, True) | Some v \<Rightarrow> (v, result)))"

definition ldm_transfer ::
    "host \<Rightarrow> ('a core \<Rightarrow> u8 \<Rightarrow> u32 \<Rightarrow> 'a core outcome) \<Rightarrow> u32 \<Rightarrow> u32
     \<Rightarrow> u32 \<times> u32 \<times> bool \<times> 'a core \<Rightarrow> (u32 \<times> u32 \<times> bool \<times> 'a core) outcome" where
  "ldm_transfer h wr step ins s =
     bnd (for_out [0..<15] (\<lambda>i (address, value, result, p).
            if get_bit ins i \<noteq> 0 then
              bnd (ldm_read h p address value result) (\<lambda>(value, result).
              bnd (wr p (of_nat i) value) (\<lambda>p. Inr (address + step, value, result, p)))
            else Inr (address, value, result, p)) s) (\<lambda>(address, value, result, p).
     if get_bit ins 15 \<noteq> 0 then
       bnd (ldm_read h p address value result) (\<lambda>(value, result).
       bnd (wr p 15 (value AND 0xFFFFFFFC)) (\<lambda>p. Inr (address + step, value, result, p)))
     else Inr (address, value, result, p))"

text \<open>The update of the base register that ends both functions.\<close>

definition write_back :: "'a core \<Rightarrow> u32 \<Rightarrow> u32 \<Rightarrow> 'a core outcome" where
  "write_back p ins address =
    (let rn = ucast (get_bits ins 19 16)
     in if get_bit ins 21 \<noteq> 0 then
          if get_bits ins 24 23 = 0 then arm_write_register p rn address
          else if get_bits ins 24 23 = 1 then arm_write_register p rn address
          else if get_bits ins 24 23 = 2 then arm_write_register p rn (address + 4)
          else arm_write_register p rn (address - 4)
        else Inr p)"

text \<open>The two halves of the body of \<^verbatim>\<open>ldm\<close> differ in the sign of the step.\<close>

definition ldm_half :: "host \<Rightarrow> u32 \<Rightarrow> 'a core \<Rightarrow> u32 \<Rightarrow> u32 \<Rightarrow> (u32 \<times> u32 \<times> bool \<times> 'a core) outcome" where
  "ldm_half h step p ins address =
    (let address = (if get_bit ins 24 \<noteq> 0 then address + step else address)
     in bnd (if get_bit ins 22 \<noteq> 0 \<and> get_bit ins 15 \<noteq> 0
             then bnd (arm_read_spsr p) (arm_write_cpsr p) else Inr p) (\<lambda>p.
        bnd (if get_bit ins 22 \<noteq> 0 \<and> get_bit ins 15 = 0
             then ldm_transfer h arm_write_usr_register step ins (address, 0, False, p)
             else Inr (address, 0, False, p)) (\<lambda>s.
        if get_bit ins 22 = 0 then ldm_transfer h arm_write_register step ins s else Inr s)))"

definition ldm :: "host \<Rightarrow> 'a core \<Rightarrow> u32 \<Rightarrow> (int \<times> 'a core) outcome" where
  "ldm h p ins =
     bnd (arm_read_register p (ucast (get_bits ins 19 16))) (\<lambda>address.
     bnd (if get_bit ins 23 \<noteq> 0 then ldm_half h 4 p ins address else ldm_half h (- 4) p ins address)
      (\<lambda>(address, value, result, p).
     bnd (write_back p ins address) (\<lambda>p. Inr (if result then DATA_ABORT else 0, p))))"

definition stm_transfer ::
    "host \<Rightarrow> ('a core \<Rightarrow> u8 \<Rightarrow> u32 outcome) \<Rightarrow> u32 \<Rightarrow> u32
     \<Rightarrow> u32 \<times> bool \<times> 'a core \<Rightarrow> (u32 \<times> bool \<times> 'a core) outcome" where
  "stm_transfer h rd step ins s =
     for_out [0..<16] (\<lambda>i (address, result, p).
       if get_bit ins i \<noteq> 0 then
         bnd (rd p (of_nat i)) (\<lambda>value.
         bnd (arm_write_word h p address value) (\<lambda>(ok, p). Inr (address + step, result \<or> \<not> ok, p)))
       else Inr (address, result, p)) s"

definition stm_half :: "host \<Rightarrow> u32 \<Rightarrow> 'a core \<Rightarrow> u32 \<Rightarrow> u32 \<Rightarrow> (u32 \<times> bool \<times> 'a core) outcome" where
  "stm_half h step p ins address =
    (let address = (if get_bit ins 24 \<noteq> 0 then address + step else address)
     in if get_bit ins 22 \<noteq> 0
        then stm_transfer h arm_read_usr_register step ins (address, False, p)
        else stm_transfer h arm_read_register step ins (address, False, p))"

definition stm :: "host \<Rightarrow> 'a core \<Rightarrow> u32 \<Rightarrow> (int \<times> 'a core) outcome" where
  "stm h p ins =
     bnd (arm_read_register p (ucast (get_bits ins 19 16))) (\<lambda>address.
     bnd (if get_bit ins 23 \<noteq> 0 then stm_half h 4 p ins address else stm_half h (- 4) p ins address)
      (\<lambda>(address, result, p).
     bnd (write_back p ins address) (\<lambda>p. Inr (if result then DATA_ABORT else 0, p))))"

definition arm_load_store_multiple :: "host \<Rightarrow> 'a core \<Rightarrow> u32 \<Rightarrow> (int \<times> 'a core) outcome" where
  "arm_load_store_multiple h p ins = (if get_bit ins 20 \<noteq> 0 then ldm h p ins else stm h p ins)"

definition arm_coprocessor_load_store :: "'a core \<Rightarrow> u32 \<Rightarrow> (int \<times> 'a core) outcome" where
  "arm_coprocessor_load_store p ins = Inr (UNDEFINED_INSTRUCTION, p)"

section \<open>What the single transfers do\<close>

text \<open>The offset of a word or byte transfer: an immediate, or a register shifted by an immediate.\<close>

definition ls_offset :: "'a core \<Rightarrow> u32 \<Rightarrow> u32" where
  "ls_offset p ins =
     (if bit ins 25 then fst (imm_shifter (ucast (get_bits ins 6 5)) (unat (get_bits ins 11 7))
                          (rview p (unat (get_bits ins 3 0))) (bit (rget p 16) C_bit))
      else get_bits ins 11 0)"

text \<open>The offset that the code uses for a half-word transfer.\<close>

definition lsh_offset :: "'a core \<Rightarrow> u32 \<Rightarrow> u32" where
  "lsh_offset p ins =
     (if bit ins 22 then rview p (unat (get_bits ins 3 0))
      else push_bit 4 (get_bits ins 11 8) OR get_bits ins 3 0)"

lemma unshifted_offset:
  assumes "get_bits ins 11 4 = 0"
  shows "get_bits ins 11 7 = 0" "get_bits ins 6 5 = 0"
proof -
  have *: "\<not> bit ins (4 + i)" if "i \<le> 7" for i
    using that assms bit_get_bits[of ins 11 4 i] by simp
  show "get_bits ins 11 7 = 0"
    using *[of "3 + i" for i] by (intro bit_word_eqI) (auto simp: add.assoc[symmetric])
  show "get_bits ins 6 5 = 0"
    using *[of "1 + i" for i] by (intro bit_word_eqI) (auto simp: add.assoc[symmetric])
qed

lemma decode_off_eq [core_eqs]:
  assumes "wf_core p"
  shows "decode_off h p ins = Inr (ls_offset p ins)"
proof (cases "get_bits ins 11 4 = 0")
  case True
  then show ?thesis using assms unshifted_offset[OF True]
    by (simp add: decode_off_def ls_offset_def imm_shifter_def shifter_def core_eqs)
next
  case False
  have n: "unat (get_bits ins 11 7) < 32" using get_bits_bound[of ins 11 7] by simp
  note defs = decode_off_def ls_offset_def imm_shifter_def shifter_def core_eqs Let_def
    get_bit_eq field_eq_iff unat_eq_0 ror_pos_eq asr_eq so_carry_sign unat_gt_0
  show ?thesis
    using shift_kind_cases[of ins] assms n False
    by (elim disjE; cases "get_bits ins 11 7 = 0"; simp add: defs)
qed

lemma decode_off_h_eq [core_eqs]: "wf_core p \<Longrightarrow> decode_off_h h p ins = Inr (lsh_offset p ins)"
  by (simp add: decode_off_h_def lsh_offset_def core_eqs)

text \<open>The effective address, the address of the access (the base alone in the post-indexed mode),
  and the update of the base.\<close>

definition eff_addr :: "u32 \<Rightarrow> u32 \<Rightarrow> u32 \<Rightarrow> u32" where
  "eff_addr u_bit base off = (if u_bit \<noteq> 0 then base + off else base - off)"

definition access_addr :: "u32 \<Rightarrow> u32 \<Rightarrow> u32 \<Rightarrow> u32 \<Rightarrow> u32" where
  "access_addr p_bit u_bit base off = (if p_bit \<noteq> 0 then eff_addr u_bit base off else base)"

definition base_update :: "'a core \<Rightarrow> u32 \<Rightarrow> u32 \<Rightarrow> nat \<Rightarrow> u32 \<Rightarrow> 'a core" where
  "base_update p p_bit w_bit rn ea = (if p_bit \<noteq> 0 \<and> w_bit = 0 then p else rset p rn ea)"

lemmas address_defs = eff_addr_def access_addr_def base_update_def

lemma base_update_wf [simp]:
  "wf_core p \<Longrightarrow> wf_core (base_update p b w rn ea)" "sys_core p \<Longrightarrow> sys_core (base_update p b w rn ea)"
  by (simp_all add: base_update_def)

text \<open>The end of a store and of a load.\<close>

definition stored :: "bool \<times> 'a core \<Rightarrow> ('a core \<Rightarrow> 'a core) \<Rightarrow> (int \<times> 'a core) outcome" where
  "stored r update = Inr (if fst r then 0 else DATA_ABORT, update (snd r))"

definition loaded :: "u32 option \<Rightarrow> nat \<Rightarrow> 'a core \<Rightarrow> (int \<times> 'a core) outcome" where
  "loaded r rd p = Inr (case r of None \<Rightarrow> (DATA_ABORT, p) | Some v \<Rightarrow> (0, rset p rd v))"

lemma store_eq [core_eqs]:
  fixes p :: "'a core"
  assumes "wf_core p" "unat rd < 16" "unat rn < 16"
  defines "a \<equiv> \<lambda>off P U. access_addr P U (rview p (unat rn)) off"
    and "up \<equiv> \<lambda>off P U W q :: 'a core. base_update q P W (unat rn) (eff_addr U (rview p (unat rn)) off)"
  shows "str h p rd rn off P U W = stored (put_mem p (put_word (mem p) (a off P U) (rview p (unat rd)))) (up off P U W)"
    and "strb p rd rn off P U W = stored (put_mem p (put_byte (mem p) (a off P U) (ucast (rview p (unat rd))))) (up off P U W)"
    and "strh h p rd rn off P U W = stored (put_mem p (put_half (mem p) (a off P U) (ucast (rview p (unat rd))))) (up off P U W)"
  using assms(1-3)
  by (simp_all add: str_def strb_def strh_def core_eqs stored_def address_defs a_def up_def case_prod_beta Let_def)

lemma load_eq [core_eqs]:
  assumes "wf_core p" "unat rd < 16" "unat rn < 16"
  defines "a \<equiv> \<lambda>off P U. access_addr P U (rview p (unat rn)) off"
    and "up \<equiv> \<lambda>off P U W. base_update p P W (unat rn) (eff_addr U (rview p (unat rn)) off)"
  shows "ldr h p rd rn off P U W = loaded (map_option (\<lambda>v. if rd = 15 then v AND 0xFFFFFFFC else v)
      (word_at (mem p) (a off P U))) (unat rd) (up off P U W)"
    and "ldrb p rd rn off P U W = loaded (map_option ucast (byte_at (mem p) (a off P U))) (unat rd) (up off P U W)"
    and "ldrh h p rd rn off P U W = loaded (map_option ucast (half_at (mem p) (a off P U))) (unat rd) (up off P U W)"
  using assms(1-3)
  by (auto simp: ldr_def ldrb_def ldrh_def core_eqs loaded_def address_defs a_def up_def Let_def split: option.splits)

text \<open>One transfer of the architecture: which value a load gives and what a store leaves, by the
  size that the instruction selects (bit 26 clear: half-word, bit 22: byte).\<close>

definition load_value :: "memory_data \<Rightarrow> u32 \<Rightarrow> u32 \<Rightarrow> u32 option" where
  "load_value m ins a =
     (if \<not> bit ins 26 then map_option ucast (half_at m a)
      else if bit ins 22 then map_option ucast (byte_at m a)
      else map_option (\<lambda>v. if get_bits ins 15 12 = 15 then v AND 0xFFFFFFFC else v) (word_at m a))"

definition store_value :: "memory_data \<Rightarrow> u32 \<Rightarrow> u32 \<Rightarrow> u32 \<Rightarrow> memory_data option" where
  "store_value m ins a v =
     (if \<not> bit ins 26 then put_half m a (ucast v)
      else if bit ins 22 then put_byte m a (ucast v)
      else put_word m a v)"

definition transfer_offset :: "'a core \<Rightarrow> u32 \<Rightarrow> u32" where
  "transfer_offset p ins = (if bit ins 26 then ls_offset p ins else lsh_offset p ins)"

lemma arm_load_store_eq [core_eqs]:
  assumes "wf_core p"
  shows "arm_load_store h p ins =
    (let rn = unat (get_bits ins 19 16); rd = unat (get_bits ins 15 12); base = rview p rn;
         off = transfer_offset p ins; P = get_bit ins 24; U = get_bit ins 23; W = get_bit ins 21;
         a = access_addr P U base off; up = (\<lambda>q. base_update q P W rn (eff_addr U base off))
     in if bit ins 20 then loaded (load_value (mem p) ins a) rd (up p)
        else stored (put_mem p (store_value (mem p) ins a (rview p rd))) up)"
  using assms
  by (cases "bit ins 26"; cases "bit ins 22"; cases "bit ins 20")
    (simp_all add: arm_load_store_def core_eqs load_value_def store_value_def transfer_offset_def Let_def
      get_bit_eq[of ins 20] get_bit_eq[of ins 22] field_eq_iff)

lemma store_value_core:
  assumes "store_value (mem p) ins a v = Some m" "sys_core p"
  shows "sys_core (p\<lparr>mem := m\<rparr>)"
  using assms by (auto simp: store_value_def intro: core_put split: if_splits)

section \<open>Properties of the single transfers\<close>

text \<open>C2: every single load or store.  It accesses the base plus or minus the offset, or the base in
  the post-indexed mode; the base register becomes the sum when the mode says so, also when the
  access fails (base updated abort model).  A load puts the zero-extended value in \<open>Rd\<close>, last, with
  the two low bits cleared for the PC; a store changes the memory as its size says.  An access out
  of range gives \<^verbatim>\<open>DATA_ABORT\<close> and neither loads nor stores.  Nothing else changes.\<close>

theorem load_store_correct:
  fixes p :: "'a core" and ins :: u32
  assumes "sys_core p"
  defines "rn \<equiv> unat (get_bits ins 19 16)" and "rd \<equiv> unat (get_bits ins 15 12)"
    and "ea \<equiv> (if bit ins 23 then rview p (unat (get_bits ins 19 16)) + transfer_offset p ins
               else rview p (unat (get_bits ins 19 16)) - transfer_offset p ins)"
  defines "a \<equiv> (if bit ins 24 then ea else rview p rn)" and "wb \<equiv> \<not> bit ins 24 \<or> bit ins 21"
  defines "v \<equiv> if bit ins 20 then load_value (mem p) ins a else None"
    and "m \<equiv> if bit ins 20 then None else store_value (mem p) ins a (rview p rd)"
  shows "\<exists>p'. arm_load_store h p ins = Inr (if v = None \<and> m = None then DATA_ABORT else 0, p')
    \<and> (\<forall>r < 16. rget p' r = (case v of Some x \<Rightarrow> if r = rd then x else if wb \<and> r = rn then ea else rget p r
                              | None \<Rightarrow> if wb \<and> r = rn then ea else rget p r))
    \<and> mem p' = (case m of None \<Rightarrow> mem p | Some m' \<Rightarrow> m')
    \<and> rget p' 16 = rget p 16 \<and> cycle_count p' = cycle_count p \<and> sys_core p'"
proof -
  have less: "rn < 16" "rd < 16" by (simp_all add: rn_def rd_def)
  have ea: "eff_addr (get_bit ins 23) (rview p rn) (transfer_offset p ins) = ea"
    by (simp add: eff_addr_def ea_def rn_def)
  then have a: "access_addr (get_bit ins 24) (get_bit ins 23) (rview p rn) (transfer_offset p ins) = a"
    by (simp add: access_addr_def a_def)
  show ?thesis
  proof (cases "bit ins 20")
    case True
    with assms(1) less show ?thesis
      by (auto simp: core_eqs Let_def loaded_def base_update_def rget_rset wb_def v_def m_def ea a
          simp flip: rn_def rd_def split: option.splits)
  next
    case False
    with assms(1) less store_value_core[of p ins a "rview p rd"] show ?thesis
      by (cases "store_value (mem p) ins a (rview p rd)")
        (auto simp: core_eqs Let_def stored_def base_update_def rget_rset wb_def v_def m_def ea a
          simp flip: rn_def rd_def)
  qed
qed

theorem load_store_correct_witness:
  "\<exists>p'. arm_load_store x86_host (cpu_machine [0, 0, 0, 0, 0x78, 0x56, 0x34, 0x12]) 0xE5B01004 = Inr (0, p')
    \<and> rget p' 1 = 0x12345678 \<and> rget p' 0 = 4 \<and> rget p' 2 = 0"
proof -
  let ?p = "cpu_machine [0, 0, 0, 0, 0x78, 0x56, 0x34, 0x12]"
  have "unat (get_bits 0xE5B01004 19 16) = 0" "unat (get_bits 0xE5B01004 15 12) = 1"
    "rview ?p 0 = 0" "transfer_offset ?p 0xE5B01004 = 4"
    "load_value (mem ?p) 0xE5B01004 4 = Some 0x12345678"
    by code_simp+
  then show ?thesis
    using load_store_correct[where p = ?p and h = x86_host and ins = "0xE5B01004"]
      sys_core_cpu_machine[of "[0, 0, 0, 0, 0x78, 0x56, 0x34, 0x12]"]
    by (auto simp: rget_cpu_machine)
qed

text \<open>What a store puts in memory a load from the same address gives back: the whole register for
  words, its low 8 or 16 bits for bytes and half-words.\<close>

theorem store_load_roundtrip:
  assumes "sys_core p" and "unat rd < 16" "unat rn < 16" "unat rd' < 15"
  defines "same \<equiv> \<lambda>load x. \<exists>p2. load = Inr (0 :: int, p2) \<and> rget p2 (unat rd') = x"
  shows "(str h p rd rn off 1 U 0 = Inr (0, p1) \<longrightarrow>
           same (ldr h' p1 rd' rn off 1 U 0) (rview p (unat rd)))
    \<and> (strb p rd rn off 1 U 0 = Inr (0, p1) \<longrightarrow>
           same (ldrb p1 rd' rn off 1 U 0) (take_bit 8 (rview p (unat rd))))
    \<and> (strh h p rd rn off 1 U 0 = Inr (0, p1) \<longrightarrow>
           same (ldrh h' p1 rd' rn off 1 U 0) (take_bit 16 (rview p (unat rd))))"
proof -
  let ?a = "access_addr 1 U (rview p (unat rn)) off"
  have wf: "wf_core p" "wf_memory (mem p)" and rd': "rd' \<noteq> 15"
    using assms(1,4) by (auto simp: sys_core_def wf_core_def)
  have cast: "ucast (ucast x :: u8) = take_bit 8 x" "ucast (ucast x :: u16) = take_bit 16 x" for x :: u32
    by (auto intro!: bit_word_eqI simp: bit_simps)
  have stores: "stored (put_mem p (put_word (mem p) a x)) (\<lambda>q. q) = Inr (0, p1)
      \<longleftrightarrow> (\<exists>m. put_word (mem p) a x = Some m \<and> p1 = p\<lparr>mem := m\<rparr> \<and> wf_core (p\<lparr>mem := m\<rparr>))"
    "stored (put_mem p (put_byte (mem p) a y)) (\<lambda>q. q) = Inr (0, p1)
      \<longleftrightarrow> (\<exists>m. put_byte (mem p) a y = Some m \<and> p1 = p\<lparr>mem := m\<rparr> \<and> wf_core (p\<lparr>mem := m\<rparr>))"
    "stored (put_mem p (put_half (mem p) a z)) (\<lambda>q. q) = Inr (0, p1)
      \<longleftrightarrow> (\<exists>m. put_half (mem p) a z = Some m \<and> p1 = p\<lparr>mem := m\<rparr> \<and> wf_core (p\<lparr>mem := m\<rparr>))" for a x y z
    by (auto simp: stored_def put_mem_def split: option.splits intro: core_put(1)[OF _ wf(1)])
  note loads = loaded_def base_update_def rget_rset cast at_after_put[OF wf(2)] rd' same_def
  show ?thesis
    using assms(2-4) wf(1)
    by (auto simp: core_eqs stores loads)
qed

theorem store_load_roundtrip_witness:
  "\<exists>p1 p2. strb (cpu_machine (replicate 8 0)) 15 0 3 1 1 0 = Inr (0, p1)
     \<and> ldrb p1 2 0 3 1 1 0 = Inr (0, p2) \<and> rget p2 2 = 4"
proof -
  let ?p = "cpu_machine (replicate 8 0)"
  have sys: "sys_core ?p" by (simp add: sys_core_cpu_machine)
  have "put_byte (mem ?p) 3 4 = Some (memory_create 8 0 [0, 0, 0, 4, 0, 0, 0, 0])" by code_simp
  then have "strb ?p 15 0 3 1 1 0 = Inr (0, ?p\<lparr>mem := memory_create 8 0 [0, 0, 0, 4, 0, 0, 0, 0]\<rparr>)"
    using sys by (simp add: core_eqs stored_def address_defs rview_def rget_cpu_machine)
  then show ?thesis
    using store_load_roundtrip[where p = ?p and rd = 15 and rn = 0 and rd' = 2 and off = 3 and U = 1] sys
    by (auto simp: rview_def rget_cpu_machine)
qed

end
