(* ===== verification/Multiple_Transfer.thy ===== *)
theory Multiple_Transfer
  imports Arm_Load_Store
begin

text \<open>
  What the multiple transfers \<^verbatim>\<open>ldm\<close> and \<^verbatim>\<open>stm\<close> of \<^verbatim>\<open>arm_load_store.c\<close> do: both run over the listed
  registers in ascending order with an address that moves by 4, up or down.  The loops are
  reduced to functions on the memory (\<open>put_words\<close>, \<open>get_words\<close>) and on the registers
  (\<open>write_regs\<close>), and the properties are proved of those.
\<close>

section \<open>Words in a row\<close>

text \<open>Storing a list of values at addresses that move by \<open>s\<close>, and whether a store failed; reading
  \<open>n\<close> words likewise, a failed read repeating the value before.\<close>

fun put_words :: "memory_data \<Rightarrow> u32 \<Rightarrow> u32 \<Rightarrow> u32 list \<Rightarrow> bool \<times> memory_data" where
  "put_words m a s [] = (False, m)"
| "put_words m a s (v # vs) =
     (case put_word m a v of
        None \<Rightarrow> (True, snd (put_words m (a + s) s vs))
      | Some m' \<Rightarrow> put_words m' (a + s) s vs)"

fun get_words :: "memory_data \<Rightarrow> u32 \<Rightarrow> u32 \<Rightarrow> u32 \<Rightarrow> nat \<Rightarrow> u32 list \<times> bool" where
  "get_words m a s v 0 = ([], False)"
| "get_words m a s v (Suc n) =
     (case word_at m a of
        None \<Rightarrow> (v # fst (get_words m (a + s) s v n), True)
      | Some x \<Rightarrow> (x # fst (get_words m (a + s) s x n), snd (get_words m (a + s) s x n)))"

abbreviation row :: "u32 \<Rightarrow> u32 \<Rightarrow> nat \<Rightarrow> u32" where
  "row a s k \<equiv> a + of_nat k * s"

lemma row_Suc: "row a s (Suc k) = row (a + s) s k"
  by (simp add: algebra_simps)

lemma put_words_wf: "wf_memory m \<Longrightarrow> wf_memory (snd (put_words m a s vs))
    \<and> mem_size (snd (put_words m a s vs)) = mem_size m"
proof (induction vs arbitrary: m a)
  case (Cons v vs)
  then show ?case
  proof (cases "put_word m a v")
    case (Some m')
    then show ?thesis using Cons.IH[of m' "a + s"] put_keeps[of m a 0 m' 0 v] Cons.prems by simp
  qed simp
qed simp

lemma put_words_fails:
  "wf_memory m \<Longrightarrow> fst (put_words m a s vs) \<longleftrightarrow> (\<exists>k < length vs. unat (mem_size m) < unat (row a s k) + 4)"
proof (induction vs arbitrary: m a)
  case (Cons v vs)
  show ?case
  proof (cases "put_word m a v")
    case None
    then have "unat (mem_size m) < unat (row a s 0) + 4" by (simp add: put_word_def split: if_splits)
    with None show ?thesis by (auto simp del: of_nat_Suc)
  next
    case (Some m')
    then have "\<not> unat (mem_size m) < unat a + 4" by (simp add: put_word_def split: if_splits)
    with Some show ?thesis
      using Cons.IH[of m' "a + s"] put_keeps[of m a 0 m' 0 v] Cons.prems
      by (auto simp: less_Suc_eq_0_disj row_Suc simp del: of_nat_Suc)
  qed
qed simp

lemma row_disjoint:
  assumes "s = 4 \<or> s = - 4" "0 < k" "k \<le> 16"
  shows "unat b + 4 \<le> unat (row b s k) \<or> unat (row b s k) + 4 \<le> unat b"
proof -
  have up: "unat x + 4 \<le> unat (row x 4 k) \<or> unat (row x 4 k) + 4 \<le> unat x" for x
  proof -
    have "unat (of_nat k * 4 :: u32) = k * 4"
      using assms(3) by (simp add: unat_word_ariths unsigned_of_nat take_bit_eq_mod)
    then show ?thesis
      using assms(2,3) unsigned_less[of x, where 'a = nat] by (simp add: unat_plus_if') linarith
  qed
  show ?thesis using assms(1) up[of b] up[of "row b (- 4) k"] by auto
qed

lemma word_at_put_words:
  assumes "wf_memory m" "\<And>k. k < length vs \<Longrightarrow> unat b + 4 \<le> unat (row a s k) \<or> unat (row a s k) + 4 \<le> unat b"
  shows "word_at (snd (put_words m a s vs)) b = word_at m b"
  using assms
proof (induction vs arbitrary: m a)
  case (Cons v vs)
  have tail: "unat b + 4 \<le> unat (row (a + s) s k) \<or> unat (row (a + s) s k) + 4 \<le> unat b"
    if "k < length vs" for k
    using Cons.prems(2)[of "Suc k"] that by (simp only: row_Suc) simp
  show ?case
  proof (cases "put_word m a v")
    case None
    then show ?thesis using Cons.IH[OF Cons.prems(1) tail] by simp
  next
    case (Some m')
    then have "word_at m' b = word_at m b"
      using Cons.prems(1) Cons.prems(2)[of 0] by (intro word_at_disjoint_put) auto
    then show ?thesis
      using Some Cons.IH[OF _ tail, of m'] put_keeps(1)[of m a 0 m' 0 v] Cons.prems(1) by simp
  qed
qed simp

lemma put_words_read:
  assumes "wf_memory m" "\<not> fst (put_words m a s vs)" "s = 4 \<or> s = - 4" "length vs \<le> 16" "k < length vs"
  shows "word_at (snd (put_words m a s vs)) (row a s k) = Some (vs ! k)"
  using assms
proof (induction vs arbitrary: m a k)
  case (Cons v vs)
  then obtain m' where m': "put_word m a v = Some m'" by (auto split: option.splits)
  have wf: "wf_memory m'" using put_keeps(1)[of m a 0 m' 0 v] m' Cons.prems(1) by simp
  show ?case
  proof (cases k)
    case 0
    have "word_at (snd (put_words m' (a + s) s vs)) a = word_at m' a"
      using row_disjoint[OF Cons.prems(3), of "Suc j" a for j] Cons.prems(4)
      by (intro word_at_put_words[OF wf]) (simp only: row_Suc[symmetric], simp)
    then show ?thesis using m' 0 at_after_put(3)[OF Cons.prems(1) m'] by simp
  next
    case (Suc j)
    then show ?thesis
      using m' Cons.IH[OF wf, of "a + s" j] Cons.prems(2-) by (simp only: row_Suc) simp
  qed
qed simp

lemma length_get_words [simp]: "length (fst (get_words m a s v n)) = n"
  by (induction n arbitrary: a v) (simp_all split: option.splits)

lemma get_words_fails: "snd (get_words m a s v n) \<longleftrightarrow> (\<exists>k < n. word_at m (row a s k) = None)"
proof (induction n arbitrary: a v)
  case (Suc n)
  then show ?case by (auto simp: less_Suc_eq_0_disj row_Suc simp del: of_nat_Suc split: option.splits)
qed simp

lemma get_words_nth:
  "\<not> snd (get_words m a s v n) \<Longrightarrow> k < n \<Longrightarrow> word_at m (row a s k) = Some (fst (get_words m a s v n) ! k)"
proof (induction n arbitrary: a v k)
  case (Suc n)
  then show ?case
    by (cases k) (auto simp: row_Suc simp del: of_nat_Suc split: option.splits)
qed simp

section \<open>Registers in a row\<close>

text \<open>The registers of the current mode obey the contract of a register file, so that a sequence of
  writes is read back by the locale's lemma.\<close>

interpretation core_view: register_file "\<lambda>p r. Inr (rget p r)" "\<lambda>p r v. Inr (rset p r v)" wf_core "\<lambda>r. r < 17"
  by unfold_locales (auto simp: rget_rset)

definition write_regs :: "'a core \<Rightarrow> (nat \<times> u32) list \<Rightarrow> 'a core" where
  "write_regs p rvs = fold (\<lambda>(r, v) p. rset p r v) rvs p"

lemma write_regs_Cons [simp]: "write_regs p ((r, v) # rvs) = write_regs (rset p r v) rvs"
  by (simp add: write_regs_def)

lemma write_regs_Nil [simp]: "write_regs p [] = p"
  by (simp add: write_regs_def)

lemma wr_all_write_regs: "core_view.wr_all rvs p = Inr (write_regs p rvs)"
  by (induction rvs arbitrary: p) auto

lemma write_regs_frame [simp]:
  "mem (write_regs p rvs) = mem p" "cycle_count (write_regs p rvs) = cycle_count p"
  "wf_core p \<Longrightarrow> wf_core (write_regs p rvs)" "sys_core p \<Longrightarrow> sys_core (write_regs p rvs)"
  by (induction rvs arbitrary: p) auto

lemma rget_write_regs:
  assumes "wf_core p" "fst ` set rvs \<subseteq> {..<17}" "r < 17"
  shows "rget (write_regs p rvs) r = (case map_of (rev rvs) r of None \<Rightarrow> rget p r | Some v \<Rightarrow> v)"
  using core_view.rd_wr_all[OF assms(1) _ assms(3) wr_all_write_regs] assms(2)
  by (force split: option.splits)

text \<open>Distinct registers hold the values written to them.\<close>

lemma write_regs_zip:
  assumes "wf_core p" "distinct rs" "set rs \<subseteq> {..<17}" "length vs = length rs"
  shows "k < length rs \<Longrightarrow> rget (write_regs p (zip rs vs)) (rs ! k) = vs ! k"
    and "r < 17 \<Longrightarrow> r \<notin> set rs \<Longrightarrow> rget (write_regs p (zip rs vs)) r = rget p r"
proof -
  have sub: "fst ` set (zip rs vs) \<subseteq> {..<17}" using assms(3) by (auto dest: set_zip_leftD)
  have d: "map_of (rev (zip rs vs)) = map_of (zip rs vs)"
    using assms(2,4) by (subst map_of_inject_set) (simp_all add: rev_map[symmetric])
  show "rget (write_regs p (zip rs vs)) (rs ! k) = vs ! k" if "k < length rs"
    using that assms nth_mem[OF that]
    by (subst rget_write_regs[OF assms(1) sub]) (auto simp: d map_of_zip_nth simp del: nth_mem)
  show "rget (write_regs p (zip rs vs)) r = rget p r" if "r < 17" "r \<notin> set rs"
  proof -
    have "map_of (zip rs vs) r = None" using that(2) assms(4) by (simp only: map_of_zip_is_None) simp
    then show ?thesis using rget_write_regs[OF assms(1) sub that(1)] by (simp add: d)
  qed
qed

section \<open>The loops\<close>

text \<open>The listed registers, in the order of the transfer.\<close>

definition reg_list :: "u32 \<Rightarrow> nat list" where
  "reg_list ins = filter (bit ins) [0..<16]"

lemma reg_list_props [simp]:
  "distinct (reg_list ins)" "set (reg_list ins) = {r. r < 16 \<and> bit ins r}" "length (reg_list ins) \<le> 16"
  using length_filter_le[of "bit ins" "[0..<16]"] by (auto simp: reg_list_def)

lemma unat_reg: "i < 16 \<Longrightarrow> unat (of_nat i :: u8) = i"
  by (simp add: unsigned_of_nat take_bit_nat_eq_self)

lemma stm_loop:
  assumes "sys_core p" "set rs \<subseteq> {..<16}"
    and "\<And>q i. sys_core q \<Longrightarrow> i < 16 \<Longrightarrow> rd q (of_nat i) = Inr (rview q i)"
  shows "for_out rs (\<lambda>i (address, result, p). bnd (rd p (of_nat i)) (\<lambda>value.
      bnd (arm_write_word h p address value) (\<lambda>(ok, p). Inr (address + step, result \<or> \<not> ok, p)))) (a, f, p)
    = Inr (row a step (length rs), f \<or> fst (put_words (mem p) a step (map (rview p) rs)),
        p\<lparr>mem := snd (put_words (mem p) a step (map (rview p) rs))\<rparr>)"
  using assms(1,2)
proof (induction rs arbitrary: a f p)
  case (Cons i rs)
  show ?case
  proof (cases "put_word (mem p) a (rview p i)")
    case None
    then show ?thesis using Cons by (simp add: assms(3) core_eqs algebra_simps)
  next
    case (Some m)
    then have "sys_core (p\<lparr>mem := m\<rparr>)" using Cons.prems(1) core_put(2) by blast
    moreover have "rview (p\<lparr>mem := m\<rparr>) = rview p" by (simp add: fun_eq_iff)
    ultimately show ?thesis using Some Cons by (simp add: assms(3) core_eqs algebra_simps)
  qed
qed simp

lemma stm_transfer_eq:
  assumes "sys_core p" and "\<And>q i. sys_core q \<Longrightarrow> i < 16 \<Longrightarrow> rd q (of_nat i) = Inr (rview q i)"
  shows "stm_transfer h rd step ins (a, f, p) =
    (let r = put_words (mem p) a step (map (rview p) (reg_list ins))
     in Inr (row a step (length (reg_list ins)), f \<or> fst r, p\<lparr>mem := snd r\<rparr>))"
proof -
  have "stm_transfer h rd step ins (a, f, p) = for_out [0..<16] (\<lambda>i s. if bit ins i then
      (\<lambda>(address, result, p). bnd (rd p (of_nat i)) (\<lambda>value.
      bnd (arm_write_word h p address value) (\<lambda>(ok, p). Inr (address + step, result \<or> \<not> ok, p)))) s
      else Inr s) (a, f, p)"
    unfolding stm_transfer_def by (rule arg_cong[where f = "\<lambda>b. for_out _ b _"]) (auto simp: fun_eq_iff)
  then show ?thesis
    using stm_loop[OF assms(1) _ assms(2), of "reg_list ins"]
    by (simp add: for_out_filter reg_list_def[symmetric] Let_def subset_eq)
qed

text \<open>A loaded register list: the PC gets its value with the two low bits cleared.\<close>

definition pc_mask :: "nat \<Rightarrow> u32 \<Rightarrow> u32" where
  "pc_mask r v = (if r = 15 then v AND 0xFFFFFFFC else v)"

definition ldm_body ::
    "host \<Rightarrow> ('a core \<Rightarrow> u8 \<Rightarrow> u32 \<Rightarrow> 'a core outcome) \<Rightarrow> u32 \<Rightarrow> nat
     \<Rightarrow> u32 \<times> u32 \<times> bool \<times> 'a core \<Rightarrow> (u32 \<times> u32 \<times> bool \<times> 'a core) outcome" where
  "ldm_body h wr step i = (\<lambda>(address, value, result, p).
     bnd (ldm_read h p address value result) (\<lambda>(value, result).
     bnd (wr p (of_nat i) (pc_mask i value)) (\<lambda>p. Inr (address + step, value, result, p))))"

lemma ldm_transfer_loop: "ldm_transfer h wr step ins s = for_out (reg_list ins) (ldm_body h wr step) s"
proof -
  have body: "for_out [0..<15] (\<lambda>i (address, value, result, p).
            if get_bit ins i \<noteq> 0 then
              bnd (ldm_read h p address value result) (\<lambda>(value, result).
              bnd (wr p (of_nat i) value) (\<lambda>p. Inr (address + step, value, result, p)))
            else Inr (address, value, result, p)) s
      = for_out (filter (bit ins) [0..<15]) (ldm_body h wr step) s"
    unfolding for_out_filter[symmetric]
    by (rule for_out_cong) (auto simp: ldm_body_def pc_mask_def)
  have list: "reg_list ins = filter (bit ins) [0..<15] @ (if bit ins 15 then [15] else [])"
    unfolding reg_list_def by (simp add: upt_rec[of _ 16] numeral_eq_Suc)
  show ?thesis
    unfolding ldm_transfer_def body list for_out_append
    by (rule arg_cong[where f = "bnd _"]) (auto simp: fun_eq_iff ldm_body_def pc_mask_def for_out_Nil)
qed

definition loaded_regs :: "nat list \<Rightarrow> u32 list \<Rightarrow> (nat \<times> u32) list" where
  "loaded_regs rs vs = zip rs (map2 pc_mask rs vs)"

lemma ldm_loop:
  assumes "sys_core p" "set rs \<subseteq> {..<16}"
    and "\<And>q i v. sys_core q \<Longrightarrow> i < 16 \<Longrightarrow> wr q (of_nat i) v = Inr (rset q i v)"
  shows "\<exists>last. for_out rs (ldm_body h wr step) (a, v, f, p)
    = Inr (row a step (length rs), last, f \<or> snd (get_words (mem p) a step v (length rs)),
        write_regs p (loaded_regs rs (fst (get_words (mem p) a step v (length rs)))))"
  using assms(1,2)
proof (induction rs arbitrary: a v f p)
  case Nil
  then show ?case by (simp add: loaded_regs_def)
next
  case (Cons i rs)
  define v' where "v' = (case word_at (mem p) a of None \<Rightarrow> v | Some x \<Rightarrow> x)"
  have "for_out (i # rs) (ldm_body h wr step) (a, v, f, p) = for_out rs (ldm_body h wr step)
      (a + step, v', f \<or> word_at (mem p) a = None, rset p i (pc_mask i v'))"
    using Cons.prems by (cases "word_at (mem p) a")
      (simp_all add: ldm_body_def ldm_read_def core_eqs assms(3) v'_def)
  then show ?case
    using Cons.IH[of "rset p i (pc_mask i v')" "a + step" v' "f \<or> word_at (mem p) a = None"] Cons.prems
    by (cases "word_at (mem p) a") (auto simp: loaded_regs_def v'_def algebra_simps)
qed

lemma ldm_transfer_eq:
  assumes "sys_core p" and "\<And>q i v. sys_core q \<Longrightarrow> i < 16 \<Longrightarrow> wr q (of_nat i) v = Inr (rset q i v)"
  shows "\<exists>last. ldm_transfer h wr step ins (a, 0, False, p) =
    (let rs = reg_list ins; g = get_words (mem p) a step 0 (length rs)
     in Inr (row a step (length rs), last, snd g, write_regs p (loaded_regs rs (fst g))))"
  using ldm_loop[OF assms(1) _ assms(2), of "reg_list ins" h step a 0 False]
  by (simp add: ldm_transfer_loop Let_def subset_eq)

section \<open>The instructions\<close>

text \<open>The step, the first address and the last value of the base.\<close>

definition mt_step :: "u32 \<Rightarrow> u32" where
  "mt_step ins = (if bit ins 23 then 4 else - 4)"

definition mt_first :: "'a core \<Rightarrow> u32 \<Rightarrow> u32" where
  "mt_first p ins = rview p (unat (get_bits ins 19 16)) + (if bit ins 24 then mt_step ins else 0)"

definition mt_base :: "'a core \<Rightarrow> u32 \<Rightarrow> u32" where
  "mt_base p ins = row (rview p (unat (get_bits ins 19 16))) (mt_step ins) (length (reg_list ins))"

definition mt_back :: "u32 \<Rightarrow> u32 \<Rightarrow> 'a core \<Rightarrow> 'a core" where
  "mt_back ins base p = (if bit ins 21 then rset p (unat (get_bits ins 19 16)) base else p)"

lemma mt_step_cases: "mt_step ins = 4 \<or> mt_step ins = - 4"
  by (simp add: mt_step_def)

lemma mt_first_if:
  "(if get_bit ins 24 \<noteq> 0 then rview p (unat (get_bits ins 19 16)) + mt_step ins
    else rview p (unat (get_bits ins 19 16))) = mt_first p ins"
  by (simp add: mt_first_def)

lemma write_back_eq:
  assumes "wf_core p"
  shows "write_back p ins (row (mt_first q ins) (mt_step ins) (length (reg_list ins)))
    = Inr (mt_back ins (mt_base q ins) p)"
proof -
  have "get_bits ins 24 23 = of_bool (bit ins 23) + 2 * of_bool (bit ins 24)"
    using get_bits_two[of ins 23] by simp
  then show ?thesis using assms
    by (cases "bit ins 23"; cases "bit ins 24")
      (simp_all add: write_back_def core_eqs mt_back_def mt_first_def mt_base_def mt_step_def)
qed

lemma readers [simp]:
  "sys_core q \<Longrightarrow> i < 16 \<Longrightarrow> arm_read_register q (of_nat i) = Inr (rview q i)"
  "sys_core q \<Longrightarrow> i < 16 \<Longrightarrow> arm_read_usr_register q (of_nat i) = Inr (rview q i)"
  by (simp_all add: core_eqs unat_reg sys_user_view rview_def)

lemma writers [simp]:
  "sys_core q \<Longrightarrow> i < 16 \<Longrightarrow> arm_write_register q (of_nat i) v = Inr (rset q i v)"
  "sys_core q \<Longrightarrow> i < 16 \<Longrightarrow> arm_write_usr_register q (of_nat i) v = Inr (rset q i v)"
  by (simp_all add: core_eqs unat_reg sys_user_view)

lemma stm_half_eq:
  assumes "sys_core p"
  shows "stm_half h (mt_step ins) p ins (rview p (unat (get_bits ins 19 16))) =
    (let r = put_words (mem p) (mt_first p ins) (mt_step ins) (map (rview p) (reg_list ins))
     in Inr (row (mt_first p ins) (mt_step ins) (length (reg_list ins)), fst r, p\<lparr>mem := snd r\<rparr>))"
proof -
  note eqs = stm_transfer_eq[OF assms readers(1)] stm_transfer_eq[OF assms readers(2)]
  show ?thesis
    unfolding stm_half_def Let_def mt_first_if using eqs by (simp add: Let_def)
qed

lemma stm_eq:
  assumes "sys_core p"
  shows "stm h p ins =
    (let r = put_words (mem p) (mt_first p ins) (mt_step ins) (map (rview p) (reg_list ins))
     in Inr (if fst r then DATA_ABORT else 0, mt_back ins (mt_base p ins) (p\<lparr>mem := snd r\<rparr>)))"
proof -
  have "wf_core (p\<lparr>mem := snd (put_words (mem p) a s vs)\<rparr>)" for a s vs
    using assms put_words_wf[of "mem p" a s vs] by (simp add: sys_core_def wf_core_def)
  moreover have "stm h p ins = bnd (stm_half h (mt_step ins) p ins (rview p (unat (get_bits ins 19 16))))
      (\<lambda>(address, result, p). bnd (write_back p ins address) (\<lambda>p. Inr (if result then DATA_ABORT else 0, p)))"
    using assms by (simp add: stm_def core_eqs mt_step_def)
  ultimately show ?thesis
    using assms by (simp add: stm_half_eq write_back_eq Let_def)
qed

lemma ldm_half_eq:
  assumes "sys_core p" "\<not> (bit ins 22 \<and> bit ins 15)"
  shows "\<exists>last. ldm_half h (mt_step ins) p ins (rview p (unat (get_bits ins 19 16))) =
    (let rs = reg_list ins; g = get_words (mem p) (mt_first p ins) (mt_step ins) 0 (length rs)
     in Inr (row (mt_first p ins) (mt_step ins) (length rs), last, snd g, write_regs p (loaded_regs rs (fst g))))"
proof -
  note eqs = ldm_transfer_eq[OF assms(1) writers(1), of h "mt_step ins" ins "mt_first p ins"]
    ldm_transfer_eq[OF assms(1) writers(2), of h "mt_step ins" ins "mt_first p ins"]
  show ?thesis
    unfolding ldm_half_def Let_def mt_first_if using assms(2) eqs
    by (cases "bit ins 22"; cases "bit ins 15") (simp_all add: Let_def)
qed

lemma ldm_eq:
  assumes "sys_core p"
  shows "ldm h p ins =
    (if bit ins 22 \<and> bit ins 15 then Inl Null_Deref
     else let rs = reg_list ins; g = get_words (mem p) (mt_first p ins) (mt_step ins) 0 (length rs)
       in Inr (if snd g then DATA_ABORT else 0,
           mt_back ins (mt_base p ins) (write_regs p (loaded_regs rs (fst g)))))"
proof -
  have half: "ldm h p ins = bnd (ldm_half h (mt_step ins) p ins (rview p (unat (get_bits ins 19 16))))
      (\<lambda>(address, value, result, p). bnd (write_back p ins address) (\<lambda>p. Inr (if result then DATA_ABORT else 0, p)))"
    using assms by (simp add: ldm_def core_eqs mt_step_def)
  show ?thesis
  proof (cases "bit ins 22 \<and> bit ins 15")
    case True
    then show ?thesis using assms by (simp add: half ldm_half_def core_eqs Let_def)
  next
    case False
    then show ?thesis using assms ldm_half_eq[OF assms False, of h]
      by (auto simp: half write_back_eq Let_def)
  qed
qed

lemma sys_core_put_words:
  "sys_core p \<Longrightarrow> sys_core (p\<lparr>mem := snd (put_words (mem p) a s vs)\<rparr>)"
  using put_words_wf[of "mem p" a s vs] by (simp add: sys_core_def wf_core_def)

lemma mt_back_frame [simp]:
  "mem (mt_back ins x p) = mem p" "cycle_count (mt_back ins x p) = cycle_count p"
  "sys_core p \<Longrightarrow> sys_core (mt_back ins x p)"
  by (simp_all add: mt_back_def)

lemma rget_mt_back:
  "wf_core p \<Longrightarrow> r < 17 \<Longrightarrow> rget (mt_back ins x p) r =
     (if bit ins 21 \<and> r = unat (get_bits ins 19 16) then x else rget p r)"
  by (auto simp: mt_back_def rget_rset)

lemma rget_loaded_regs:
  assumes "wf_core p" "length vs = length (reg_list ins)"
  shows "k < length (reg_list ins) \<Longrightarrow>
      rget (write_regs p (loaded_regs (reg_list ins) vs)) (reg_list ins ! k) = pc_mask (reg_list ins ! k) (vs ! k)"
    and "r < 17 \<Longrightarrow> \<not> (r < 16 \<and> bit ins r) \<Longrightarrow>
      rget (write_regs p (loaded_regs (reg_list ins) vs)) r = rget p r"
  unfolding loaded_regs_def using assms
  by (subst write_regs_zip; force simp: less_Suc_eq)+

lemma reg_list_nth: "k < length (reg_list ins) \<Longrightarrow> reg_list ins ! k < 16 \<and> bit ins (reg_list ins ! k)"
  using nth_mem[of k "reg_list ins"] by (simp del: nth_mem)

text \<open>A successful store leaves the words in a row, and a row of words is loaded.\<close>

lemma stm_ok_words:
  assumes "sys_core p" "stm h p ins = Inr (0, p1)" "k < length (reg_list ins)"
  shows "word_at (mem p1) (row (mt_first p ins) (mt_step ins) k) = Some (rview p (reg_list ins ! k))"
proof -
  let ?r = "put_words (mem p) (mt_first p ins) (mt_step ins) (map (rview p) (reg_list ins))"
  have "\<not> fst ?r" "mem p1 = snd ?r"
    using assms(2) by (auto simp: stm_eq[OF assms(1)] Let_def split: if_splits)
  moreover have "wf_memory (mem p)" using assms(1) by (simp add: sys_core_def wf_core_def)
  ultimately show ?thesis
    using put_words_read[of "mem p" "mt_first p ins" "mt_step ins" _ k] mt_step_cases[of ins] assms(3) by simp
qed

lemma ldm_ok:
  assumes "sys_core q" "\<not> (bit ins 22 \<and> bit ins 15)"
    and words: "\<And>k. k < length (reg_list ins) \<Longrightarrow> word_at (mem q) (row (mt_first q ins) (mt_step ins) k) = Some (f k)"
  shows "ldm h q ins = Inr (0, mt_back ins (mt_base q ins)
    (write_regs q (loaded_regs (reg_list ins) (map f [0..<length (reg_list ins)]))))"
proof -
  let ?n = "length (reg_list ins)"
  define g where "g = get_words (mem q) (mt_first q ins) (mt_step ins) 0 ?n"
  have ok: "\<not> snd g" using words by (auto simp: g_def get_words_fails)
  have "fst g = map f [0..<?n]"
  proof (rule nth_equalityI)
    show "fst g ! k = map f [0..<?n] ! k" if "k < length (fst g)" for k
      using get_words_nth[of "mem q" "mt_first q ins" "mt_step ins" 0 ?n k] words[of k] that ok
      by (simp add: g_def)
  qed (simp add: g_def)
  with ok assms(2) show ?thesis
    by (simp only: ldm_eq[OF assms(1)] Let_def flip: g_def) simp
qed

lemma reg_list_mem: "r < 16 \<Longrightarrow> bit ins r \<Longrightarrow> \<exists>k < length (reg_list ins). reg_list ins ! k = r"
  using in_set_conv_nth[of r "reg_list ins"] by auto

text \<open>The row of a decrementing store, read upwards from its last word.\<close>

lemma row_reversed:
  assumes "k < n"
  shows "row (b + of_nat n * (- 4)) 4 k = row (b + (- 4)) (- 4) (n - 1 - k)"
  using assms by (simp add: of_nat_diff algebra_simps)

text \<open>A concrete state: 16 bytes of memory, 5 in r0, 6 in r1 and the stack pointer at 16.\<close>

definition stack_machine :: cpu where
  "stack_machine = rset (rset (rset (cpu_machine (replicate 16 0)) 0 5) 1 6) 13 16"

lemma stack_machine_props:
  "sys_core stack_machine" "rget stack_machine 0 = 5" "rget stack_machine 1 = 6" "rget stack_machine 13 = 16"
  "r < 17 \<Longrightarrow> r \<notin> {0, 1, 13} \<Longrightarrow> rget stack_machine r = 0"
  by (simp_all add: stack_machine_def sys_core_cpu_machine rget_rset rget_cpu_machine)

lemma stack_machine_push:
  "reg_list 0xE92D0003 = [0, 1]" "reg_list 0xE8BD0003 = [0, 1]"
  "\<not> fst (put_words (mem stack_machine) (mt_first stack_machine 0xE92D0003) (mt_step 0xE92D0003)
       (map (rview stack_machine) [0, 1]))"
  "mt_first stack_machine 0xE92D0003 = 12" "mt_step 0xE92D0003 = - 4" "mt_base stack_machine 0xE92D0003 = 8"
  "unat (get_bits 0xE92D0003 19 16) = 13" "unat (get_bits 0xE8BD0003 19 16) = 13"
  by code_simp+

section \<open>Properties\<close>

text \<open>C25: store multiple.  \<^verbatim>\<open>stm\<close> stores the listed registers in ascending order at addresses that
  move by 4 from the base (up or down, before or after), leaves every disjoint word alone,
  reports \<^verbatim>\<open>DATA_ABORT\<close> exactly when one of the words is out of range, and with the W bit makes
  the base register the base plus or minus 4 times the number of registers.\<close>

theorem stm_correct:
  fixes ins :: u32
  assumes "sys_core p"
  defines "rs \<equiv> reg_list ins" and "a \<equiv> \<lambda>k. row (mt_first p ins) (mt_step ins) k"
  shows "\<exists>code p'. stm h p ins = Inr (code, p')
    \<and> (code = DATA_ABORT \<longleftrightarrow> (\<exists>k < length rs. unat (mem_size (mem p)) < unat (a k) + 4))
    \<and> (code \<noteq> DATA_ABORT \<longrightarrow> code = 0 \<and>
        (\<forall>k < length rs. memory_read_word h' (mem p') (a k) = Inr (Some (rview p (rs ! k)))))
    \<and> (\<forall>b. (\<forall>k < length rs. unat b + 4 \<le> unat (a k) \<or> unat (a k) + 4 \<le> unat b) \<longrightarrow>
        memory_read_word h' (mem p') b = memory_read_word h' (mem p) b)
    \<and> (\<forall>r < 17. rget p' r = (if bit ins 21 \<and> r = unat (get_bits ins 19 16) then mt_base p ins else rget p r))
    \<and> cycle_count p' = cycle_count p \<and> sys_core p'"
proof -
  let ?r = "put_words (mem p) (mt_first p ins) (mt_step ins) (map (rview p) rs)"
  have wf: "wf_memory (mem p)" "wf_memory (snd ?r)"
    using assms(1) put_words_wf by (auto simp: sys_core_def wf_core_def)
  note wf' = sys_core_put_words[OF assms(1)]
  have len: "length (map (rview p) rs) \<le> 16" by (simp add: rs_def)
  show ?thesis
    unfolding stm_eq[OF assms(1)]
    using put_words_read[OF wf(1) _ mt_step_cases len] put_words_fails[OF wf(1)] wf' wf
      word_at_put_words[OF wf(1), of "map (rview p) rs"]
    by (auto simp: Let_def rget_mt_back memory_read_word_eq a_def simp flip: rs_def)
qed

theorem stm_correct_witness:
  "\<exists>p'. stm x86_host stack_machine 0xE92D0003 = Inr (0, p') \<and> rget p' 13 = 8
     \<and> memory_read_word be_host (mem p') 12 = Inr (Some 5) \<and> memory_read_word be_host (mem p') 8 = Inr (Some 6)"
proof -
  have "mem_size (mem stack_machine) = 16" "rview stack_machine 0 = 5" "rview stack_machine 1 = 6" by code_simp+
  then show ?thesis
    using stm_correct[OF stack_machine_props(1), where ins = "0xE92D0003" and h = x86_host and h' = be_host]
    by (auto simp: stack_machine_push less_Suc_eq)
qed

text \<open>C26: load multiple.  Without the combination of the \<open>^\<close> bit and the PC, \<^verbatim>\<open>ldm\<close> loads the listed
  registers in ascending order from addresses that move by 4 (the PC with its two low bits
  cleared), reports \<^verbatim>\<open>DATA_ABORT\<close> exactly when one of the words is out of range, updates the base
  last, and changes no other register and no memory.\<close>

theorem ldm_correct:
  fixes ins :: u32
  assumes "sys_core p" and "\<not> (bit ins 22 \<and> bit ins 15)"
  defines "rs \<equiv> reg_list ins" and "a \<equiv> \<lambda>k. row (mt_first p ins) (mt_step ins) k"
    and "wb \<equiv> \<lambda>r. bit ins 21 \<and> r = unat (get_bits ins 19 16)"
  shows "\<exists>code p'. ldm h p ins = Inr (code, p')
    \<and> (code = DATA_ABORT \<longleftrightarrow> (\<exists>k < length rs. memory_read_word h' (mem p) (a k) = Inr None))
    \<and> (code \<noteq> DATA_ABORT \<longrightarrow> code = 0 \<and> (\<forall>k < length rs. \<not> wb (rs ! k) \<longrightarrow>
        memory_read_word h' (mem p) (a k) \<in> {Inr (Some v) | v. rget p' (rs ! k) = pc_mask (rs ! k) v}))
    \<and> (\<forall>r < 17. \<not> (r < 16 \<and> bit ins r) \<longrightarrow> \<not> wb r \<longrightarrow> rget p' r = rget p r)
    \<and> (\<forall>r < 17. wb r \<longrightarrow> rget p' r = mt_base p ins)
    \<and> mem p' = mem p \<and> cycle_count p' = cycle_count p \<and> sys_core p'"
proof -
  let ?g = "get_words (mem p) (mt_first p ins) (mt_step ins) 0 (length rs)"
  have wf: "wf_memory (mem p)" "wf_core p" using assms(1) by (auto simp: sys_core_def wf_core_def)
  have "rs ! k < 17" if "k < length rs" for k
    using reg_list_nth[of k ins] that by (simp add: rs_def)
  then show ?thesis
    unfolding ldm_eq[OF assms(1)]
    using assms(1,2) get_words_fails[of "mem p" "mt_first p ins" "mt_step ins" 0 "length rs"]
      get_words_nth[of "mem p" "mt_first p ins" "mt_step ins" 0 "length rs"]
      rget_loaded_regs[OF wf(2), of "fst ?g" ins] wf
    by (auto simp: Let_def rget_mt_back memory_read_word_eq a_def wb_def simp flip: rs_def)
qed

theorem ldm_correct_witness:
  "\<exists>p'. ldm x86_host (cpu_machine [7, 0, 0, 0, 9, 0, 0, 0]) 0xE8BD0003 = Inr (0, p')
     \<and> rget p' 0 = 7 \<and> rget p' 1 = 9 \<and> rget p' 13 = 8"
proof -
  let ?p = "cpu_machine [7, 0, 0, 0, 9, 0, 0, 0]"
  have "memory_read_word x86_host (mem ?p) 0 = Inr (Some 7)" "memory_read_word x86_host (mem ?p) 4 = Inr (Some 9)"
    "mt_first ?p 0xE8BD0003 = 0" "mt_step 0xE8BD0003 = 4" "mt_base ?p 0xE8BD0003 = 8"
    by code_simp+
  moreover have "sys_core ?p" by (simp add: sys_core_cpu_machine)
  ultimately show ?thesis
    using ldm_correct[where p = ?p and ins = "0xE8BD0003" and h = x86_host and h' = x86_host]
    by (auto simp: stack_machine_push less_Suc_eq pc_mask_def)
qed

text \<open>C14: saving and restoring registers.  If \<^verbatim>\<open>stm\<close> without write-back (bit 21 clear) stored a list without the PC and the memory and the
  base are still the same, \<^verbatim>\<open>ldm\<close> with the same addressing mode gives each listed register its old
  value, whatever the registers hold by then, and leaves the others alone.\<close>

theorem stm_ldm_roundtrip:
  assumes "sys_core p" and "stm h p ins = Inr (0, p1)" and "\<not> bit ins 15" and "\<not> bit ins 21"
    and "sys_core q" and "mem q = mem p1"
    and "rview q (unat (get_bits ins 19 16)) = rview p (unat (get_bits ins 19 16))"
  shows "\<exists>q'. ldm h' q ins = Inr (0, q')
    \<and> (\<forall>r < 15. rget q' r = (if bit ins r then rget p r else rget q r))"
proof -
  let ?rs = "reg_list ins"
  let ?q = "write_regs q (loaded_regs ?rs (map (\<lambda>k. rview p (?rs ! k)) [0..<length ?rs]))"
  have mem: "mt_first q ins = mt_first p ins" using assms(7) by (simp add: mt_first_def)
  have "ldm h' q ins = Inr (0, mt_back ins (mt_base q ins) ?q)"
    using assms(3) stm_ok_words[OF assms(1,2)] by (intro ldm_ok[OF assms(5)]) (simp_all add: assms(6) mem)
  moreover have "rget ?q r = (if bit ins r then rget p r else rget q r)" if "r < 15" for r
  proof (cases "bit ins r")
    case True
    then obtain k where "k < length ?rs" "?rs ! k = r" using reg_list_mem[of r ins] \<open>r < 15\<close> by auto
    then show ?thesis
      using rget_loaded_regs(1)[of q "map (\<lambda>k. rview p (?rs ! k)) [0..<length ?rs]" ins k] True that assms(5)
      by (simp add: pc_mask_def rview_def)
  qed (use that assms(5) in \<open>simp add: rget_loaded_regs(2)\<close>)
  ultimately show ?thesis using assms(4) by (simp add: mt_back_def)
qed

theorem stm_ldm_roundtrip_witness:
  "\<exists>p1 q'. stm x86_host stack_machine 0xE90D0003 = Inr (0, p1)
     \<and> ldm x86_host (rset (rset p1 0 77) 1 88) 0xE90D0003 = Inr (0, q') \<and> rget q' 0 = 5 \<and> rget q' 1 = 6"
proof -
  have w: "mt_step 0xE90D0003 = - 4" "unat (get_bits 0xE90D0003 19 16) = 13"
    "\<not> fst (put_words (mem stack_machine) (mt_first stack_machine 0xE90D0003) (mt_step 0xE90D0003)
       (map (rview stack_machine) (reg_list 0xE90D0003)))"
    by code_simp+
  then obtain m where m: "stm x86_host stack_machine 0xE90D0003 = Inr (0, stack_machine\<lparr>mem := m\<rparr>)"
      "sys_core (stack_machine\<lparr>mem := m\<rparr>)"
    using stm_eq[OF stack_machine_props(1)] sys_core_put_words[OF stack_machine_props(1)]
    by (simp add: Let_def mt_back_def)
  let ?q = "rset (rset (stack_machine\<lparr>mem := m\<rparr>) 0 77) 1 88"
  have "rview ?q 13 = rview stack_machine 13" using m(2) by (simp add: rview_def rget_rset)
  then show ?thesis
    using stm_ldm_roundtrip[OF stack_machine_props(1) m(1), of ?q x86_host] m w(2)
    by (auto simp: stack_machine_props stack_machine_props(3)[unfolded One_nat_def])
qed

text \<open>Push and pop.  The decrementing store puts the lowest register at the highest address, so a
  push (\<^verbatim>\<open>STMDB sp!\<close>) followed by a pop (\<^verbatim>\<open>LDMIA sp!\<close>) of the same list restores the stack pointer but
  gives the registers their values in reverse order.\<close>

theorem push_pop_reverses:
  assumes "sys_core p" and "stm h p push = Inr (0, p1)"
    and "bit push 24" "\<not> bit push 23" "bit push 21" "\<not> bit pop 24" "bit pop 23" "bit pop 21"
    and "get_bits push 19 16 = 13" "get_bits pop 19 16 = 13"
    and "reg_list pop = reg_list push" "\<not> bit push 13" "\<not> bit push 15"
  defines "rs \<equiv> reg_list push"
  shows "\<exists>p2. ldm h' p1 pop = Inr (0, p2) \<and> rget p2 13 = rget p 13
    \<and> (\<forall>k < length rs. rget p2 (rs ! k) = rget p (rs ! (length rs - 1 - k)))"
proof -
  let ?n = "length rs" and ?f = "\<lambda>k. rview p (rs ! (length rs - 1 - k))"
  have steps: "mt_step push = - 4" "mt_step pop = 4" using assms(4,7) by (simp_all add: mt_step_def)
  have sys1: "sys_core p1" and sp1: "rget p1 13 = mt_base p push"
    using assms(1,2,5,9) sys_core_put_words[OF assms(1)]
    by (auto simp: stm_eq[OF assms(1)] Let_def rget_mt_back split: if_splits)
  have first: "mt_first p push = rget p 13 + (- 4)" "mt_first p1 pop = rget p 13 + of_nat ?n * (- 4)"
    using assms(3,6,9,10) steps by (simp_all add: mt_first_def rview_def sp1 mt_base_def rs_def)
  have "15 \<in> set (reg_list pop) \<longleftrightarrow> 15 \<in> set (reg_list push)" by (simp only: assms(11))
  then have pop15: "\<not> bit pop 15" using assms(13) by simp
  have below: "rs ! k < 15 \<and> rs ! k \<noteq> 13" if "k < ?n" for k
    using reg_list_nth[of k push] that assms(12,13) by (auto simp: rs_def less_Suc_eq nat_less_le)
  have "ldm h' p1 pop = Inr (0, mt_back pop (mt_base p1 pop) (write_regs p1 (loaded_regs rs (map ?f [0..<?n]))))"
  proof -
    have "word_at (mem p1) (row (mt_first p1 pop) (mt_step pop) k) = Some (?f k)" if "k < ?n" for k
      using stm_ok_words[OF assms(1,2), of "?n - 1 - k"] that
      by (simp add: first steps row_reversed[OF that] algebra_simps flip: rs_def)
    then show ?thesis
      using ldm_ok[OF sys1, of pop ?f h'] pop15 by (simp add: assms(11) flip: rs_def)
  qed
  moreover have "mt_base p1 pop = rget p 13"
    using assms(9-11) by (simp add: mt_base_def rview_def sp1 steps rs_def)
  moreover have "rget (mt_back pop x (write_regs p1 (loaded_regs rs (map ?f [0..<?n])))) (rs ! k)
      = rget p (rs ! (?n - 1 - k))" if "k < ?n" for k x
  proof -
    have "?n - 1 - k < ?n" using that by linarith
    then have "rs ! (?n - 1 - k) \<noteq> 15" using below[of "?n - 1 - k"] by linarith
    then have "?f k = rget p (rs ! (?n - 1 - k))" by (simp add: rview_def)
    then show ?thesis
      using rget_loaded_regs(1)[of p1 "map ?f [0..<?n]" pop k] below[OF that] that sys1
      by (simp add: rget_mt_back assms(10,11) pc_mask_def flip: rs_def)
  qed
  ultimately show ?thesis using sys1 assms(8,10) by (simp add: rget_mt_back)
qed

theorem push_pop_reverses_witness:
  "\<exists>p1 p2. stm x86_host stack_machine 0xE92D0003 = Inr (0, p1) \<and> ldm x86_host p1 0xE8BD0003 = Inr (0, p2)
     \<and> rget p2 13 = 16 \<and> rget p2 0 = 6 \<and> rget p2 1 = 5"
proof -
  obtain p1 where p1: "stm x86_host stack_machine 0xE92D0003 = Inr (0, p1)"
    using stm_eq[OF stack_machine_props(1), of x86_host "0xE92D0003"] stack_machine_push(1,3)
    by (simp add: Let_def)
  have "get_bits 0xE92D0003 19 16 = 13" "get_bits 0xE8BD0003 19 16 = 13" by code_simp+
  then show ?thesis
    using p1 push_pop_reverses[OF stack_machine_props(1) p1, where pop = "0xE8BD0003" and h' = x86_host]
    by (auto simp: stack_machine_push(1,2) stack_machine_props stack_machine_props(3)[unfolded One_nat_def] less_Suc_eq)
qed

end
