(* ===== verification/Arm_Branch_Other.thy ===== *)
theory Arm_Branch_Other
  imports Arm_Load_Store
begin

text \<open>
  The branches, the software interrupt and the status register transfer of \<^verbatim>\<open>arm_branch_other.c\<close>.
  The call \<^verbatim>\<open>exit(0)\<close>, which ends the simulation, is the outcome \<open>Inl (Exit 0)\<close>.
\<close>

section \<open>Operations\<close>

definition arm_branch :: "host \<Rightarrow> 'a core \<Rightarrow> u32 \<Rightarrow> (int \<times> 'a core) outcome" where
  "arm_branch h p ins =
    (let target_address = get_bits ins 23 0;
         target_address = (if get_bit target_address 23 \<noteq> 0 then target_address OR 0xFF000000 else target_address);
         target_address = c_shl h target_address 2
     in bnd (if get_bit ins 24 \<noteq> 0
             then bnd (arm_read_register p 15) (\<lambda>pc. arm_write_register p 14 (pc - 4)) else Inr p) (\<lambda>p.
        bnd (arm_read_register p 15) (\<lambda>pc.
        bnd (arm_write_register p 15 (pc + target_address)) (\<lambda>p. Inr (0, p)))))"

definition arm_coprocessor_others_swi :: "'a core \<Rightarrow> u32 \<Rightarrow> (int \<times> 'a core) outcome" where
  "arm_coprocessor_others_swi p ins =
     (if get_bit ins 24 \<noteq> 0 then
        if ins AND 0xFFFFFF = 0x123456 then Inl (Exit 0) else Inr (SOFTWARE_INTERRUPT, p)
      else Inr (UNDEFINED_INSTRUCTION, p))"

definition arm_miscellaneous :: "'a core \<Rightarrow> u32 \<Rightarrow> (int \<times> 'a core) outcome" where
  "arm_miscellaneous p ins =
     bnd (if get_bit ins 22 \<noteq> 0
          then bnd (arm_read_spsr p) (arm_write_register p (ucast (get_bits ins 15 12)))
          else bnd (arm_read_cpsr p) (arm_write_register p (ucast (get_bits ins 15 12)))) (\<lambda>p.
     Inr (0, p))"

section \<open>Behaviour\<close>

text \<open>The branch offset: the low 24 bits as a signed number of words.\<close>

definition branch_offset :: "u32 \<Rightarrow> u32" where
  "branch_offset ins = 4 * word_of_int (sint (ucast ins :: 24 word))"

lemma branch_offset_eq:
  "push_bit 2 (if bit (get_bits ins 23 0) 23 then get_bits ins 23 0 OR 0xFF000000 else get_bits ins 23 0)
     = branch_offset ins"
proof -
  have high: "(0xFF000000 :: u32) = push_bit 24 (mask 8)" by (simp add: mask_eq_exp_minus_1)
  have "(if bit (get_bits ins 23 0) 23 then get_bits ins 23 0 OR 0xFF000000 else get_bits ins 23 0)
      = (scast (ucast ins :: 24 word) :: u32)"
    unfolding high
    by (rule bit_word_eqI) (auto simp: bit_simps min_def nat_less_le not_le dest: le_antisym)
  then show ?thesis by (simp add: branch_offset_def push_bit_eq_mult mult.commute)
qed

lemma arm_branch_eq [core_eqs]:
  assumes "wf_core p"
  shows "arm_branch h p ins = Inr (0, rset (if bit ins 24 then rset p 14 (pc_view (rget p 15) - 4) else p) 15
    (pc_view (rget p 15) + branch_offset ins))"
  using assms branch_offset_eq[of ins]
  by (simp add: arm_branch_def core_eqs rview_def rget_rset Let_def)

lemma arm_miscellaneous_eq [core_eqs]:
  "sys_core p \<Longrightarrow> arm_miscellaneous p ins =
     (if bit ins 22 then Inl Null_Deref else Inr (0, rset p (unat (get_bits ins 15 12)) (rget p 16)))"
  by (simp add: arm_miscellaneous_def core_eqs)

end
