(* ===== verification/Arm_Instruction.thy ===== *)
theory Arm_Instruction
  imports Multiple_Transfer Arm_Branch_Other
begin

text \<open>
  One step of the processor, \<^verbatim>\<open>arm_instruction.c\<close>: fetch, condition, dispatch on the instruction
  class, exception.  The result of \<^verbatim>\<open>arm_step\<close> is 0, an exception number, or \<open>-1\<close> when the fetch fails.
\<close>

section \<open>Operations\<close>

definition conditionPassed :: "'a core \<Rightarrow> u32 \<Rightarrow> bool outcome" where
  "conditionPassed p value =
     bnd (arm_read_cpsr p) (\<lambda>cpsr.
     let cond = get_bits value 31 28
     in Inr (if cond = 0 then get_bit cpsr Z_bit \<noteq> 0
        else if cond = 1 then get_bit cpsr Z_bit = 0
        else if cond = 2 then get_bit cpsr C_bit \<noteq> 0
        else if cond = 3 then get_bit cpsr C_bit = 0
        else if cond = 4 then get_bit cpsr N_bit \<noteq> 0
        else if cond = 5 then get_bit cpsr N_bit = 0
        else if cond = 6 then get_bit cpsr V_bit \<noteq> 0
        else if cond = 7 then get_bit cpsr V_bit = 0
        else if cond = 8 then get_bit cpsr C_bit \<noteq> 0 \<and> get_bit cpsr Z_bit = 0
        else if cond = 9 then get_bit cpsr C_bit = 0 \<or> get_bit cpsr Z_bit \<noteq> 0
        else if cond = 10 then get_bit cpsr V_bit = get_bit cpsr N_bit
        else if cond = 11 then get_bit cpsr V_bit \<noteq> get_bit cpsr N_bit
        else if cond = 12 then get_bit cpsr Z_bit = 0 \<and> get_bit cpsr V_bit = get_bit cpsr N_bit
        else if cond = 13 then get_bit cpsr Z_bit \<noteq> 0 \<or> get_bit cpsr V_bit \<noteq> get_bit cpsr N_bit
        else if cond = 14 then True
        else False))"

text \<open>The switch of \<^verbatim>\<open>arm_execute_instruction\<close>.\<close>

definition dispatch :: "host \<Rightarrow> cpu \<Rightarrow> u32 \<Rightarrow> (int \<times> cpu) outcome" where
  "dispatch h p ins =
    (let class = get_bits ins 27 25
     in if class = 0 then
          if get_bit ins 7 \<noteq> 0 \<and> get_bit ins 4 \<noteq> 0 then arm_load_store h p ins
          else if get_bit ins 24 \<noteq> 0 \<and> get_bit ins 23 = 0 \<and> get_bit ins 20 = 0 \<and> get_bit ins 4 = 0
          then arm_miscellaneous p ins
          else arm_data_processing_shift h p ins
        else if class = 1 then arm_data_processing_shift h p ins
        else if class = 2 then arm_load_store h p ins
        else if class = 3 then arm_load_store h p ins
        else if class = 4 then arm_load_store_multiple h p ins
        else if class = 5 then arm_branch h p ins
        else if class = 7 then arm_coprocessor_others_swi p ins
        else Inr (UNDEFINED_INSTRUCTION, p))"

definition arm_execute_instruction :: "host \<Rightarrow> cpu \<Rightarrow> (int \<times> cpu) outcome" where
  "arm_execute_instruction h p =
     bnd (arm_fetch h p) (\<lambda>(result, p).
       case result of
         None \<Rightarrow> Inr (- 1, p)
       | Some ins \<Rightarrow> bnd (conditionPassed p ins) (\<lambda>c. if c then dispatch h p ins else Inr (0, p)))"

text \<open>\<^verbatim>\<open>arm_exception\<close> takes the result as an \<^verbatim>\<open>unsigned char\<close>.\<close>

definition arm_step :: "host \<Rightarrow> cpu \<Rightarrow> (int \<times> cpu) outcome" where
  "arm_step h p =
     bnd (arm_execute_instruction h p) (\<lambda>(result, p).
       if result \<noteq> 0 then bnd (arm_exception p (word_of_int result)) (\<lambda>p. Inr (result, p))
       else Inr (result, p))"

section \<open>The pieces of a step\<close>

text \<open>The state after the fetch, and the condition field as a predicate on the CPSR.\<close>

definition fetched :: "cpu \<Rightarrow> cpu" where
  "fetched p = (rset p 15 (pc_view (rget p 15)))\<lparr>cycle_count := cycle_count p + 1\<rparr>"

definition fetch_addr :: "cpu \<Rightarrow> u32" where
  "fetch_addr p = pc_view (rget p 15) - 4"

definition cond_passes :: "u32 \<Rightarrow> u32 \<Rightarrow> bool" where
  "cond_passes cond cpsr =
    (let n = bit cpsr N_bit; z = bit cpsr Z_bit; c = bit cpsr C_bit; v = bit cpsr V_bit
     in (cond = 0 \<and> z) \<or> (cond = 1 \<and> \<not> z) \<or> (cond = 2 \<and> c) \<or> (cond = 3 \<and> \<not> c)
      \<or> (cond = 4 \<and> n) \<or> (cond = 5 \<and> \<not> n) \<or> (cond = 6 \<and> v) \<or> (cond = 7 \<and> \<not> v)
      \<or> (cond = 8 \<and> c \<and> \<not> z) \<or> (cond = 9 \<and> (\<not> c \<or> z)) \<or> (cond = 10 \<and> n = v) \<or> (cond = 11 \<and> n \<noteq> v)
      \<or> (cond = 12 \<and> \<not> z \<and> n = v) \<or> (cond = 13 \<and> (z \<or> n \<noteq> v)) \<or> cond = 14)"

lemma conditionPassed_eq [core_eqs]:
  "wf_core p \<Longrightarrow> conditionPassed p ins = Inr (cond_passes (get_bits ins 31 28) (rget p 16))"
  by (simp add: conditionPassed_def core_eqs cond_passes_def Let_def) auto

lemma fetched_frame [simp]:
  "sys_core p \<Longrightarrow> sys_core (fetched p)" "mem (fetched p) = mem p" "cycle_count (fetched p) = cycle_count p + 1"
  "wf_core p \<Longrightarrow> r < 17 \<Longrightarrow> rget (fetched p) r = (if r = 15 then pc_view (rget p 15) else rget p r)"
  by (simp_all add: fetched_def rget_rset)

lemma arm_execute_instruction_eq:
  assumes "wf_core p"
  shows "arm_execute_instruction h p =
    (case word_at (mem p) (fetch_addr p) of
       None \<Rightarrow> Inr (- 1, fetched p)
     | Some ins \<Rightarrow> if cond_passes (get_bits ins 31 28) (rget p 16) then dispatch h (fetched p) ins
         else Inr (0, fetched p))"
  using assms
  by (simp add: arm_execute_instruction_def core_eqs fetched_def fetch_addr_def rget_rset
      split: option.splits)

text \<open>No result code is the number of the reset exception.\<close>

definition codes :: "int set" where
  "codes = {- 1, 0, UNDEFINED_INSTRUCTION, SOFTWARE_INTERRUPT, DATA_ABORT}"

lemma arm_exception_code: "wf_core p \<Longrightarrow> code \<in> codes \<Longrightarrow> arm_exception p (word_of_int code) = Inr p"
  by (auto simp: codes_def core_eqs)

section \<open>Which instructions stop the simulator, and what the others keep\<close>

text \<open>A result that returns one of the codes and keeps the invariant, the size of the memory and the
  cycle count.\<close>

definition keeps :: "cpu \<Rightarrow> (int \<times> cpu) outcome \<Rightarrow> bool" where
  "keeps p r \<longleftrightarrow> returns r (\<lambda>(code, p'). code \<in> codes \<and> sys_core p'
     \<and> mem_size (mem p') = mem_size (mem p) \<and> cycle_count p' = cycle_count p)"

lemma decode_so_total:
  assumes "wf_core p"
  shows "\<exists>v c. decode_so h p ins = Inr (v, p\<lparr>shifter_carry_out := c\<rparr>)"
proof (cases "bit ins 25")
  case True
  then show ?thesis using assms by (auto simp: decode_so_def so_result_def core_eqs Let_def)
next
  case False
  then show ?thesis
    using assms decode_so_by_immediate[OF assms False, of h] decode_so_by_register[OF assms False, of h]
      zero_right_shift_eq[OF assms, of ins h]
    by (cases "bit ins 4"; cases "zero_right_shift p ins") (auto simp: so_result_def Let_def)
qed

lemma keeps_data_processing:
  assumes "sys_core p"
  shows "keeps p (arm_data_processing_shift h p ins)"
proof -
  obtain v c where so: "decode_so h p ins = Inr (v, p\<lparr>shifter_carry_out := c\<rparr>)"
    using decode_so_total[of p h ins] assms by auto
  show ?thesis
    using assms arm_data_processing_shift_eq[OF assms so]
    by (simp add: keeps_def alu_ins_def commit_def codes_def Let_def)
qed

lemma store_value_size: "store_value m ins a v = Some m' \<Longrightarrow> wf_memory m \<Longrightarrow> mem_size m' = mem_size m"
  by (auto simp: store_value_def at_defs split: if_splits)

lemma keeps_stored:
  assumes "sys_core p"
  shows "keeps p (stored (put_mem p (store_value (mem p) ins a v)) (\<lambda>q. base_update q P W rn ea))"
proof (cases "store_value (mem p) ins a v")
  case None
  then show ?thesis using assms by (simp add: keeps_def stored_def base_update_def codes_def)
next
  case (Some m)
  have "wf_memory (mem p)" using assms by (simp add: sys_core_def wf_core_def)
  with Some assms store_value_core[OF Some assms] show ?thesis
    by (simp add: keeps_def stored_def base_update_def codes_def store_value_size)
qed

lemma keeps_loaded: "sys_core p \<Longrightarrow> keeps p (loaded v rd (base_update p P W rn ea))"
  by (simp add: keeps_def loaded_def base_update_def codes_def split: option.splits)

lemma keeps_load_store: "sys_core p \<Longrightarrow> keeps p (arm_load_store h p ins)"
  by (simp add: arm_load_store_eq Let_def keeps_stored keeps_loaded)

lemma keeps_stm:
  assumes "sys_core p"
  shows "keeps p (stm h p ins)"
proof -
  have "mem_size (snd (put_words (mem p) a s vs)) = mem_size (mem p)" for a s vs
    using put_words_wf[of "mem p" a s vs] assms by (simp add: sys_core_def wf_core_def)
  then show ?thesis
    using assms sys_core_put_words[OF assms] by (simp add: keeps_def stm_eq Let_def codes_def)
qed

lemma keeps_ldm: "sys_core p \<Longrightarrow> \<not> (bit ins 22 \<and> bit ins 15) \<Longrightarrow> keeps p (ldm h p ins)"
  by (simp add: keeps_def ldm_eq Let_def codes_def)

text \<open>The instruction that ends the simulation, and the two that follow the null pointer to the SPSR:
  LDM with the \<open>^\<close> bit and the PC, and MRS from the SPSR.\<close>

definition stop_of :: "u32 \<Rightarrow> stop option" where
  "stop_of ins =
    (let class = get_bits ins 27 25
     in if class = 7 \<and> bit ins 24 \<and> ins AND 0xFFFFFF = 0x123456 then Some (Exit 0)
        else if class = 4 \<and> bit ins 20 \<and> bit ins 22 \<and> bit ins 15 then Some Null_Deref
        else if class = 0 \<and> \<not> (bit ins 7 \<and> bit ins 4) \<and> bit ins 24 \<and> \<not> bit ins 23 \<and> \<not> bit ins 20
          \<and> \<not> bit ins 4 \<and> bit ins 22 then Some Null_Deref
        else None)"

lemma dispatch_stops: "sys_core p \<Longrightarrow> stop_of ins = Some e \<Longrightarrow> dispatch h p ins = Inl e"
  by (auto simp: stop_of_def dispatch_def core_eqs arm_coprocessor_others_swi_def arm_load_store_multiple_def
      ldm_eq Let_def split: if_splits)

lemma keeps_other:
  assumes "sys_core p"
  shows "keeps p (arm_branch h p ins)" "\<not> bit ins 22 \<Longrightarrow> keeps p (arm_miscellaneous p ins)"
    "\<not> (bit ins 24 \<and> ins AND 0xFFFFFF = 0x123456) \<Longrightarrow> keeps p (arm_coprocessor_others_swi p ins)"
    "keeps p (Inr (UNDEFINED_INSTRUCTION, p))"
  using assms by (auto simp: keeps_def codes_def core_eqs arm_coprocessor_others_swi_def)

lemmas keeps_all = keeps_data_processing keeps_load_store keeps_stm keeps_ldm keeps_other

lemma dispatch_keeps:
  assumes "sys_core p" "stop_of ins = None"
  shows "keeps p (dispatch h p ins)"
  unfolding dispatch_def Let_def arm_load_store_multiple_def
  using assms(2) by (simp add: keeps_all[OF assms(1)] stop_of_def Let_def split: if_splits)
    (auto intro: keeps_all[OF assms(1)])

definition step_stop :: "cpu \<Rightarrow> stop option" where
  "step_stop p = (case word_at (mem p) (fetch_addr p) of None \<Rightarrow> None
     | Some ins \<Rightarrow> if cond_passes (get_bits ins 31 28) (rget p 16) then stop_of ins else None)"

lemma arm_step_eq:
  assumes "sys_core p"
  shows "arm_step h p = arm_execute_instruction h p"
    and "step_stop p = Some e \<Longrightarrow> arm_step h p = Inl e"
    and "step_stop p = None \<Longrightarrow> keeps (fetched p) (arm_step h p)"
proof -
  have run: "case step_stop p of Some e \<Rightarrow> arm_execute_instruction h p = Inl e
      | None \<Rightarrow> keeps (fetched p) (arm_execute_instruction h p)"
    using assms dispatch_stops[of "fetched p"] dispatch_keeps[of "fetched p"]
    by (auto simp: step_stop_def arm_execute_instruction_eq keeps_def codes_def split: option.splits)
  then show eq: "arm_step h p = arm_execute_instruction h p"
    by (auto simp: arm_step_def keeps_def returns_def arm_exception_code split: option.splits)
  show "step_stop p = Some e \<Longrightarrow> arm_step h p = Inl e"
    "step_stop p = None \<Longrightarrow> keeps (fetched p) (arm_step h p)"
    using run by (simp_all add: eq)
qed

text \<open>A step does not depend on the host.\<close>

lemma step_host_eq:
  assumes "sys_core p" and "host_shl32 h" and "host_shl32 h'"
  shows "arm_step h p = arm_step h' p"
proof -
  have so: "decode_so h q ins = decode_so h' q ins" if "wf_core q" for q ins
    using that assms(2,3) zero_right_shift_eq[of q ins h] zero_right_shift_eq[of q ins h']
      decode_so_eq[of q h ins] decode_so_eq[of q h' ins] by (cases "zero_right_shift q ins") simp_all
  have "dispatch h q ins = dispatch h' q ins" if "sys_core q" for q ins
  proof -
    have "arm_data_processing_shift h q ins = arm_data_processing_shift h' q ins"
      using that so[of q ins] by (simp add: arm_data_processing_shift_def)
    moreover have "arm_load_store h q ins = arm_load_store h' q ins" "arm_branch h q ins = arm_branch h' q ins"
      "arm_load_store_multiple h q ins = arm_load_store_multiple h' q ins"
      using that by (simp_all add: arm_load_store_eq arm_branch_eq ldm_eq stm_eq arm_load_store_multiple_def)
    ultimately show ?thesis by (simp only: dispatch_def)
  qed
  then show ?thesis
    using assms(1) by (simp add: arm_step_eq(1) arm_execute_instruction_eq split: option.splits)
qed

section \<open>Properties\<close>

text \<open>What each condition means after a comparison of \<open>a\<close> with \<open>b\<close>.\<close>

definition compare_holds :: "u32 \<Rightarrow> u32 \<Rightarrow> u32 \<Rightarrow> bool" where
  "compare_holds cond a b =
     (if cond = 0 then a = b else if cond = 1 then a \<noteq> b
      else if cond = 2 then b \<le> a else if cond = 3 then a < b
      else if cond = 4 then sint (a - b) < 0 else if cond = 5 then 0 \<le> sint (a - b)
      else if cond = 6 then sint (a - b) \<noteq> sint a - sint b else if cond = 7 then sint (a - b) = sint a - sint b
      else if cond = 8 then b < a else if cond = 9 then a \<le> b
      else if cond = 10 then sint b \<le> sint a else if cond = 11 then sint a < sint b
      else if cond = 12 then sint b < sint a else if cond = 13 then sint a \<le> sint b
      else cond = 14)"

lemma less_by_flags:
  "(sint (a - b) < 0) = (sint (a - b) \<noteq> sint a - sint b) \<longleftrightarrow> sint b \<le> sint a" for a b :: u32
  using sint_u32_range[of a] sint_u32_range[of b] by (auto simp: sint_minus_u32 Let_def)

text \<open>C13: conditions after CMP.  The flags that \<^verbatim>\<open>cmp\<close> sets make \<^verbatim>\<open>conditionPassed\<close> decide each of the
  sixteen conditions as the comparison it is named after: equality, unsigned order (CS, CC, HI,
  LS), signed order (GE, LT, GT, LE), sign and overflow of the difference, always and never.\<close>

theorem compare_conditions:
  assumes "sys_core p"
  shows "\<exists>p'. cmp_ins p rd a b s_bit = Inr p'
    \<and> conditionPassed p' ins = Inr (compare_holds (get_bits ins 31 28) a b)"
proof -
  define cond where "cond = get_bits ins 31 28"
  have cpsr: "bit (alu_cpsr 10 a b c x) 31 \<longleftrightarrow> sint (a - b) < 0" "bit (alu_cpsr 10 a b c x) 30 \<longleftrightarrow> a = b"
    "bit (alu_cpsr 10 a b c x) 29 \<longleftrightarrow> b \<le> a" "bit (alu_cpsr 10 a b c x) 28 \<longleftrightarrow> sint (a - b) \<noteq> sint a - sint b" for c x
    by (simp_all add: alu_cpsr_def alu_def Let_def bit_31_iff[of "a - b"] sub_overflow_def)
  have "cond_passes cond (alu_cpsr 10 a b c x) \<longleftrightarrow> compare_holds cond a b" for c x
    using less_by_flags[of a b] signed.le_less[of a b]
    by (simp add: cond_passes_def compare_holds_def cpsr Let_def word_sless_alt word_sle_eq) auto
  then show ?thesis
    using assms by (simp add: core_eqs alu_ins_def Let_def rget_rset flip: cond_def)
qed

theorem compare_conditions_witness:
  "\<exists>p'. cmp_ins (cpu_machine (replicate 8 0)) 0 (- 3) 5 1 = Inr p'
     \<and> conditionPassed p' 0xB0000000 = Inr True \<and> conditionPassed p' 0x80000000 = Inr True"
proof -
  have "get_bits 0xB0000000 31 28 = 11" "get_bits 0x80000000 31 28 = 8"
    "compare_holds 11 (- 3) 5" "compare_holds 8 (- 3) 5" by code_simp+
  then show ?thesis
    using compare_conditions[where p = "cpu_machine (replicate 8 0)" and rd = 0 and a = "- 3" and b = 5 and s_bit = 1
        and ins = "0xB0000000"]
      compare_conditions[where p = "cpu_machine (replicate 8 0)" and rd = 0 and a = "- 3" and b = 5 and s_bit = 1
        and ins = "0x80000000"] sys_core_cpu_machine[of "replicate 8 0"]
    by auto
qed

text \<open>C12: what a step can do.  From a well-formed state in system mode a step never leaves an array; it
  stops the process exactly when the fetched instruction passes its condition and is the exit
  request \<^verbatim>\<open>swi 0x123456\<close>, an LDM with the \<open>^\<close> bit and the PC, or an MRS from the SPSR (the last two
  follow the null pointer of the missing SPSR); otherwise it returns \<open>-1\<close>, 0 or the number of an
  undefined instruction, a software interrupt or a data abort, in a well-formed state in system
  mode with the same memory size and one more cycle.\<close>

theorem step_outcome:
  assumes "sys_core p"
  shows "(\<forall>e. arm_step h p = Inl e \<longleftrightarrow>
        (\<exists>ins. word_at (mem p) (fetch_addr p) = Some ins \<and> cond_passes (get_bits ins 31 28) (rget p 16)
          \<and> stop_of ins = Some e))
    \<and> (\<forall>code p'. arm_step h p = Inr (code, p') \<longrightarrow>
        code \<in> {- 1, 0, UNDEFINED_INSTRUCTION, SOFTWARE_INTERRUPT, DATA_ABORT} \<and> sys_core p'
        \<and> mem_size (mem p') = mem_size (mem p) \<and> cycle_count p' = cycle_count p + 1)
    \<and> arm_step h p \<noteq> Inl Out_Of_Bounds"
proof -
  have iff: "step_stop p = Some e \<longleftrightarrow> (\<exists>ins. word_at (mem p) (fetch_addr p) = Some ins
      \<and> cond_passes (get_bits ins 31 28) (rget p 16) \<and> stop_of ins = Some e)" for e
    by (auto simp: step_stop_def split: option.splits)
  have stop: "arm_step h p = Inl e \<longleftrightarrow> step_stop p = Some e" for e
    using arm_step_eq(2,3)[OF assms, where h = h] by (cases "step_stop p") (auto simp: keeps_def returns_def)
  have kept: "keeps (fetched p) (Inr (code, p'))" if "arm_step h p = Inr (code, p')" for code p'
    using arm_step_eq(2,3)[OF assms, where h = h] that by (cases "step_stop p") auto
  have inside: "step_stop p \<noteq> Some Out_Of_Bounds"
    by (simp add: step_stop_def stop_of_def Let_def split: option.splits)
  show ?thesis
    unfolding stop iff[symmetric]
  proof (intro conjI allI impI)
    fix code p' assume "arm_step h p = Inr (code, p')"
    note k = kept[OF this]
    show "code \<in> {- 1, 0, UNDEFINED_INSTRUCTION, SOFTWARE_INTERRUPT, DATA_ABORT}" "sys_core p'"
      "mem_size (mem p') = mem_size (mem p)" "cycle_count p' = cycle_count p + 1"
      using k by (simp_all add: keeps_def codes_def)
  qed (simp_all add: inside)
qed

theorem step_outcome_witness: "arm_step x86_host (cpu_machine [0x56, 0x34, 0x12, 0xEF]) = Inl (Exit 0)"
proof -
  let ?p = "cpu_machine [0x56, 0x34, 0x12, 0xEF]"
  have "word_at (mem ?p) (fetch_addr ?p) = Some 0xEF123456" "cond_passes (get_bits 0xEF123456 31 28) (rget ?p 16)"
    "stop_of 0xEF123456 = Some (Exit 0)" by code_simp+
  then show ?thesis
    using step_outcome[of ?p x86_host] sys_core_cpu_machine[of "[0x56, 0x34, 0x12, 0xEF]"] by auto
qed

text \<open>A step that executes nothing.  When the condition of the fetched instruction fails, or the PC
  is outside the memory, the step only advances the PC and the cycle counter; it returns 0 in the
  first case and \<open>-1\<close>, not a prefetch abort, in the second.\<close>

theorem idle_step:
  assumes "sys_core p" and "\<not> bit (rget p 15) 1"
    and "case word_at (mem p) (rget p 15) of None \<Rightarrow> True
         | Some ins \<Rightarrow> \<not> cond_passes (get_bits ins 31 28) (rget p 16)"
  shows "\<exists>p'. arm_step h p = Inr (if word_at (mem p) (rget p 15) = None then - 1 else 0, p')
    \<and> (\<forall>r < 17. rget p' r = (if r = 15 then rget p 15 + 4 else rget p r))
    \<and> mem p' = mem p \<and> cycle_count p' = cycle_count p + 1"
  using assms
  by (auto simp: arm_step_eq(1) arm_execute_instruction_eq fetch_addr_def split: option.splits)

theorem idle_step_witness:
  "\<exists>p'. arm_step x86_host (cpu_machine [1, 2, 3]) = Inr (- 1, p') \<and> rget p' 15 = 4"
proof -
  have "word_at (mem (cpu_machine [1, 2, 3])) 0 = None" by code_simp
  then show ?thesis
    using idle_step[of "cpu_machine [1, 2, 3]" x86_host] sys_core_cpu_machine[of "[1, 2, 3]"]
    by (auto simp: rget_cpu_machine)
qed

text \<open>Branches.  A taken branch at address \<open>A\<close> goes to \<open>A + 8\<close> plus four times the signed 24-bit
  field; with the link bit r14 becomes \<open>A + 4\<close>; nothing else changes.\<close>

theorem branch_step:
  assumes "sys_core p" and "\<not> bit (rget p 15) 1" and "word_at (mem p) (rget p 15) = Some ins"
    and "cond_passes (get_bits ins 31 28) (rget p 16)" and "get_bits ins 27 25 = 5"
  shows "\<exists>p'. arm_step h p = Inr (0, p')
    \<and> rget p' 15 = rget p 15 + 8 + 4 * word_of_int (sint (ucast ins :: 24 word))
    \<and> rget p' 14 = (if bit ins 24 then rget p 15 + 4 else rget p 14)
    \<and> (\<forall>r < 17. r \<noteq> 14 \<and> r \<noteq> 15 \<longrightarrow> rget p' r = rget p r)
    \<and> mem p' = mem p \<and> cycle_count p' = cycle_count p + 1"
proof -
  have "\<not> bit (rget p 15 + 4) 1" using assms(2) bit_plus_4 by simp
  then have "pc_view (rget p 15 + 4) = rget p 15 + 8" by simp
  with assms show ?thesis
    by (simp add: arm_step_eq(1) arm_execute_instruction_eq fetch_addr_def dispatch_def arm_branch_eq
        rget_rset branch_offset_def Let_def)
qed

theorem branch_step_witness:
  "\<exists>p'. arm_step x86_host (cpu_machine [1, 0, 0, 0xEB]) = Inr (0, p') \<and> rget p' 15 = 12 \<and> rget p' 14 = 4"
proof -
  let ?p = "cpu_machine [1, 0, 0, 0xEB]"
  have "word_at (mem ?p) 0 = Some 0xEB000001" "cond_passes (get_bits 0xEB000001 31 28) 0"
    "get_bits 0xEB000001 27 25 = 5" by code_simp+
  then show ?thesis
    using branch_step[of ?p "0xEB000001" x86_host] sys_core_cpu_machine[of "[1, 0, 0, 0xEB]"]
    by (auto simp: rget_cpu_machine)
qed

text \<open>C40: two encodings are taken for others.  A write to the status register (MSR) runs as a read of it
  (MRS) into the register of its Rd field: with the usual field 15 it jumps to the value of the
  CPSR and leaves the CPSR alone.  A multiplication (MUL without S) runs as a half-word store,
  post-indexed: it changes memory and the register of its Rd field is updated as a base.\<close>

theorem misdecoded_instructions:
  assumes "sys_core p" and "\<not> bit (rget p 15) 1" and "word_at (mem p) (rget p 15) = Some ins"
    and "cond_passes (get_bits ins 31 28) (rget p 16)" and "get_bits ins 27 25 = 0"
  shows "(bit ins 24 \<and> \<not> bit ins 23 \<and> \<not> bit ins 22 \<and> bit ins 21 \<and> \<not> bit ins 20 \<and> \<not> bit ins 4
      \<and> get_bits ins 15 12 = 15 \<longrightarrow>
      (\<exists>p'. arm_step h p = Inr (0, p') \<and> rget p' 15 = rget p 16 \<and> rget p' 16 = rget p 16))
    \<and> (get_bits ins 24 20 = 0 \<and> bit ins 7 \<and> bit ins 4 \<longrightarrow>
      arm_step h p = strh h (fetched p) (ucast (get_bits ins 15 12)) (ucast (get_bits ins 19 16))
        (lsh_offset (fetched p) ins) 0 0 0)"
proof -
  have step: "arm_step h p = dispatch h (fetched p) ins"
    using assms(1-4) by (simp add: arm_step_eq(1) arm_execute_instruction_eq fetch_addr_def)
  have zero: "\<not> bit ins (20 + i)" if "get_bits ins 24 20 = 0" "i \<le> 4" for i
    using that bit_get_bits[of ins 24 20 i] by simp
  have "\<not> bit ins 26" using assms(5) bit_get_bits[of ins 27 25 1] by simp
  then show ?thesis
    using assms(1,5) zero[of 0] zero[of 1] zero[of 2] zero[of 3] zero[of 4]
    by (simp add: step dispatch_def arm_miscellaneous_eq arm_load_store_def decode_off_h_eq rget_rset
        get_bit_eq[of ins 20] get_bit_eq[of ins 21] get_bit_eq[of ins 23] get_bit_eq[of ins 24] Let_def)
qed

theorem misdecoded_instructions_witness:
  "\<exists>p'. arm_step x86_host (cpu_machine [0, 0xF0, 0x29, 0xE1]) = Inr (0, p')
    \<and> rget p' 15 = rget (cpu_machine [0, 0xF0, 0x29, 0xE1]) 16"
proof -
  let ?p = "cpu_machine [0, 0xF0, 0x29, 0xE1]"
  have "word_at (mem ?p) 0 = Some 0xE129F000" "cond_passes (get_bits 0xE129F000 31 28) 0"
    "get_bits 0xE129F000 27 25 = 0" "get_bits 0xE129F000 15 12 = 15" by code_simp+
  then show ?thesis
    using misdecoded_instructions[of ?p "0xE129F000" x86_host] sys_core_cpu_machine[of "[0, 0xF0, 0x29, 0xE1]"]
    by (auto simp: rget_cpu_machine)
qed

end
