(* ===== verification/Simulator.thy ===== *)
theory Simulator
  imports Arm_Instruction
begin

text \<open>
  The processor as the threads of \<^verbatim>\<open>arm_simulator.c\<close> drive it.  \<^verbatim>\<open>main\<close> creates a memory and a
  processor; then, each under the lock, the debugger thread executes steps (\<^verbatim>\<open>step\<close> and \<^verbatim>\<open>cont\<close> of
  \<^verbatim>\<open>gdb_protocol.c\<close> call \<^verbatim>\<open>arm_step\<close>) and the interrupt thread delivers the exception bytes it reads.
  An execution is a sequence of these two kinds of events in any order.
\<close>

section \<open>Events\<close>

datatype event =
    Step
  | Irq u8

definition event_step :: "host \<Rightarrow> cpu \<Rightarrow> event \<Rightarrow> cpu outcome" where
  "event_step h p e =
     (case e of
        Step \<Rightarrow> bnd (arm_step h p) (\<lambda>(result, p). Inr p)
      | Irq irq \<Rightarrow> arm_exception p irq)"

fun exec :: "host \<Rightarrow> cpu \<Rightarrow> event list \<Rightarrow> cpu outcome" where
  "exec h p [] = Inr p"
| "exec h p (e # es) = bnd (event_step h p e) (\<lambda>p. exec h p es)"

text \<open>The memory and the processor that \<^verbatim>\<open>main\<close> creates: 0x20000 bytes, in the byte order chosen at
  compile time.  \<open>p\<close>, \<open>raw\<close> and \<open>content\<close> are what the allocations return.\<close>

definition main_init :: "bool \<Rightarrow> cpu \<Rightarrow> registers_data \<Rightarrow> u8 list \<Rightarrow> cpu outcome" where
  "main_init big_endian_simulator p raw content =
     arm_create p raw (memory_create 0x20000 (if big_endian_simulator then 1 else 0) content)"

section \<open>The contract of an event system\<close>

text \<open>What a step function with an invariant gives for its executions.\<close>

locale event_system =
  fixes move :: "'s \<Rightarrow> 'e \<Rightarrow> 's outcome"
    and run :: "'s \<Rightarrow> 'e list \<Rightarrow> 's outcome"
    and inv :: "'s \<Rightarrow> bool"
  assumes run_Nil: "run s [] = Inr s"
    and run_Cons: "run s (e # es) = bnd (move s e) (\<lambda>t. run t es)"
    and move_inv: "inv s \<Longrightarrow> move s e = Inr t \<Longrightarrow> inv t"
begin

lemma run_inv: "inv s \<Longrightarrow> run s es = Inr t \<Longrightarrow> inv t"
proof (induction es arbitrary: s)
  case Nil
  then show ?case by (simp add: run_Nil)
next
  case (Cons e es)
  then show ?case by (auto simp: run_Cons bnd_eq_Inr_iff dest: move_inv)
qed

lemma run_append: "run s (es @ es') = bnd (run s es) (\<lambda>t. run t es')"
  by (induction es arbitrary: s) (simp_all add: run_Nil run_Cons bnd_assoc)

text \<open>A quantity that each event changes by its weight changes by the sum of the weights.\<close>

lemma run_weight:
  fixes f :: "'s \<Rightarrow> 'n :: comm_monoid_add"
  assumes "\<And>s e t. inv s \<Longrightarrow> move s e = Inr t \<Longrightarrow> f t = f s + w e"
  shows "inv s \<Longrightarrow> run s es = Inr t \<Longrightarrow> f t = f s + sum_list (map w es)"
proof (induction es arbitrary: s)
  case Nil
  then show ?case by (simp add: run_Nil)
next
  case (Cons e es)
  then obtain u where "move s e = Inr u" "run u es = Inr t" by (auto simp: run_Cons bnd_eq_Inr_iff)
  with Cons show ?case using assms[of s e u] move_inv[of s e u] by (simp add: add.assoc)
qed

end

lemma event_step_inv:
  assumes "sys_core p" "event_step h p e = Inr p'"
  shows "sys_core p'" "mem_size (mem p') = mem_size (mem p)"
    "cycle_count p' = cycle_count p + (case e of Step \<Rightarrow> 1 | Irq i \<Rightarrow> 0)"
proof -
  have "sys_core p' \<and> mem_size (mem p') = mem_size (mem p)
      \<and> cycle_count p' = cycle_count p + (case e of Step \<Rightarrow> 1 | Irq i \<Rightarrow> 0)"
  proof (cases e)
    case Step
    then show ?thesis
      using assms(2) arm_step_eq(2,3)[OF assms(1), where h = h]
      by (cases "step_stop p") (auto simp: event_step_def keeps_def returns_def bnd_eq_Inr_iff)
  next
    case (Irq i)
    then show ?thesis
      using assms by (auto simp: event_step_def arm_exception_eq split: if_splits)
  qed
  then show "sys_core p'" "mem_size (mem p') = mem_size (mem p)"
    "cycle_count p' = cycle_count p + (case e of Step \<Rightarrow> 1 | Irq i \<Rightarrow> 0)" by blast+
qed

interpretation arm: event_system "event_step h" "exec h" sys_core for h
  by unfold_locales (auto dest: event_step_inv)

interpretation arm_memory: event_system "event_step h" "exec h"
    "\<lambda>p. sys_core p \<and> mem_size (mem p) = n" for h n
  by unfold_locales (auto dest: event_step_inv)

section \<open>Reachable states\<close>

text \<open>The states of the simulator process, as a step relation.\<close>

inductive reachable :: "host \<Rightarrow> bool \<Rightarrow> cpu \<Rightarrow> bool" for h be where
  init: "raw_registers raw \<Longrightarrow> length content = 0x20000 \<Longrightarrow> main_init be p0 raw content = Inr p
    \<Longrightarrow> reachable h be p"
| step: "reachable h be p \<Longrightarrow> arm_step h p = Inr (code, p') \<Longrightarrow> reachable h be p'"
| irq: "reachable h be p \<Longrightarrow> arm_exception p i = Inr p' \<Longrightarrow> reachable h be p'"

inductive_cases reachableE: "reachable h be p"

lemma exec_append: "exec h p (xs @ ys) = bnd (exec h p xs) (\<lambda>p. exec h p ys)"
  by (induction xs arbitrary: p) (simp_all add: bnd_assoc)

text \<open>A step of a fetched instruction, and the PC that it reads.\<close>

lemma step_to_dispatch:
  assumes "sys_core p" "\<not> bit (rget p 15) 1" "word_at (mem p) (rget p 15) = Some ins"
  shows "arm_step h p = (if cond_passes (get_bits ins 31 28) (rget p 16) then dispatch h (fetched p) ins
    else Inr (0, fetched p))"
  using assms by (simp add: arm_step_eq(1) arm_execute_instruction_eq fetch_addr_def)

lemma pc_view_next: "\<not> bit a 1 \<Longrightarrow> pc_view (a + 4) = a + 8" for a :: u32
  using bit_plus_4[of a] pc_view_eq[of "a + 4"] by simp

lemma main_init_props:
  assumes "raw_registers raw" "length content = 0x20000" "main_init be p0 raw content = Inr p"
  shows "sys_core p" "mem_size (mem p) = 0x20000" "cycle_count p = 0"
proof -
  let ?m = "memory_create 0x20000 (if be then 1 else 0) content"
  let ?q = "p0\<lparr>mem := ?m, reg := registers_create raw\<rparr>"
  have "sys_core ?q"
    using assms(1,2) wf_memory_create[of content "0x20000" "if be then 1 else 0"]
    by (simp add: sys_core_def wf_core_def registers_create_fields wf_registers_create)
  then have "main_init be p0 raw content = Inr ((uset (rset ?q 16 0x1d3) 15 0)\<lparr>cycle_count := 0\<rparr>)"
    by (simp add: main_init_def arm_create_def Let_def core_eqs)
  with assms(3) \<open>sys_core ?q\<close> show "sys_core p" "mem_size (mem p) = 0x20000" "cycle_count p = 0"
    by (auto simp: memory_create_def)
qed

lemma arm_create_total: "\<exists>p'. arm_create p raw_bank (memory_create 0x20000 0 (replicate 0x20000 0)) = Inr p'"
proof -
  have "wf_memory (memory_create 0x20000 0 (replicate 0x20000 0))" by (rule wf_memory_create) simp_all
  then have "wf_core (p\<lparr>mem := memory_create 0x20000 0 (replicate 0x20000 0), reg := registers_create raw_bank\<rparr>)"
    by (simp add: wf_core_def wf_registers_create raw_bank_ok)
  then show ?thesis by (simp add: arm_create_def Let_def core_eqs)
qed

lemma reachable_inv: "reachable h be p \<Longrightarrow> sys_core p \<and> mem_size (mem p) = 0x20000"
proof (induction rule: reachable.induct)
  case (init raw content p0 p)
  then show ?case using main_init_props by blast
next
  case (step p code p')
  then show ?case using event_step_inv[of p h Step p'] by (simp add: event_step_def)
next
  case (irq p i p')
  then show ?case using event_step_inv[of p h "Irq i" p'] by (simp add: event_step_def)
qed

section \<open>Properties\<close>

text \<open>Every state that the simulator process reaches, by any interleaving of steps and exceptions
  after the start, is well formed and in system mode with its 0x20000 bytes of memory; the next
  step does not leave an array, and there is no SPSR to read.\<close>

theorem reachable_safe:
  assumes "reachable h be p"
  shows "sys_core p \<and> mode (reg p) = SYS \<and> mem_size (mem p) = 0x20000
    \<and> arm_step h p \<noteq> Inl Out_Of_Bounds \<and> arm_read_spsr p = Inl Null_Deref"
proof -
  have sys: "sys_core p" "mem_size (mem p) = 0x20000" using reachable_inv[OF assms] by simp_all
  have "step_stop p \<noteq> Some Out_Of_Bounds"
    by (simp add: step_stop_def stop_of_def Let_def split: option.splits)
  then have "arm_step h p \<noteq> Inl Out_Of_Bounds"
    using arm_step_eq(2,3)[OF sys(1), where h = h] by (cases "step_stop p") (auto simp: keeps_def returns_def)
  with sys show ?thesis by (simp add: arm_spsr_sys) (simp add: sys_core_def)
qed

theorem reachable_safe_witness:
  "\<exists>p. main_init False (cpu_machine []) raw_bank (replicate 0x20000 0) = Inr p
     \<and> arm_step x86_host p \<noteq> Inl Out_Of_Bounds"
proof -
  obtain p where p: "main_init False (cpu_machine []) raw_bank (replicate 0x20000 0) = Inr p"
    using arm_create_total by (auto simp: main_init_def)
  then have "reachable x86_host False p" by (rule reachable.init[OF raw_bank_ok, rotated]) simp
  from reachable_safe[OF this] p show ?thesis by blast
qed

text \<open>Executions.  Any sequence of steps and exceptions that does not stop the process keeps the
  state well formed and the size of the memory, and the cycle counter grows by the number of
  steps, modulo \<open>2 ^ 32\<close>.\<close>

theorem exec_invariant:
  assumes "sys_core p" and "exec h p es = Inr p'"
  shows "sys_core p' \<and> mem_size (mem p') = mem_size (mem p)
    \<and> cycle_count p' = cycle_count p + of_nat (length (filter (\<lambda>e. e = Step) es))"
proof -
  have "sum_list (map (\<lambda>e. case e of Step \<Rightarrow> 1 | Irq i \<Rightarrow> 0) es) = (of_nat (length (filter (\<lambda>e. e = Step) es)) :: u32)"
    by (induction es) (auto split: event.splits)
  then show ?thesis
    using arm_memory.run_inv[where s = p and t = p' and n = "mem_size (mem p)" and h = h and es = es] assms
      arm.run_weight[where f = cycle_count and w = "\<lambda>e. case e of Step \<Rightarrow> 1 | Irq i \<Rightarrow> 0"
        and h = h and s = p and es = es and t = p'] event_step_inv(3)
    by simp
qed

theorem exec_invariant_witness:
  "\<exists>p'. exec x86_host (cpu_machine [1, 0, 0, 0xEB]) [Step, Irq 6] = Inr p' \<and> cycle_count p' = 1"
proof -
  let ?p = "cpu_machine [1, 0, 0, 0xEB]"
  have sys: "sys_core ?p" by (simp add: sys_core_cpu_machine)
  have "step_stop ?p = None" by code_simp
  from arm_step_eq(3)[OF sys this, of x86_host]
  obtain code p1 where "arm_step x86_host ?p = Inr (code, p1)" "sys_core p1"
    by (auto simp: keeps_def returns_def)
  then have "exec x86_host ?p [Step, Irq 6] = Inr p1" by (simp add: event_step_def arm_exception_eq)
  moreover have "cycle_count ?p = 0" by code_simp
  ultimately show ?thesis using exec_invariant[OF sys, of x86_host "[Step, Irq 6]" p1] by simp
qed

text \<open>Exceptions from outside.  A reset sets the PC to 0 and the CPSR to \<^verbatim>\<open>0x1d3\<close> and keeps every other
  register, the memory and the cycle count; every other exception number changes nothing, so an
  execution is the same with all of them left out: interrupts are lost.\<close>

theorem external_exceptions:
  assumes "sys_core p"
  shows "(\<exists>p'. exec h p [Irq 1] = Inr p' \<and> rget p' 15 = 0 \<and> rget p' 16 = 0x1d3
      \<and> (\<forall>r < 15. rget p' r = rget p r) \<and> mem p' = mem p \<and> cycle_count p' = cycle_count p)
    \<and> exec h p es = exec h p (filter (\<lambda>e. e = Step \<or> e = Irq 1) es)"
proof -
  have "exec h p es = exec h p (filter (\<lambda>e. e = Step \<or> e = Irq 1) es)"
    using assms
  proof (induction es arbitrary: p)
    case (Cons e es)
    show ?case
    proof (cases "e = Step \<or> e = Irq 1")
      case True
      then show ?thesis using Cons event_step_inv(1)[OF Cons.prems]
        by (auto intro!: bnd_cong)
    next
      case False
      then obtain i where "e = Irq i" "i \<noteq> 1" by (cases e) auto
      then show ?thesis using Cons by (simp add: event_step_def arm_exception_eq)
    qed
  qed simp
  then show ?thesis
    using assms by (simp add: event_step_def arm_exception_eq sys_user_view rget_rset)
qed

theorem external_exceptions_witness:
  "\<exists>p'. exec x86_host (cpu_machine [1, 0, 0, 0xEB]) [Irq 1] = Inr p' \<and> rget p' 16 = 0x1d3"
  using external_exceptions[of "cpu_machine [1, 0, 0, 0xEB]" x86_host "[]"]
    sys_core_cpu_machine[of "[1, 0, 0, 0xEB]"] by auto

text \<open>The machine that runs the simulator does not matter: on two hosts, whatever their byte order
  and their oversized shifts (a left shift by 32 giving the value or 0), every execution from a
  well-formed state has the same outcome.\<close>

theorem exec_host_independent:
  assumes "sys_core p" and "host_shl32 h" and "host_shl32 h'"
  shows "exec h p es = exec h' p es"
  using assms(1)
proof (induction es arbitrary: p)
  case (Cons e es)
  then have "event_step h p e = event_step h' p e"
    using step_host_eq[OF _ assms(2,3)] by (simp add: event_step_def split: event.splits)
  then show ?case using Cons event_step_inv(1)[OF Cons.prems] by (auto intro!: bnd_cong)
qed simp

theorem exec_host_independent_witness:
  "exec x86_host (cpu_machine [1, 0, 0, 0xEB]) [Step, Irq 1, Step] = exec be_host (cpu_machine [1, 0, 0, 0xEB]) [Step, Irq 1, Step]"
  by (rule exec_host_independent) (simp_all add: sys_core_cpu_machine host_shl32_instances)

end
