(* ===== verification/Isa.thy ===== *)
theory Isa
  imports Simulator
begin

text \<open>
  The instruction set that the simulator implements, as a machine of its own: registers are a
  function from numbers to values, memory is a partial map from addresses to bytes, an instruction
  is a value of a datatype.  There is no host, no register bank, no pointer table and no array.
  \<open>isa_of\<close> forgets all those of a processor, and the refinement says that a step of the simulator is
  a step of this machine.

  Where the simulator departs from the architecture so does this machine: the flags of additions
  and of SBC and RSC (\<open>alu_cpsr\<close>), right shifts by a register that holds zero, the offset form of half-word
  transfers, and the order of the registers in decrementing block transfers.
\<close>

section \<open>The machine\<close>

record isa_state =
  isa_reg :: "nat \<Rightarrow> u32"
  isa_mem :: "nat \<Rightarrow> u8 option"
  isa_big :: bool
  isa_cycles :: u32

definition isa_view :: "isa_state \<Rightarrow> nat \<Rightarrow> u32" where
  "isa_view s r = (if r = 15 then pc_view (isa_reg s 15) else isa_reg s r)"

definition isa_set :: "isa_state \<Rightarrow> nat \<Rightarrow> u32 \<Rightarrow> isa_state" where
  "isa_set s r v = s\<lparr>isa_reg := (isa_reg s)(r := v)\<rparr>"

definition isa_order :: "isa_state \<Rightarrow> u8 list \<Rightarrow> u8 list" where
  "isa_order s bs = (if isa_big s then rev bs else bs)"

text \<open>A load or store of \<open>n\<close> bytes; a store that lacks one of its bytes changes nothing.\<close>

definition isa_has :: "isa_state \<Rightarrow> nat \<Rightarrow> u32 \<Rightarrow> bool" where
  "isa_has s n a \<longleftrightarrow> list_all (\<lambda>i. isa_mem s (unat a + i) \<noteq> None) [0..<n]"

definition isa_load :: "isa_state \<Rightarrow> nat \<Rightarrow> u32 \<Rightarrow> 'a::len word option" where
  "isa_load s n a =
     (if isa_has s n a then Some (from_le (isa_order s (map (\<lambda>i. the (isa_mem s (unat a + i))) [0..<n]))) else None)"

definition isa_store :: "isa_state \<Rightarrow> nat \<Rightarrow> u32 \<Rightarrow> 'a::len word \<Rightarrow> bool \<times> isa_state" where
  "isa_store s n a v =
     (if isa_has s n a
      then (True, s\<lparr>isa_mem := \<lambda>k. if unat a \<le> k \<and> k < unat a + n
                                  then Some (isa_order s (le_bytes n v) ! (k - unat a)) else isa_mem s k\<rparr>)
      else (False, s))"

section \<open>Instructions\<close>

datatype operand =
    Immediate u32 nat
  | By_Number u8 nat nat
  | By_Register u8 nat nat

datatype offset =
    Constant u32
  | Shifted u8 nat nat

datatype width = W8 | W16 | W32

datatype instr =
    Data u32 bool nat nat operand
  | Status bool nat
  | Single bool width nat nat bool bool bool offset
  | Block bool bool nat bool bool bool "nat list"
  | Branch bool u32
  | Swi u32
  | Undefined

definition decode_operand :: "u32 \<Rightarrow> operand" where
  "decode_operand ins =
     (if bit ins 25 then Immediate (get_bits ins 7 0) (2 * unat (get_bits ins 11 8))
      else if \<not> bit ins 4 then By_Number (ucast (get_bits ins 6 5)) (unat (get_bits ins 11 7)) (unat (get_bits ins 3 0))
      else By_Register (ucast (get_bits ins 6 5)) (unat (get_bits ins 11 8)) (unat (get_bits ins 3 0)))"

definition decode_offset :: "u32 \<Rightarrow> offset" where
  "decode_offset ins =
     (if bit ins 26 then
        if bit ins 25 then Shifted (ucast (get_bits ins 6 5)) (unat (get_bits ins 11 7)) (unat (get_bits ins 3 0))
        else Constant (get_bits ins 11 0)
      else if bit ins 22 then Shifted LSL 0 (unat (get_bits ins 3 0))
      else Constant (push_bit 4 (get_bits ins 11 8) OR get_bits ins 3 0))"

definition decode_single :: "u32 \<Rightarrow> instr" where
  "decode_single ins =
     Single (bit ins 20) (if \<not> bit ins 26 then W16 else if bit ins 22 then W8 else W32)
       (unat (get_bits ins 15 12)) (unat (get_bits ins 19 16)) (bit ins 24) (bit ins 23) (bit ins 21) (decode_offset ins)"

definition decode_data :: "u32 \<Rightarrow> instr" where
  "decode_data ins =
     Data (get_bits ins 24 21) (bit ins 20) (unat (get_bits ins 15 12)) (unat (get_bits ins 19 16)) (decode_operand ins)"

definition decode :: "u32 \<Rightarrow> instr" where
  "decode ins =
    (let class = get_bits ins 27 25
     in if class = 0 then
          if bit ins 7 \<and> bit ins 4 then decode_single ins
          else if bit ins 24 \<and> \<not> bit ins 23 \<and> \<not> bit ins 20 \<and> \<not> bit ins 4
          then Status (bit ins 22) (unat (get_bits ins 15 12))
          else decode_data ins
        else if class = 1 then decode_data ins
        else if class = 2 \<or> class = 3 then decode_single ins
        else if class = 4 then
          Block (bit ins 20) (bit ins 22) (unat (get_bits ins 19 16)) (bit ins 24) (bit ins 23) (bit ins 21) (reg_list ins)
        else if class = 5 then Branch (bit ins 24) (branch_offset ins)
        else if class = 7 \<and> bit ins 24 then Swi (ins AND 0xFFFFFF)
        else Undefined)"

section \<open>Execution\<close>

definition isa_carry :: "isa_state \<Rightarrow> bool" where
  "isa_carry s = bit (isa_reg s 16) C_bit"

fun isa_operand :: "isa_state \<Rightarrow> operand \<Rightarrow> u32 \<times> bool" where
  "isa_operand s (Immediate v rot) = (let w = word_rotr rot v in (w, if rot = 0 then isa_carry s else bit w 31))"
| "isa_operand s (By_Number kind n rm) = imm_shifter kind n (isa_view s rm) (isa_carry s)"
| "isa_operand s (By_Register kind rs rm) =
     (let n = unat (take_bit 8 (isa_view s rs))
      in shifter kind (if n = 0 \<and> (kind = LSR \<or> kind = ASR) then 32 else n) (isa_view s rm) (isa_carry s))"

definition isa_data :: "isa_state \<Rightarrow> u32 \<Rightarrow> bool \<Rightarrow> nat \<Rightarrow> u32 \<Rightarrow> u32 \<times> bool \<Rightarrow> isa_state" where
  "isa_data s op flags rd a b =
    (let cpsr = alu_cpsr op a (fst b) (snd b) (isa_reg s 16);
         t = isa_set s rd (alu op a (fst b) (isa_carry s))
     in if op = 8 \<or> op = 9 \<or> op = 10 \<or> op = 11 then isa_set s 16 cpsr
        else if flags \<and> rd \<noteq> 15 then isa_set t 16 cpsr else t)"

fun isa_offset :: "isa_state \<Rightarrow> offset \<Rightarrow> u32" where
  "isa_offset s (Constant c) = c"
| "isa_offset s (Shifted kind n rm) = fst (imm_shifter kind n (isa_view s rm) (isa_carry s))"

definition isa_load_value :: "isa_state \<Rightarrow> width \<Rightarrow> nat \<Rightarrow> u32 \<Rightarrow> u32 option" where
  "isa_load_value s w rd a =
     (case w of
        W8 \<Rightarrow> map_option ucast (isa_load s 1 a :: u8 option)
      | W16 \<Rightarrow> map_option ucast (isa_load s 2 a :: u16 option)
      | W32 \<Rightarrow> map_option (pc_mask rd) (isa_load s 4 a))"

definition isa_store_value :: "isa_state \<Rightarrow> width \<Rightarrow> u32 \<Rightarrow> u32 \<Rightarrow> bool \<times> isa_state" where
  "isa_store_value s w a v =
     (case w of
        W8 \<Rightarrow> isa_store s 1 a (ucast v :: u8)
      | W16 \<Rightarrow> isa_store s 2 a (ucast v :: u16)
      | W32 \<Rightarrow> isa_store s 4 a v)"

definition isa_single ::
    "isa_state \<Rightarrow> bool \<Rightarrow> width \<Rightarrow> nat \<Rightarrow> nat \<Rightarrow> bool \<Rightarrow> bool \<Rightarrow> bool \<Rightarrow> u32 \<Rightarrow> int \<times> isa_state" where
  "isa_single s load w rd rn pre up wb off =
    (let base = isa_view s rn; ea = (if up then base + off else base - off); a = (if pre then ea else base);
         back = (\<lambda>s. if pre \<and> \<not> wb then s else isa_set s rn ea)
     in if load then
          case isa_load_value s w rd a of None \<Rightarrow> (DATA_ABORT, back s) | Some v \<Rightarrow> (0, isa_set (back s) rd v)
        else let r = isa_store_value s w a (isa_view s rd) in (if fst r then 0 else DATA_ABORT, back (snd r)))"

text \<open>Words in a row, as in \<open>put_words\<close> and \<open>get_words\<close>.\<close>

fun isa_put_words :: "isa_state \<Rightarrow> u32 \<Rightarrow> u32 \<Rightarrow> u32 list \<Rightarrow> bool \<times> isa_state" where
  "isa_put_words s a d [] = (False, s)"
| "isa_put_words s a d (v # vs) =
     (let r = isa_store s 4 a v; q = isa_put_words (snd r) (a + d) d vs in (\<not> fst r \<or> fst q, snd q))"

fun isa_get_words :: "isa_state \<Rightarrow> u32 \<Rightarrow> u32 \<Rightarrow> u32 \<Rightarrow> nat \<Rightarrow> u32 list \<times> bool" where
  "isa_get_words s a d v 0 = ([], False)"
| "isa_get_words s a d v (Suc n) =
     (case isa_load s 4 a of
        None \<Rightarrow> (v # fst (isa_get_words s (a + d) d v n), True)
      | Some x \<Rightarrow> (x # fst (isa_get_words s (a + d) d x n), snd (isa_get_words s (a + d) d x n)))"

definition isa_block ::
    "isa_state \<Rightarrow> bool \<Rightarrow> nat \<Rightarrow> bool \<Rightarrow> bool \<Rightarrow> bool \<Rightarrow> nat list \<Rightarrow> int \<times> isa_state" where
  "isa_block s load rn pre up wb rs =
    (let base = isa_view s rn; d = (if up then 4 else - 4); first = base + (if pre then d else 0);
         back = (\<lambda>s. if wb then isa_set s rn (base + of_nat (length rs) * d) else s)
     in if load then
          let g = isa_get_words s first d 0 (length rs)
          in (if snd g then DATA_ABORT else 0, back (fold (\<lambda>(r, v) s. isa_set s r v) (loaded_regs rs (fst g)) s))
        else
          let r = isa_put_words s first d (map (isa_view s) rs)
          in (if fst r then DATA_ABORT else 0, back (snd r)))"

fun isa_exec :: "instr \<Rightarrow> isa_state \<Rightarrow> (int \<times> isa_state) outcome" where
  "isa_exec (Data op flags rd rn b) s = Inr (0, isa_data s op flags rd (isa_view s rn) (isa_operand s b))"
| "isa_exec (Status spsr rd) s = (if spsr then Inl Null_Deref else Inr (0, isa_set s rd (isa_reg s 16)))"
| "isa_exec (Single load w rd rn pre up wb off) s = Inr (isa_single s load w rd rn pre up wb (isa_offset s off))"
| "isa_exec (Block load user rn pre up wb rs) s =
     (if load \<and> user \<and> 15 \<in> set rs then Inl Null_Deref else Inr (isa_block s load rn pre up wb rs))"
| "isa_exec (Branch link off) s =
     (let pc = isa_view s 15; s = (if link then isa_set s 14 (pc - 4) else s) in Inr (0, isa_set s 15 (pc + off)))"
| "isa_exec (Swi n) s = (if n = 0x123456 then Inl (Exit 0) else Inr (SOFTWARE_INTERRUPT, s))"
| "isa_exec Undefined s = Inr (UNDEFINED_INSTRUCTION, s)"

definition isa_fetched :: "isa_state \<Rightarrow> isa_state" where
  "isa_fetched s = (isa_set s 15 (isa_view s 15))\<lparr>isa_cycles := isa_cycles s + 1\<rparr>"

definition isa_step :: "isa_state \<Rightarrow> (int \<times> isa_state) outcome" where
  "isa_step s =
     (case isa_load s 4 (isa_view s 15 - 4) of
        None \<Rightarrow> Inr (- 1, isa_fetched s)
      | Some ins \<Rightarrow> if cond_passes (get_bits ins 31 28) (isa_reg s 16) then isa_exec (decode ins) (isa_fetched s)
          else Inr (0, isa_fetched s))"

definition isa_event :: "isa_state \<Rightarrow> event \<Rightarrow> isa_state outcome" where
  "isa_event s e =
     (case e of
        Step \<Rightarrow> bnd (isa_step s) (\<lambda>(result, s). Inr s)
      | Irq irq \<Rightarrow> Inr (if irq = 1 then isa_set (isa_set s 16 0x1d3) 15 0 else s))"

fun isa_run :: "isa_state \<Rightarrow> event list \<Rightarrow> isa_state outcome" where
  "isa_run s [] = Inr s"
| "isa_run s (e # es) = bnd (isa_event s e) (\<lambda>s. isa_run s es)"

section \<open>Abstraction\<close>

definition isa_of :: "cpu \<Rightarrow> isa_state" where
  "isa_of p = \<lparr>isa_reg = (\<lambda>r. if r < 17 then rget p r else 0),
     isa_mem = (\<lambda>a. if a < length (mem_bytes (mem p)) then Some (mem_bytes (mem p) ! a) else None),
     isa_big = (mem_is_big_endian (mem p) = 1), isa_cycles = cycle_count p\<rparr>"

named_theorems isa_abs

lemma isa_of_reg [isa_abs]: "r < 17 \<Longrightarrow> isa_reg (isa_of p) r = rget p r" "r < 17 \<Longrightarrow> isa_view (isa_of p) r = rview p r"
  by (simp_all add: isa_of_def isa_view_def rview_def)

lemma isa_of_set [isa_abs]: "wf_core p \<Longrightarrow> r < 17 \<Longrightarrow> isa_set (isa_of p) r v = isa_of (rset p r v)"
  by (auto simp: isa_of_def isa_set_def rget_rset fun_eq_iff)

lemma isa_of_carry [isa_abs]: "isa_carry (isa_of p) = bit (rget p 16) C_bit"
  by (simp add: isa_carry_def isa_abs)

lemma isa_of_sco [simp]: "isa_of (p\<lparr>shifter_carry_out := c\<rparr>) = isa_of p"
  by (simp add: isa_of_def fun_eq_iff)

lemma all_below_iff: "0 < n \<Longrightarrow> (\<forall>i < n. k + i < l) \<longleftrightarrow> k + n \<le> l" for k n l :: nat
proof (rule iffI)
  assume "0 < n" "\<forall>i < n. k + i < l"
  then have "k + (n - 1) < l" by (metis diff_less zero_less_one)
  with \<open>0 < n\<close> show "k + n \<le> l" by simp
qed simp

lemma isa_has_iff:
  assumes "wf_memory (mem p)" "0 < n"
  shows "isa_has (isa_of p) n a \<longleftrightarrow> unat a + n \<le> unat (mem_size (mem p))"
proof -
  have "isa_has (isa_of p) n a \<longleftrightarrow> (\<forall>i < n. unat a + i < length (mem_bytes (mem p)))"
    by (auto simp: isa_has_def isa_of_def list_all_iff)
  then show ?thesis using assms by (simp add: all_below_iff wf_memory_def)
qed

lemma isa_bytes: "unat a + n \<le> length (mem_bytes (mem p)) \<Longrightarrow>
    map (\<lambda>i. the (isa_mem (isa_of p) (unat a + i))) [0..<n] = take n (drop (unat a) (mem_bytes (mem p)))"
  by (auto simp: isa_of_def list_eq_iff_nth_eq)

lemma isa_load_eq:
  assumes "wf_core p" "0 < n"
  shows "isa_load (isa_of p) n a = (if unat a + n \<le> unat (mem_size (mem p))
    then Some (sim_value (mem p) (take n (drop (unat a) (mem_bytes (mem p))))) else None)"
  using assms isa_has_iff[of p n a]
  by (simp add: isa_load_def isa_bytes wf_core_def wf_memory_def sim_value_def isa_order_def) (simp add: isa_of_def)

lemma isa_loads [isa_abs]:
  assumes "wf_core p"
  shows "isa_load (isa_of p) 1 a = byte_at (mem p) a" "isa_load (isa_of p) 2 a = half_at (mem p) a"
    "isa_load (isa_of p) 4 a = word_at (mem p) a"
proof -
  have "sim_value m [b] = b" for m and b :: u8 by (simp add: sim_value_def)
  then show "isa_load (isa_of p) 1 a = byte_at (mem p) a"
    using assms by (auto simp: isa_load_eq at_defs wf_core_def wf_memory_def take_Suc hd_drop_conv_nth)
qed (use assms in \<open>simp_all add: isa_load_eq at_defs\<close>)

lemma isa_store_eq:
  fixes v :: "'a::len word"
  assumes "wf_core p" "0 < n"
  shows "isa_store (isa_of p) n a v = (if unat a + n \<le> unat (mem_size (mem p))
    then (True, isa_of (p\<lparr>mem := (mem p)\<lparr>mem_bytes := splice (mem_bytes (mem p)) (unat a) (sim_bytes (mem p) n v)\<rparr>\<rparr>))
    else (False, isa_of p))"
proof -
  let ?bs = "mem_bytes (mem p)"
  have wf: "wf_memory (mem p)" using assms(1) by (simp add: wf_core_def)
  have "isa_order (isa_of p) (le_bytes n v) = sim_bytes (mem p) n v"
    by (simp add: isa_order_def isa_of_def sim_bytes_def)
  then show ?thesis
    using wf isa_has_iff[OF wf assms(2), of a]
    by (auto simp: isa_store_def isa_of_def wf_memory_def fun_eq_iff nth_splice)
qed

lemma isa_stores [isa_abs]:
  assumes "wf_core p"
  shows "isa_store (isa_of p) 1 a b = apsnd isa_of (put_mem p (put_byte (mem p) a b))"
    "isa_store (isa_of p) 2 a c = apsnd isa_of (put_mem p (put_half (mem p) a c))"
    "isa_store (isa_of p) 4 a d = apsnd isa_of (put_mem p (put_word (mem p) a d))"
proof -
  have "sim_bytes m 1 b = [b]" for m by (simp add: sim_bytes_def)
  then show "isa_store (isa_of p) 1 a b = apsnd isa_of (put_mem p (put_byte (mem p) a b))"
    using assms by (simp add: isa_store_eq at_defs Suc_le_eq)
qed (use assms in \<open>simp_all add: isa_store_eq at_defs\<close>)

section \<open>Instructions refine\<close>

abbreviation (input) isa_result :: "(int \<times> cpu) outcome \<Rightarrow> (int \<times> isa_state) outcome" where
  "isa_result \<equiv> map_sum id (apsnd isa_of)"

lemma shifter_carry_irrelevant: "0 < n \<Longrightarrow> shifter kind n x c = shifter kind n x c'"
  by (simp add: shifter_def)

lemma isa_operand_eq:
  "isa_operand (isa_of p) (decode_operand ins) =
     (if zero_right_shift p ins then shifter (ucast (get_bits ins 6 5)) 32 (rview p (unat (get_bits ins 3 0))) False
      else operand2 p ins)"
  using shifter_carry_irrelevant[of 32 _ _ False "bit (rget p 16) C_bit"]
  by (auto simp: decode_operand_def operand2_def zero_right_shift_def isa_abs Let_def unat_eq_0 field_eq_iff)

lemma rset_sco [simp]: "rset (p\<lparr>shifter_carry_out := c\<rparr>) r v = (rset p r v)\<lparr>shifter_carry_out := c\<rparr>"
  by (simp add: rset_def)

lemma isa_data_refines:
  assumes "sys_core p" "host_shl32 h"
  shows "isa_result (arm_data_processing_shift h p ins) = isa_exec (decode_data ins) (isa_of p)"
proof -
  define b where "b = isa_operand (isa_of p) (decode_operand ins)"
  have so: "decode_so h p ins = Inr (fst b, p\<lparr>shifter_carry_out := of_bool (snd b)\<rparr>)"
    using assms zero_right_shift_eq[of p ins h] decode_so_eq[of p h ins]
    by (cases "zero_right_shift p ins") (simp_all add: b_def isa_operand_eq so_result_def)
  have "(ucast (get_bits ins 15 12) :: u8) = 15 \<longleftrightarrow> unat (get_bits ins 15 12) = 15"
    by (simp add: field_eq_iff word_unat_eq_iff)
  then show ?thesis
    using assms(1) arm_data_processing_shift_eq[OF assms(1) so]
    by (simp add: decode_data_def isa_data_def alu_ins_def commit_def isa_abs Let_def flip: b_def)
qed

lemma isa_offset_eq: "isa_offset (isa_of p) (decode_offset ins) = transfer_offset p ins"
  by (simp add: decode_offset_def transfer_offset_def ls_offset_def lsh_offset_def isa_abs imm_shifter_def shifter_def)

lemma isa_load_value_eq:
  assumes "wf_core p"
  shows "isa_load_value (isa_of p) (if \<not> bit ins 26 then W16 else if bit ins 22 then W8 else W32)
      (unat (get_bits ins 15 12)) a = load_value (mem p) ins a"
proof -
  have "unat (get_bits ins 15 12) = 15 \<longleftrightarrow> get_bits ins 15 12 = 15" by (simp add: word_unat_eq_iff)
  then show ?thesis
    using isa_loads[OF assms, of a] by (simp add: isa_load_value_def load_value_def pc_mask_def[abs_def])
qed

lemma isa_store_value_eq:
  "wf_core p \<Longrightarrow> isa_store_value (isa_of p) (if \<not> bit ins 26 then W16 else if bit ins 22 then W8 else W32) a v
     = apsnd isa_of (put_mem p (store_value (mem p) ins a v))"
  using isa_stores[of p a] by (simp add: isa_store_value_def store_value_def)

lemma isa_single_refines:
  assumes "sys_core p"
  shows "isa_result (arm_load_store h p ins) = isa_exec (decode_single ins) (isa_of p)"
proof -
  have "wf_core (snd (put_mem p (store_value (mem p) ins a v)))" for a v
    using assms by (simp add: store_value_def)
  then show ?thesis
    using assms
    by (cases "bit ins 24"; cases "bit ins 23"; cases "bit ins 21"; cases "bit ins 20")
      (simp_all add: arm_load_store_eq decode_single_def isa_single_def isa_load_value_eq isa_store_value_eq isa_offset_eq
        isa_abs loaded_def stored_def address_defs Let_def split: option.splits)
qed

lemma isa_put_words_eq:
  assumes "wf_core p"
  shows "isa_put_words (isa_of p) a d vs =
    (fst (put_words (mem p) a d vs), isa_of (p\<lparr>mem := snd (put_words (mem p) a d vs)\<rparr>))"
  using assms
proof (induction vs arbitrary: p a)
  case (Cons v vs)
  show ?case
  proof (cases "put_word (mem p) a v")
    case None
    then show ?thesis using Cons by (simp add: isa_abs)
  next
    case (Some m)
    then have "wf_core (p\<lparr>mem := m\<rparr>)" using Cons.prems core_put(1) by blast
    then show ?thesis using Cons.IH[of "p\<lparr>mem := m\<rparr>"] Some Cons.prems by (simp add: isa_abs)
  qed
qed simp

lemma isa_get_words_eq: "wf_core p \<Longrightarrow> isa_get_words (isa_of p) a d v n = get_words (mem p) a d v n"
  by (induction n arbitrary: a v) (simp_all add: isa_abs split: option.splits)

lemma isa_write_regs:
  "wf_core p \<Longrightarrow> fst ` set rvs \<subseteq> {..<17} \<Longrightarrow> fold (\<lambda>(r, v) s. isa_set s r v) rvs (isa_of p) = isa_of (write_regs p rvs)"
  by (induction rvs arbitrary: p) (auto simp: isa_abs)

lemma isa_block_refines:
  assumes "sys_core p"
  shows "isa_result (arm_load_store_multiple h p ins) =
    isa_exec (Block (bit ins 20) (bit ins 22) (unat (get_bits ins 19 16)) (bit ins 24) (bit ins 23) (bit ins 21) (reg_list ins)) (isa_of p)"
proof -
  have "fst ` set (loaded_regs (reg_list ins) vs) \<subseteq> {..<17}" for vs
    by (auto simp: loaded_regs_def dest!: set_zip_leftD)
  moreover have views: "map (isa_view (isa_of p)) (reg_list ins) = map (rview p) (reg_list ins)" by (simp add: isa_abs)
  moreover have "wf_core (p\<lparr>mem := snd (put_words (mem p) a s vs)\<rparr>)" for a s vs
    using sys_core_put_words[OF assms] by simp
  ultimately show ?thesis
    using assms
    by (simp add: views arm_load_store_multiple_def ldm_eq stm_eq isa_block_def isa_put_words_eq isa_get_words_eq
        isa_write_regs mt_first_def mt_base_def mt_step_def mt_back_def isa_abs Let_def)
qed

lemma isa_other_refines:
  assumes "sys_core p"
  shows "isa_result (arm_branch h p ins) = isa_exec (Branch (bit ins 24) (branch_offset ins)) (isa_of p)"
    and "isa_result (arm_miscellaneous p ins) = isa_exec (Status (bit ins 22) (unat (get_bits ins 15 12))) (isa_of p)"
    and "isa_result (arm_coprocessor_others_swi p ins) =
      isa_exec (if bit ins 24 then Swi (ins AND 0xFFFFFF) else Undefined) (isa_of p)"
  using assms by (simp_all add: core_eqs isa_abs rview_def arm_coprocessor_others_swi_def Let_def)

lemma isa_dispatch_refines:
  assumes "sys_core p" "host_shl32 h"
  shows "isa_result (dispatch h p ins) = isa_exec (decode ins) (isa_of p)"
  using isa_data_refines[OF assms] isa_single_refines[OF assms(1)] isa_block_refines[OF assms(1)] isa_other_refines[OF assms(1)]
  by (simp add: dispatch_def decode_def Let_def del: isa_exec.simps(1-6))

section \<open>Steps and executions refine\<close>

lemma isa_step_refines:
  assumes "sys_core p" "host_shl32 h"
  shows "isa_result (arm_step h p) = isa_step (isa_of p)"
proof -
  have "isa_fetched (isa_of p) = (isa_of (rset p 15 (rview p 15)))\<lparr>isa_cycles := cycle_count p + 1\<rparr>"
    using assms(1) by (simp add: isa_fetched_def isa_abs) (simp add: isa_of_def)
  also have "\<dots> = isa_of (fetched p)" by (simp add: isa_of_def fetched_def rview_def fun_eq_iff)
  finally have "isa_fetched (isa_of p) = isa_of (fetched p)" .
  moreover have "isa_load (isa_of p) 4 (isa_view (isa_of p) 15 - 4) = word_at (mem p) (fetch_addr p)"
    using assms(1) by (simp add: isa_abs fetch_addr_def rview_def)
  ultimately show ?thesis
    using assms isa_dispatch_refines[OF fetched_frame(1)[OF assms(1)] assms(2)]
    by (simp add: arm_step_eq(1) arm_execute_instruction_eq isa_step_def isa_abs split: option.splits)
qed

lemma isa_event_refines:
  assumes "sys_core p" "host_shl32 h"
  shows "map_sum id isa_of (event_step h p e) = isa_event (isa_of p) e"
proof (cases e)
  case Step
  then show ?thesis
    using isa_step_refines[OF assms, symmetric]
    by (cases "arm_step h p") (auto simp: event_step_def isa_event_def)
next
  case (Irq i)
  then show ?thesis using assms(1) by (simp add: event_step_def isa_event_def core_eqs isa_abs sys_user_view)
qed

text \<open>An event system refines another one if an abstraction maps its events to those of the other; then
  it maps executions to executions.\<close>

locale event_refinement =
  conc: event_system move run inv
  for move :: "'s \<Rightarrow> 'e \<Rightarrow> 's outcome" and run :: "'s \<Rightarrow> 'e list \<Rightarrow> 's outcome" and inv :: "'s \<Rightarrow> bool" +
  fixes abs_move :: "'a \<Rightarrow> 'e \<Rightarrow> 'a outcome"
    and abs_run :: "'a \<Rightarrow> 'e list \<Rightarrow> 'a outcome"
    and abs :: "'s \<Rightarrow> 'a"
  assumes abs_run_Nil: "abs_run a [] = Inr a"
    and abs_run_Cons: "abs_run a (e # es) = bnd (abs_move a e) (\<lambda>b. abs_run b es)"
    and abs_move: "inv s \<Longrightarrow> map_sum id abs (move s e) = abs_move (abs s) e"
begin

lemma run_refines: "inv s \<Longrightarrow> map_sum id abs (run s es) = abs_run (abs s) es"
proof (induction es arbitrary: s)
  case Nil
  then show ?case by (simp add: conc.run_Nil abs_run_Nil)
next
  case (Cons e es)
  then show ?case
    using abs_move[OF Cons.prems, of e, symmetric] conc.move_inv[OF Cons.prems, of e]
    by (cases "move s e") (auto simp: conc.run_Cons abs_run_Cons)
qed

end

interpretation isa: event_refinement "event_step h" "exec h" "\<lambda>p. sys_core p \<and> host_shl32 h" isa_event isa_run isa_of for h
  by unfold_locales (auto dest: event_step_inv simp: isa_event_refines)

text \<open>A machine with zero registers and a little-endian memory image.\<close>

definition isa_image :: "u8 list \<Rightarrow> isa_state" where
  "isa_image img = \<lparr>isa_reg = (\<lambda>r. 0), isa_mem = (\<lambda>a. if a < length img then Some (img ! a) else None),
     isa_big = False, isa_cycles = 0\<rparr>"

lemma isa_of_cpu_machine: "isa_of (cpu_machine img) = isa_image img"
  by (simp add: isa_of_def isa_image_def rget_cpu_machine fun_eq_iff)
    (simp add: cpu_machine_def machine_def memory_create_def)

section \<open>Properties\<close>

text \<open>C3: the simulator implements its instruction set.  A step of the processor is a step of the abstract
  machine, with the same result code, or stops the process for the same reason; every execution by
  steps and exceptions is an execution of the abstract machine.  So two processors that show the same
  registers, memory and cycle count behave alike forever, on any two hosts: the banked registers, the
  tables of pointers and the global carry of the shifter are never seen.\<close>

theorem isa_refinement:
  assumes "sys_core p" and "host_shl32 h"
  shows "map_sum id (apsnd isa_of) (arm_step h p) = isa_step (isa_of p)
    \<and> map_sum id isa_of (exec h p es) = isa_run (isa_of p) es
    \<and> (\<forall>q h'. sys_core q \<and> host_shl32 h' \<and> isa_of q = isa_of p \<longrightarrow>
        map_sum id isa_of (exec h' q es) = map_sum id isa_of (exec h p es))"
  using isa_step_refines[OF assms] isa.run_refines[of p h es] isa.run_refines[of _ _ es] assms by metis

theorem isa_refinement_witness:
  "\<exists>p. exec be_host (cpu_machine [0x05, 0x10, 0xA0, 0xE3, 0x02, 0x20, 0x81, 0xE1]) [Step, Step] = Inr p
     \<and> rget p 1 = 5 \<and> rget p 2 = 5"
proof -
  let ?p = "cpu_machine [0x05, 0x10, 0xA0, 0xE3, 0x02, 0x20, 0x81, 0xE1]"
  have "case isa_run (isa_of ?p) [Step, Step] of Inl e \<Rightarrow> False | Inr s \<Rightarrow> isa_reg s 1 = 5 \<and> isa_reg s 2 = 5"
    unfolding isa_of_cpu_machine by code_simp
  moreover have "map_sum id isa_of (exec be_host ?p [Step, Step]) = isa_run (isa_of ?p) [Step, Step]"
    using isa_refinement[of ?p be_host "[Step, Step]"] by (simp add: sys_core_cpu_machine host_shl32_instances)
  ultimately show ?thesis
    by (cases "exec be_host ?p [Step, Step]") (auto simp: isa_abs split: sum.splits)
qed

end
