(* ===== verification/Programs.thy ===== *)
theory Programs
  imports Registers Memory "HOL-Library.Multiset"
begin

text \<open>
  The small programs of the repository: the tests \<^verbatim>\<open>memory_test.c\<close> and \<^verbatim>\<open>registers_test.c\<close>, as the list of
  their verdicts, and \<^verbatim>\<open>Examples/insertion_sort.c\<close>, an example to run in the simulator.
\<close>

section \<open>Insertion sort\<close>

text \<open>\<open>sink t j\<close> is the inner loop from the index \<open>j\<close>: it goes down to 0 and exchanges neighbours that are out of
  order, without leaving early.\<close>

fun sink :: "int list \<Rightarrow> nat \<Rightarrow> int list" where
  "sink t 0 = t"
| "sink t (Suc j) = sink (if t ! j > t ! Suc j then t[j := t ! Suc j, Suc j := t ! j] else t) j"

definition insertion_sort :: "int list \<Rightarrow> int list" where
  "insertion_sort t = foldl sink t [0..<length t]"

definition insertion_sort_table :: "int list" where
  "insertion_sort_table = [3, 6, 2, 0, 4, 1, 9, 8, 5, 7]"

lemma insort_snoc:
  "sorted (xs @ [y]) \<Longrightarrow> insort x (xs @ [y]) = (if x < y then insort x xs @ [y] else xs @ [y, x])" for x y :: int
proof -
  assume s: "sorted (xs @ [y])"
  let ?r = "if x < y then insort x xs @ [y] else xs @ [y, x]"
  have "sort (insort x (xs @ [y])) = ?r"
    using s by (intro properties_for_sort) (auto simp: sorted_append sorted_insort set_insort_key)
  moreover have "sort (insort x (xs @ [y])) = insort x (xs @ [y])" using s by (simp add: sorted_insort sorted_sort_id)
  ultimately show ?thesis by simp
qed

lemma sink_eq:
  "sorted (take j t) \<Longrightarrow> j < length t \<Longrightarrow> sink t j = insort (t ! j) (take j t) @ drop (Suc j) t"
proof (induction j arbitrary: t)
  case 0
  then show ?case by (cases t) simp_all
next
  case (Suc j)
  let ?xs = "take j t" and ?y = "t ! j" and ?x = "t ! Suc j"
  have up: "take (Suc j) t = ?xs @ [?y]" "drop (Suc j) t = ?x # drop (Suc (Suc j)) t"
    using Suc.prems(2) by (simp_all add: take_Suc_conv_app_nth Cons_nth_drop_Suc)
  then have s: "sorted (?xs @ [?y])" using Suc.prems(1) by simp
  show ?case
  proof (cases "?y > ?x")
    case True
    let ?t = "t[j := ?x, Suc j := ?y]"
    have "take j ?t = ?xs" "?t ! j = ?x" "drop (Suc j) ?t = ?y # drop (Suc (Suc j)) t"
      using Suc.prems(2) by (simp_all add: Cons_nth_drop_Suc[symmetric])
    then show ?thesis using Suc.IH[of ?t] Suc.prems(2) s True insort_snoc[OF s, of ?x] by (simp add: up sorted_append)
  next
    case False
    then show ?thesis
      using Suc.IH[of t] Suc.prems(2) s insort_snoc[OF s, of ?x] sorted_insort_is_snoc[of ?xs ?y] by (simp add: up sorted_append)
  qed
qed

lemma sort_snoc: "sort (xs @ [x]) = insort x (sort xs)" for x :: int
  by (rule properties_for_sort) (simp_all add: sorted_insort)

lemma insertion_sort_prefix: "k \<le> length t \<Longrightarrow> foldl sink t [0..<k] = sort (take k t) @ drop k t"
proof (induction k)
  case (Suc k)
  let ?u = "sort (take k t) @ drop k t"
  have "take k ?u = sort (take k t)" "drop (Suc k) ?u = drop (Suc k) t" "?u ! k = t ! k" using Suc.prems by (simp_all add: nth_append)
  then show ?case using Suc sink_eq[of k ?u] by (simp add: take_Suc_conv_app_nth sort_snoc)
qed simp

section \<open>The memory test\<close>

text \<open>\<open>compare_c a b size reverse\<close> compares the bytes of two variables.\<close>

definition compare_c :: "u8 list \<Rightarrow> u8 list \<Rightarrow> nat \<Rightarrow> bool \<Rightarrow> bool" where
  "compare_c a b sz reverse = list_all (\<lambda>i. a ! i = b ! (if reverse then sz - 1 - i else i)) [0..<sz]"

text \<open>The loop of \<^verbatim>\<open>compare_with_sim\<close> over the indices \<open>is\<close>; \<open>value\<close> keeps its content when a read fails.\<close>

fun compare_sim_loop :: "u8 list \<Rightarrow> memory_data \<Rightarrow> nat \<Rightarrow> bool \<Rightarrow> u8 \<Rightarrow> nat list \<Rightarrow> bool outcome" where
  "compare_sim_loop a m sz reverse val [] = Inr True"
| "compare_sim_loop a m sz reverse val (i # is) =
     bnd (memory_read_byte m (of_nat (if reverse then sz - 1 - i else i))) (\<lambda>r.
       let val = (case r of None \<Rightarrow> val | Some v \<Rightarrow> v)
       in if a ! i \<noteq> val then Inr False else compare_sim_loop a m sz reverse val is)"

definition compare_with_sim :: "u8 list \<Rightarrow> memory_data \<Rightarrow> nat \<Rightarrow> bool \<Rightarrow> u8 \<Rightarrow> bool outcome" where
  "compare_with_sim a m sz reverse val = compare_sim_loop a m sz reverse val [0..<sz]"

definition keep :: "'a \<Rightarrow> 'a option outcome \<Rightarrow> 'a outcome" where
  "keep old r = bnd r (\<lambda>r. Inr (case r of None \<Rightarrow> old | Some v \<Rightarrow> v))"

text \<open>The verdicts of \<^verbatim>\<open>main\<close>.  \<open>same\<close> and \<open>other\<close> are \<^verbatim>\<open>m[is_big_endian()]\<close> and \<^verbatim>\<open>m[1-is_big_endian()]\<close>; what is
  not yet written is a parameter.\<close>

definition memory_test :: "host \<Rightarrow> u8 list \<Rightarrow> u8 list \<Rightarrow> u32 \<Rightarrow> u16 \<Rightarrow> u8 \<Rightarrow> bool list outcome" where
  "memory_test h raw0 raw1 word_read half_read val =
    (let word_value = (0x11223344 :: u32); half_value = (0x5566 :: u16);
         position = host_bytes h 4 word_value; halfs = host_bytes h 2 half_value
     in bnd (for_out [0..<4] (\<lambda>i m. keep m (memory_write_byte m (of_nat i) (position ! i))) (memory_create 4 0 raw0)) (\<lambda>m0.
        bnd (for_out [0..<4] (\<lambda>i m. keep m (memory_write_byte m (of_nat i) (position ! i))) (memory_create 4 1 raw1)) (\<lambda>m1.
        let same = (if is_big_endian h = 1 then m1 else m0); other = (if is_big_endian h = 1 then m0 else m1)
        in bnd (keep word_read (memory_read_word h same 0)) (\<lambda>w1.
           bnd (keep half_read (memory_read_half h same 0)) (\<lambda>h1.
           bnd (keep w1 (memory_read_word h other 0)) (\<lambda>w2.
           bnd (keep h1 (memory_read_half h other 0)) (\<lambda>h2.
           bnd (keep same (memory_write_word h same 0 word_value)) (\<lambda>same.
           bnd (compare_with_sim position same 4 False val) (\<lambda>t5.
           bnd (keep same (memory_write_half h same 0 half_value)) (\<lambda>same.
           bnd (compare_with_sim halfs same 2 False val) (\<lambda>t6.
           bnd (keep other (memory_write_word h other 0 word_value)) (\<lambda>other.
           bnd (compare_with_sim position other 4 True val) (\<lambda>t7.
           bnd (keep other (memory_write_half h other 0 half_value)) (\<lambda>other.
           bnd (compare_with_sim halfs other 2 True val) (\<lambda>t8.
           Inr [compare_c position (host_bytes h 4 w1) 4 False, compare_c position (host_bytes h 2 h1) 2 False,
                compare_c position (host_bytes h 4 w2) 4 True, compare_c position (host_bytes h 2 h2) 2 True,
                t5, t6, t7, t8])))))))))))))))"

section \<open>The register test\<close>

abbreviation (input) NB_UNBANKED_REGS :: nat where "NB_UNBANKED_REGS \<equiv> 8"

definition get_mode_from_num :: "nat \<Rightarrow> u8" where
  "get_mode_from_num num =
     (if num = 0 then USR else if num = 1 then FIQ else if num = 2 then IRQ else if num = 3 then SVC
      else if num = 4 then ABT else if num = 5 then UND else SYS)"

text \<open>The loop that occurs four times: \<open>bad i j k v w\<close> is the condition of the message, for the register \<open>i\<close> with the
  value \<open>v\<close> in the mode \<open>j\<close> and \<open>w\<close> in the later mode \<open>k\<close>.  The result is the register bank, whose mode has changed,
  and the number of messages so far.\<close>

definition mode_pairs ::
    "(nat \<Rightarrow> nat \<Rightarrow> u32 \<Rightarrow> u32 \<Rightarrow> bool) \<Rightarrow> nat \<Rightarrow> nat list \<Rightarrow> nat \<Rightarrow> registers_data \<times> nat \<Rightarrow> (registers_data \<times> nat) outcome" where
  "mode_pairs bad i js ks s =
     for_out js (\<lambda>j (r, n).
       let r = r\<lparr>mode := get_mode_from_num j\<rparr>
       in bnd (read_register r (of_nat i)) (\<lambda>v.
          for_out [Suc j..<ks] (\<lambda>k (r, n).
            let r = r\<lparr>mode := get_mode_from_num k\<rparr>
            in bnd (read_register r (of_nat i)) (\<lambda>w. Inr (r, if bad j k v w then n + 1 else n))) (r, n))) s"

definition registers_test :: "registers_data \<Rightarrow> nat outcome" where
  "registers_test raw =
    (let r = registers_create raw;
         r = r\<lparr>registers := map of_nat [0..<NB_PHYS_REGS]\<rparr>
     in bnd (for_out [0..<NB_UNBANKED_REGS] (\<lambda>i. mode_pairs (\<lambda>j k v w. w \<noteq> v) i [0..<NB_MODES] NB_MODES) (r, 0)) (\<lambda>s.
        bnd (for_out [NB_UNBANKED_REGS..<NB_UNBANKED_REGS + NB_2BANKED_REGS]
          (\<lambda>i. mode_pairs (\<lambda>j k v w. w \<noteq> v \<and> get_mode_from_num j \<noteq> FIQ \<and> get_mode_from_num k \<noteq> FIQ) i [0..<NB_MODES] NB_MODES) s) (\<lambda>s.
        bnd (for_out [NB_UNBANKED_REGS + NB_2BANKED_REGS..<NB_UNBANKED_REGS + NB_2BANKED_REGS + NB_6BANKED_REGS]
          (\<lambda>i. mode_pairs (\<lambda>j k v w. w = v \<and> (get_mode_from_num j \<noteq> USR \<or> get_mode_from_num k \<noteq> SYS)) i [0..<NB_MODES] NB_MODES) s) (\<lambda>s.
        bnd (for_out [NB_UNBANKED_REGS + NB_2BANKED_REGS + NB_6BANKED_REGS..<17]
          (\<lambda>i. mode_pairs (\<lambda>j k v w. w \<noteq> v) i [0..<NB_MODES] NB_MODES) s) (\<lambda>s.
        bnd (for_out [0..<NB_MODES] (\<lambda>j (r, n).
          let r = r\<lparr>mode := get_mode_from_num j\<rparr>
          in bnd (current_mode_has_spsr r) (\<lambda>b.
             Inr (r, if b \<and> (mode r = USR \<or> mode r = SYS) then n + 1 else n))) s) (\<lambda>s.
        bnd (mode_pairs (\<lambda>j k v w. w = v) 17 [1..<6] 6 s) (\<lambda>(r, n).
        Inr n)))))))"

section \<open>Evaluation of the tests\<close>

lemma memory_test_host:
  assumes "length raw0 = 4" "length raw1 = 4"
  shows "memory_test \<lparr>host_big = b, over_shl = f, over_shr = g\<rparr> raw0 raw1 wr hr val = Inr (replicate 8 True)"
proof -
  obtain a0 a1 a2 a3 where r0: "raw0 = [a0, a1, a2, a3]" using assms(1) by (auto simp: length_Suc_conv numeral_eq_Suc)
  obtain b0 b1 b2 b3 where r1: "raw1 = [b0, b1, b2, b3]" using assms(2) by (auto simp: length_Suc_conv numeral_eq_Suc)
  show ?thesis unfolding r0 r1 by (cases b; simp only:; code_simp)
qed

text \<open>In the register test every physical register holds its own number, and no message is printed as long as the
  numbers behind two modes are as they should be.\<close>

definition quiet :: "registers_data \<times> nat \<Rightarrow> bool" where
  "quiet s \<longleftrightarrow> wf_registers (fst s) \<and> registers (fst s) = map of_nat [0..<NB_PHYS_REGS] \<and> snd s = 0"

lemma modes_less: "m < 7 \<longleftrightarrow> m \<in> {0, 1, 2, 3, 4, 5, 6 :: nat}"
  by auto

lemma get_mode_num_from: "m < NB_MODES \<Longrightarrow> get_mode_num (r\<lparr>mode := get_mode_from_num m\<rparr>) = m"
  by (auto simp: modes_less get_mode_num_def get_mode_from_num_def)

lemma quiet_mode: "quiet (r, n) \<Longrightarrow> quiet (r\<lparr>mode := x\<rparr>, n)"
  by (simp add: quiet_def wf_registers_def)

lemma quiet_read:
  assumes "quiet (r, n)" "m < NB_MODES" "i < NB_VIRT_REGS" "bank m i = Some b"
  shows "read_register (r\<lparr>mode := get_mode_from_num m\<rparr>) (of_nat i) = Inr (of_nat b)"
proof -
  have "unat (of_nat i :: u8) = i" using assms(3) by (simp add: unsigned_of_nat take_bit_nat_eq_self)
  then show ?thesis
    using quiet_mode[OF assms(1), of "get_mode_from_num m"] assms(2-4) bank_less[OF assms(2-4)]
    by (simp add: read_register_def get_mode_num_from deref_eq quiet_def)
qed

lemma mode_pairs_quiet:
  assumes "quiet s" "i < NB_VIRT_REGS" "ks \<le> NB_MODES" "\<forall>j \<in> set js. j < ks"
    and "\<And>j k. j \<in> set js \<Longrightarrow> j \<le> k \<Longrightarrow> k < ks \<Longrightarrow> bank k i \<noteq> None"
    and "\<And>j k. j \<in> set js \<Longrightarrow> j < k \<Longrightarrow> k < ks \<Longrightarrow> \<not> bad j k (of_nat (the (bank j i))) (of_nat (the (bank k i)))"
  shows "returns (mode_pairs bad i js ks s) quiet"
  unfolding mode_pairs_def
proof (rule returns_for_out[where P = quiet, OF assms(1)])
  fix j s assume j: "j \<in> set js" and s: "quiet s"
  obtain r n where rn: "s = (r, n)" by (cases s)
  have r: "read_register (r'\<lparr>mode := get_mode_from_num k\<rparr>) (of_nat i) = Inr (of_nat (the (bank k i)))"
    if "quiet (r', n')" "j \<le> k" "k < ks" for r' n' k
    using quiet_read[OF that(1), of k i] assms(2,3) assms(5)[OF j that(2,3)] that(3) by auto
  show "returns ((\<lambda>(r, n). let r = r\<lparr>mode := get_mode_from_num j\<rparr>
       in bnd (read_register r (of_nat i)) (\<lambda>v.
          for_out [Suc j..<ks] (\<lambda>k (r, n).
            let r = r\<lparr>mode := get_mode_from_num k\<rparr>
            in bnd (read_register r (of_nat i)) (\<lambda>w. Inr (r, if bad j k v w then n + 1 else n))) (r, n))) s) quiet"
    using s r[of r n j] assms(4) j rn quiet_mode assms(6)[OF j]
    by (auto simp: Let_def r intro!: returns_for_out[where P = quiet])
qed

lemma quiet_spsr:
  assumes "quiet s" "j < NB_MODES"
  shows "returns ((\<lambda>(r, n). let r = r\<lparr>mode := get_mode_from_num j\<rparr>
      in bnd (current_mode_has_spsr r) (\<lambda>b. Inr (r, if b \<and> (mode r = USR \<or> mode r = SYS) then n + 1 else n))) s) quiet"
proof -
  obtain r n where rn: "s = (r, n)" by (cases s)
  have "get_mode_from_num j = USR \<or> get_mode_from_num j = SYS \<Longrightarrow> j = 0 \<or> j = 6"
    using assms(2) by (auto simp: modes_less get_mode_from_num_def split: if_splits)
  then show ?thesis
    using quiet_mode[of r n "get_mode_from_num j"] assms rn
    by (auto simp: Let_def spsr_eq(3) get_mode_num_from quiet_def)
qed

lemma mode_from_iff:
  assumes "j < 7"
  shows "get_mode_from_num j = FIQ \<longleftrightarrow> j = 1" "get_mode_from_num j = USR \<longleftrightarrow> j = 0" "get_mode_from_num j = SYS \<longleftrightarrow> j = 6"
  using assms by (auto simp: modes_less get_mode_from_num_def)

lemma of_nat_bank: "a < 37 \<Longrightarrow> b < 37 \<Longrightarrow> (of_nat a :: u32) = of_nat b \<longleftrightarrow> a = b"
  by (auto simp: word_unat_eq_iff unsigned_of_nat take_bit_nat_eq_self)

lemma returns_seq: "returns m Q \<Longrightarrow> (\<And>x. Q x \<Longrightarrow> returns (f x) P) \<Longrightarrow> returns (bnd m f) P"
  by (auto simp: returns_bnd intro: returns_mono)

lemma registers_test_quiet:
  assumes "raw_registers raw"
  shows "returns (registers_test raw) (\<lambda>n. n = 0)"
proof -
  let ?r = "(registers_create raw)\<lparr>registers := map of_nat [0..<NB_PHYS_REGS]\<rparr>"
  have start: "quiet (?r, 0)" using wf_registers_create[OF assms] by (simp add: quiet_def wf_registers_def)
  have same: "returns (mode_pairs (\<lambda>j k v w. w \<noteq> v) i [0..<NB_MODES] NB_MODES s) quiet" if "quiet s" "i < 8 \<or> i = 15 \<or> i = 16" for s i
    using that by (intro mode_pairs_quiet) (auto simp: bank_def)
  have two: "returns (mode_pairs (\<lambda>j k v w. w \<noteq> v \<and> get_mode_from_num j \<noteq> FIQ \<and> get_mode_from_num k \<noteq> FIQ) i
      [0..<NB_MODES] NB_MODES s) quiet" if "quiet s" "8 \<le> i" "i < 13" for s i
    using that by (intro mode_pairs_quiet) (auto simp: bank_def mode_from_iff)
  have six: "returns (mode_pairs (\<lambda>j k v w. w = v \<and> (get_mode_from_num j \<noteq> USR \<or> get_mode_from_num k \<noteq> SYS)) i
      [0..<NB_MODES] NB_MODES s) quiet" if "quiet s" "13 \<le> i" "i < 15" for s i
    using that by (intro mode_pairs_quiet) (auto simp: bank_def mode_from_iff of_nat_bank simp del: of_nat_add of_nat_mult split: if_splits)
  have spsr: "returns (mode_pairs (\<lambda>j k v w. w = v) 17 [1..<6] 6 s) quiet" if "quiet s" for s
    using that by (intro mode_pairs_quiet) (auto simp: bank_def of_nat_bank)
  show ?thesis
    unfolding registers_test_def Let_def
    by (intro returns_seq[where Q = quiet] returns_for_out[where P = quiet] start same two six quiet_spsr[unfolded Let_def] spsr)
      (auto simp: quiet_def)
qed

definition raw_test :: registers_data where
  "raw_test = \<lparr>mode = 0, registers = replicate 37 0, virtual_regs = replicate 126 None\<rparr>"

lemma raw_test_ok: "raw_registers raw_test"
  by (simp add: raw_registers_def raw_test_def)

section \<open>Properties\<close>

text \<open>The tests of the repository.  On every host and whatever fresh storage holds, each of the eight checks of the
  memory test succeeds, and the register test prints no error.\<close>

theorem tests_succeed:
  assumes "length raw0 = 4" and "length raw1 = 4" and "raw_registers raw"
  shows "memory_test h raw0 raw1 word_read half_read val = Inr (replicate 8 True) \<and> registers_test raw = Inr 0"
proof
  show "memory_test h raw0 raw1 word_read half_read val = Inr (replicate 8 True)"
    using memory_test_host[OF assms(1,2)] by (cases h) (metis (full_types))
  show "registers_test raw = Inr 0"
    using registers_test_quiet[OF assms(3)] by (simp add: returns_def)
qed

theorem tests_succeed_witness:
  "memory_test be_host [1, 2, 3, 4] [5, 6, 7, 8] 0 0 0 = Inr (replicate 8 True) \<and> registers_test raw_test = Inr 0"
  using tests_succeed[of "[1, 2, 3, 4]" "[5, 6, 7, 8]" raw_test be_host 0 0 0] raw_test_ok by simp

text \<open>The example.  The two loops of \<^verbatim>\<open>insertion_sort.c\<close> sort every array, though the inner one never stops early; the
  table of the program becomes 0 to 9.\<close>

theorem insertion_sort_correct:
  "insertion_sort t = sort t \<and> mset (insertion_sort t) = mset t \<and> insertion_sort insertion_sort_table = [0..9]"
proof -
  have eq: "insertion_sort t = sort t" for t using insertion_sort_prefix[of "length t" t] by (simp add: insertion_sort_def)
  have "sort insertion_sort_table = [0..9]" by code_simp
  then show ?thesis by (simp add: eq)
qed

end
