(* ===== verification/C_Strings.thy ===== *)
theory C_Strings
  imports Memory
begin

text \<open>
  What the sources use of the C library on character arrays: strings that end at a zero byte,
  \<^verbatim>\<open>sprintf\<close> with \<^verbatim>\<open>%02x\<close>, \<^verbatim>\<open>sscanf\<close> with \<^verbatim>\<open>%x\<close> and a width, and \<^verbatim>\<open>atoi\<close>.  Characters are bytes.  A number
  that does not fit is treated as the GNU library does: it saturates at 64 bits and is then cut
  to 32 bits.
\<close>

section \<open>Strings\<close>

definition ascii :: "string \<Rightarrow> u8 list" where
  "ascii s = map of_char s"

text \<open>The string that starts at a byte of memory.\<close>

definition cstr :: "u8 list \<Rightarrow> u8 list" where
  "cstr bs = takeWhile (\<lambda>b. b \<noteq> 0) bs"

text \<open>Reading a string at an offset of an array whose end is known.\<close>

definition cstr_at :: "u8 list \<Rightarrow> nat \<Rightarrow> u8 list outcome" where
  "cstr_at bs k = (if k < length bs then Inr (cstr (drop k bs)) else Inl Out_Of_Bounds)"

section \<open>Hexadecimal digits\<close>

definition hex_digit :: "nat \<Rightarrow> u8" where
  "hex_digit n = (if n < 10 then of_nat (48 + n) else of_nat (87 + n))"

definition hex2 :: "u8 \<Rightarrow> u8 list" where
  "hex2 v = [hex_digit (unat v div 16), hex_digit (unat v mod 16)]"

definition digit_value :: "u8 \<Rightarrow> nat option" where
  "digit_value c =
     (if 48 \<le> c \<and> c \<le> 57 then Some (unat c - 48)
      else if 97 \<le> c \<and> c \<le> 102 then Some (unat c - 87)
      else if 65 \<le> c \<and> c \<le> 70 then Some (unat c - 55)
      else None)"

definition is_space :: "u8 \<Rightarrow> bool" where
  "is_space c \<longleftrightarrow> c = 32 \<or> (9 \<le> c \<and> c \<le> 13)"

definition digits_value :: "nat \<Rightarrow> u8 list \<Rightarrow> nat" where
  "digits_value base ds = foldl (\<lambda>n c. n * base + the (digit_value c)) 0 ds"

text \<open>A saturating 64-bit conversion, with its sign, cut to 32 bits.\<close>

definition to_u32 :: "bool \<Rightarrow> nat \<Rightarrow> u32" where
  "to_u32 neg n = (let v = of_nat (min n (2 ^ 64 - 1)) in if neg then - v else v)"

section \<open>sscanf and atoi\<close>

definition split_sign :: "u8 list \<Rightarrow> bool \<times> u8 list" where
  "split_sign s = (case s of c # cs \<Rightarrow> if c = 45 then (True, cs) else if c = 43 then (False, cs) else (False, s)
     | [] \<Rightarrow> (False, []))"

definition skip_0x :: "u8 list \<Rightarrow> u8 list" where
  "skip_0x s = (case s of a # b # cs \<Rightarrow> if a = 48 \<and> (b = 120 \<or> b = 88) then cs else s | _ \<Rightarrow> s)"

text \<open>\<^verbatim>\<open>%x\<close> with a maximal width: the value and the rest of the input, or a matching failure.\<close>

definition sscanf_x :: "nat \<Rightarrow> u8 list \<Rightarrow> (u32 \<times> u8 list) option" where
  "sscanf_x width s =
    (let s = dropWhile is_space s; field = take width s;
         (neg, f1) = split_sign field; f2 = skip_0x f1;
         ds = takeWhile (\<lambda>c. digit_value c \<noteq> None) f2
     in if ds = [] then None
        else Some (to_u32 neg (digits_value 16 ds), drop (length field - length f2 + length ds) s))"

text \<open>\<^verbatim>\<open>sscanf(data, "%x", &v)\<close> without a width, and \<^verbatim>\<open>"%x,%x"\<close>: a variable that is not assigned keeps its
  value, which is a parameter.\<close>

definition scan_x :: "u32 \<Rightarrow> u8 list \<Rightarrow> u32" where
  "scan_x old s = (case sscanf_x (length s) s of None \<Rightarrow> old | Some (v, r) \<Rightarrow> v)"

definition scan_x_x :: "u32 \<times> u32 \<Rightarrow> u8 list \<Rightarrow> u32 \<times> u32" where
  "scan_x_x old s =
     (case sscanf_x (length s) s of
        None \<Rightarrow> old
      | Some (v, r) \<Rightarrow> (v, case r of c # cs \<Rightarrow> if c = 44 then scan_x (snd old) cs else snd old | [] \<Rightarrow> snd old))"

text \<open>\<^verbatim>\<open>atoi\<close> is \<^verbatim>\<open>strtol\<close>, which saturates at the bounds of 64 bits with sign, cut to \<^verbatim>\<open>int\<close>.\<close>

definition strtol_value :: "bool \<Rightarrow> nat \<Rightarrow> int" where
  "strtol_value neg n = (if neg then max (- (2 ^ 63)) (- int n) else min (2 ^ 63 - 1) (int n))"

definition atoi :: "u8 list \<Rightarrow> u32" where
  "atoi s =
    (let (neg, s) = split_sign (dropWhile is_space s)
     in of_int (strtol_value neg (digits_value 10 (takeWhile (\<lambda>c. 48 \<le> c \<and> c \<le> 57) s))))"

section \<open>Lemmas\<close>

lemma hex_table:
  "\<forall>n \<in> set [0..<16]. digit_value (hex_digit n) = Some n \<and> \<not> is_space (hex_digit n)
     \<and> hex_digit n \<noteq> 45 \<and> hex_digit n \<noteq> 43 \<and> hex_digit n \<noteq> 120 \<and> hex_digit n \<noteq> 88 \<and> hex_digit n \<noteq> 0"
  by code_simp

lemma digit_value_hex_digit: "n < 16 \<Longrightarrow> digit_value (hex_digit n) = Some n"
  using hex_table by simp

lemma hex_digit_plain:
  "n < 16 \<Longrightarrow> \<not> is_space (hex_digit n) \<and> hex_digit n \<noteq> 45 \<and> hex_digit n \<noteq> 43
     \<and> hex_digit n \<noteq> 120 \<and> hex_digit n \<noteq> 88 \<and> hex_digit n \<noteq> 0"
  using hex_table by simp

lemma length_hex2 [simp]: "length (hex2 v) = 2"
  by (simp add: hex2_def)

lemma hex2_nibbles: "unat (v :: u8) div 16 < 16" "unat (v :: u8) mod 16 < 16"
  using unsigned_less[of v, where 'a = nat] by simp_all

lemma hex2_nonzero: "0 \<notin> set (hex2 v)"
  using hex_digit_plain[OF hex2_nibbles(1)[of v]] hex_digit_plain[OF hex2_nibbles(2)[of v]]
  by (auto simp: hex2_def)

text \<open>Reading back two hexadecimal digits.\<close>

lemma sscanf_hex2: "sscanf_x 2 (hex2 v @ r) = Some (ucast v, r)"
proof -
  have "unat v div 16 * 16 + unat v mod 16 = unat v" by simp
  then have "to_u32 False (unat v div 16 * 16 + unat v mod 16) = ucast v"
    by (simp add: to_u32_def Let_def min_def order.strict_implies_order[OF less_trans[OF unsigned_less]]
        flip: unsigned_of_nat)
  then show ?thesis
    using hex_digit_plain[OF hex2_nibbles(1)[of v]] hex_digit_plain[OF hex2_nibbles(2)[of v]]
      digit_value_hex_digit[OF hex2_nibbles(1)[of v]] digit_value_hex_digit[OF hex2_nibbles(2)[of v]]
    by (simp add: sscanf_x_def hex2_def split_sign_def skip_0x_def digits_value_def)
qed

lemma cstr_append: "0 \<notin> set s \<Longrightarrow> cstr (s @ r) = s @ cstr r"
  unfolding cstr_def by (subst takeWhile_append2) auto

lemma cstr_Cons [simp]: "cstr (c # s) = (if c = 0 then [] else c # cstr s)"
  by (simp add: cstr_def)

end
