(* ===== verification/Rio.thy ===== *)
theory Rio
  imports Memory C_Strings
begin

text \<open>
  The robust I/O functions of \<^verbatim>\<open>csapp.c\<close>, with the error function and the wrapper \<^verbatim>\<open>Read\<close>.  The system calls
  \<^verbatim>\<open>read\<close> and \<^verbatim>\<open>write\<close> are parameters, functions on a system state; a loop that does not end is \<open>None\<close>.

  The unbuffered and the buffered reader run the same loop over two sources of bytes, \<^verbatim>\<open>read\<close> itself and \<^verbatim>\<open>rio_read\<close>.
  The locale \<open>byte_source\<close> is what the loops rely on, a stream of bytes that is consumed from the front;
  both sources are interpretations of it.
\<close>

section \<open>System calls and error exits\<close>

text \<open>The result of a call that reads at most one byte: the byte, the end of the stream, or an error.\<close>

datatype read_result =
    Byte u8
  | End_Of_File
  | Read_Error

definition unix_error :: "'a outcome" where
  "unix_error = Inl (Exit 0)"

definition Read :: "read_result \<Rightarrow> u8 option outcome" where
  "Read r = (case r of Byte b \<Rightarrow> Inr (Some b) | End_Of_File \<Rightarrow> Inr None | Read_Error \<Rightarrow> unix_error)"

text \<open>\<^verbatim>\<open>write\<close> gives a count or an error number, \<^verbatim>\<open>read\<close> of at most \<open>n\<close> bytes gives them or an error number; the
  empty list is the end of the stream.  \<open>err\<close> is \<^verbatim>\<open>errno\<close>, which a call that succeeds leaves alone.\<close>

type_synonym 'os sys_write = "'os \<Rightarrow> u8 list \<Rightarrow> (int + nat) \<times> 'os"
type_synonym 'os sys_read = "'os \<Rightarrow> nat \<Rightarrow> (int + u8 list) \<times> 'os"

abbreviation (input) EINTR :: int where "EINTR \<equiv> 4"

section \<open>Writing\<close>

partial_function (option) rio_writen_loop ::
    "'os sys_write \<Rightarrow> 'os \<Rightarrow> int \<Rightarrow> u8 list \<Rightarrow> (bool \<times> 'os \<times> int) option" where
  "rio_writen_loop write os err bufp =
     (if bufp = [] then Some (True, os, err)
      else case write os bufp of
          (Inl e, os) \<Rightarrow> if e = EINTR then rio_writen_loop write os e bufp else Some (False, os, e)
        | (Inr n, os) \<Rightarrow>
            if n = 0 then if err = EINTR then rio_writen_loop write os err bufp else Some (False, os, err)
            else rio_writen_loop write os err (drop n bufp))"

definition Rio_writen :: "'os sys_write \<Rightarrow> 'os \<Rightarrow> int \<Rightarrow> u8 list \<Rightarrow> ('os \<times> int) outcome option" where
  "Rio_writen write os err buf =
     (case rio_writen_loop write os err buf of
        None \<Rightarrow> None
      | Some (ok, os, err) \<Rightarrow> Some (if ok then Inr (os, err) else unix_error))"

section \<open>Reading\<close>

text \<open>A source of bytes: from a state and a count the bytes, none at the end of the stream, or \<open>None\<close> for the
  result \<open>-1\<close>.\<close>

type_synonym 's source = "'s \<Rightarrow> nat \<Rightarrow> (u8 list option \<times> 's) option"

text \<open>The loop of \<^verbatim>\<open>rio_readn\<close> and \<^verbatim>\<open>rio_readnb\<close>; \<open>got\<close> is what \<^verbatim>\<open>usrbuf\<close> holds.\<close>

partial_function (option) read_loop ::
    "'s source \<Rightarrow> ('s \<Rightarrow> int) \<Rightarrow> 's \<Rightarrow> nat \<Rightarrow> u8 list \<Rightarrow> (u8 list option \<times> 's) option" where
  "read_loop get errno s nleft got =
     (if nleft = 0 then Some (Some got, s)
      else case get s nleft of
          None \<Rightarrow> None
        | Some (None, s) \<Rightarrow> if errno s = EINTR then read_loop get errno s nleft got else Some (None, s)
        | Some (Some bs, s) \<Rightarrow>
            if bs = [] then Some (Some got, s) else read_loop get errno s (nleft - length bs) (got @ bs))"

definition unix_read :: "'os sys_read \<Rightarrow> ('os \<times> int) source" where
  "unix_read read = (\<lambda>(os, err) n.
     case read os n of (Inl e, os) \<Rightarrow> Some (None, os, e) | (Inr bs, os) \<Rightarrow> Some (Some bs, os, err))"

definition rio_readn :: "'os sys_read \<Rightarrow> 'os \<times> int \<Rightarrow> nat \<Rightarrow> (u8 list option \<times> 'os \<times> int) option" where
  "rio_readn read s n = read_loop (unix_read read) snd s n []"

text \<open>The buffered reader.  \<open>rio_pos\<close> is the offset of \<^verbatim>\<open>rio_bufptr\<close> in \<^verbatim>\<open>rio_buf\<close>.\<close>

abbreviation (input) RIO_BUFSIZE :: nat where "RIO_BUFSIZE \<equiv> 8192"

record rio_t =
  rio_cnt :: int
  rio_pos :: nat
  rio_buf :: "u8 list"

definition rio_readinitb :: "u8 list \<Rightarrow> rio_t" where
  "rio_readinitb raw = \<lparr>rio_cnt = 0, rio_pos = 0, rio_buf = raw\<rparr>"

text \<open>The loop of \<^verbatim>\<open>rio_read\<close> that refills the buffer; its result is \<open>-1\<close> or 0 if the function returns there, and
  1 if it goes on.\<close>

partial_function (option) rio_fill ::
    "'os sys_read \<Rightarrow> rio_t \<Rightarrow> 'os \<Rightarrow> int \<Rightarrow> (int \<times> rio_t \<times> 'os \<times> int) option" where
  "rio_fill read rp os err =
     (if rio_cnt rp \<le> 0 then
        case read os RIO_BUFSIZE of
          (Inl e, os) \<Rightarrow>
            if e \<noteq> EINTR then Some (- 1, rp\<lparr>rio_cnt := - 1\<rparr>, os, e) else rio_fill read (rp\<lparr>rio_cnt := - 1\<rparr>) os e
        | (Inr bs, os) \<Rightarrow>
            if bs = [] then Some (0, rp\<lparr>rio_cnt := 0\<rparr>, os, err)
            else rio_fill read (rp\<lparr>rio_cnt := int (length bs), rio_buf := splice (rio_buf rp) 0 bs, rio_pos := 0\<rparr>) os err
      else Some (1, rp, os, err))"

definition rio_read :: "'os sys_read \<Rightarrow> (rio_t \<times> 'os \<times> int) source" where
  "rio_read read = (\<lambda>(rp, os, err) n.
     case rio_fill read rp os err of
       None \<Rightarrow> None
     | Some (r, rp, os, err) \<Rightarrow>
         if r < 0 then Some (None, rp, os, err)
         else if r = 0 then Some (Some [], rp, os, err)
         else let cnt = (if rio_cnt rp < int n then rio_cnt rp else int n)
              in Some (Some (take (nat cnt) (drop (rio_pos rp) (rio_buf rp))),
                   rp\<lparr>rio_pos := rio_pos rp + nat cnt, rio_cnt := rio_cnt rp - cnt\<rparr>, os, err))"

definition rio_readnb ::
    "'os sys_read \<Rightarrow> rio_t \<times> 'os \<times> int \<Rightarrow> nat \<Rightarrow> (u8 list option \<times> rio_t \<times> 'os \<times> int) option" where
  "rio_readnb read s n = read_loop (rio_read read) (\<lambda>(rp, os, err). err) s n []"

text \<open>The loop of \<^verbatim>\<open>rio_readlineb\<close> with \<open>k\<close> passes left: the result, what \<^verbatim>\<open>usrbuf\<close> holds, and the state.\<close>

fun readline_loop :: "'s source \<Rightarrow> nat \<Rightarrow> int \<Rightarrow> u8 list \<Rightarrow> 's \<Rightarrow> (int \<times> u8 list \<times> 's) option" where
  "readline_loop get 0 n got s = Some (n, got @ [0], s)"
| "readline_loop get (Suc k) n got s =
     (case get s 1 of
        None \<Rightarrow> None
      | Some (None, s) \<Rightarrow> Some (- 1, got, s)
      | Some (Some bs, s) \<Rightarrow>
          (case bs of
             [] \<Rightarrow> if n = 1 then Some (0, got, s) else Some (n, got @ [0], s)
           | c # _ \<Rightarrow> if c = 10 then Some (n, got @ [c, 0], s) else readline_loop get k (n + 1) (got @ [c]) s))"

definition rio_readlineb ::
    "'os sys_read \<Rightarrow> rio_t \<times> 'os \<times> int \<Rightarrow> nat \<Rightarrow> (int \<times> u8 list \<times> rio_t \<times> 'os \<times> int) option" where
  "rio_readlineb read s maxlen = readline_loop (rio_read read) (maxlen - 1) 1 [] s"

text \<open>The wrappers that end the process on an error.\<close>

definition Rio_readn :: "'os sys_read \<Rightarrow> 'os \<times> int \<Rightarrow> nat \<Rightarrow> (u8 list \<times> 'os \<times> int) outcome option" where
  "Rio_readn read s n = map_option (\<lambda>(r, s). case r of None \<Rightarrow> unix_error | Some bs \<Rightarrow> Inr (bs, s)) (rio_readn read s n)"

definition Rio_readinitb :: "u8 list \<Rightarrow> rio_t" where
  "Rio_readinitb raw = rio_readinitb raw"

definition Rio_readnb ::
    "'os sys_read \<Rightarrow> rio_t \<times> 'os \<times> int \<Rightarrow> nat \<Rightarrow> (u8 list \<times> rio_t \<times> 'os \<times> int) outcome option" where
  "Rio_readnb read s n = map_option (\<lambda>(r, s). case r of None \<Rightarrow> unix_error | Some bs \<Rightarrow> Inr (bs, s)) (rio_readnb read s n)"

definition Rio_readlineb ::
    "'os sys_read \<Rightarrow> rio_t \<times> 'os \<times> int \<Rightarrow> nat \<Rightarrow> (int \<times> u8 list \<times> rio_t \<times> 'os \<times> int) outcome option" where
  "Rio_readlineb read s maxlen =
     map_option (\<lambda>(rc, r). if rc < 0 then unix_error else Inr (rc, r)) (rio_readlineb read s maxlen)"

section \<open>What the loops rely on\<close>

text \<open>\<open>stream\<close> is what is still to come, \<open>errs\<close> the errors that can occur; interruptions in a row come to an end
  (\<open>patience\<close>).\<close>

definition source_ok ::
    "('s \<Rightarrow> u8 list) \<Rightarrow> int set \<Rightarrow> ('s \<Rightarrow> int) \<Rightarrow> ('s \<Rightarrow> nat) \<Rightarrow> 's \<Rightarrow> nat \<Rightarrow> u8 list option \<times> 's \<Rightarrow> bool" where
  "source_ok stream errs errno patience s n = (\<lambda>(r, s').
     case r of
       None \<Rightarrow> stream s' = stream s \<and> errno s' \<in> errs \<and> (errno s' = EINTR \<longrightarrow> patience s' < patience s)
     | Some bs \<Rightarrow> stream s = bs @ stream s' \<and> length bs \<le> n \<and> (bs = [] \<longrightarrow> stream s = []))"

text \<open>The line at the front of a stream, of at most \<open>k\<close> bytes, with its newline if that is among them.\<close>

fun line_of :: "nat \<Rightarrow> u8 list \<Rightarrow> u8 list" where
  "line_of 0 xs = []"
| "line_of (Suc k) [] = []"
| "line_of (Suc k) (x # xs) = (if x = 10 then [x] else x # line_of k xs)"

definition complete :: "u8 list \<Rightarrow> bool" where
  "complete l \<longleftrightarrow> l \<noteq> [] \<and> last l = 10"

locale byte_source =
  fixes get :: "'s source"
    and errno :: "'s \<Rightarrow> int"
    and stream :: "'s \<Rightarrow> u8 list"
    and errs :: "int set"
    and patience :: "'s \<Rightarrow> nat"
    and inv :: "'s \<Rightarrow> bool"
  assumes get_ok: "inv s \<Longrightarrow> 0 < n \<Longrightarrow> \<exists>r s'. get s n = Some (r, s') \<and> inv s' \<and> source_ok stream errs errno patience s n (r, s')"
begin

lemma read_loop_ok:
  "inv s \<Longrightarrow> \<exists>r s'. read_loop get errno s n got = Some (r, s') \<and> inv s'
    \<and> (case r of None \<Rightarrow> errno s' \<in> errs - {EINTR} | Some bs \<Rightarrow> bs = got @ take n (stream s) \<and> stream s' = drop n (stream s))"
proof (induction "(n, s)" arbitrary: n s got rule: wf_induct[OF wf_mlex[OF wf_measure], of "\<lambda>(n, s). n" "\<lambda>(n, s). patience s"])
  case 1
  note IH = this(1)[rule_format, OF _ refl] and inv = this(2)
  show ?case
  proof (cases "n = 0")
    case True
    then show ?thesis using inv by (subst read_loop.simps) simp
  next
    case False
    then obtain r s' where r: "get s n = Some (r, s')" "inv s'" "source_ok stream errs errno patience s n (r, s')"
      using get_ok[OF inv] by blast
    show ?thesis
    proof (cases r)
      case None
      show ?thesis
      proof (cases "errno s' = EINTR")
        case True
        then have "read_loop get errno s n got = read_loop get errno s' n got"
          using r(1) None False by (subst read_loop.simps) simp
        moreover have "stream s' = stream s" "patience s' < patience s"
          using r(3) None True by (simp_all add: source_ok_def)
        ultimately show ?thesis using IH[of n s' got] r(2) by (simp add: mlex_prod_def cong: option.case_cong)
      next
        case no: False
        then have "read_loop get errno s n got = Some (None, s')" using r(1) None False by (subst read_loop.simps) simp
        then show ?thesis using r(2,3) no None by (simp add: source_ok_def)
      qed
    next
      case (Some bs)
      then have bs: "stream s = bs @ stream s'" "length bs \<le> n" "bs = [] \<longrightarrow> stream s = []"
        using r(3) by (auto simp: source_ok_def)
      show ?thesis
      proof (cases "bs = []")
        case True
        then have "read_loop get errno s n got = Some (Some got, s')" using r(1) Some False by (subst read_loop.simps) simp
        then show ?thesis using r(2) bs True by simp
      next
        case ne: False
        then have "read_loop get errno s n got = read_loop get errno s' (n - length bs) (got @ bs)"
          using r(1) Some False by (subst read_loop.simps) simp
        then show ?thesis
          using IH[of "n - length bs" s' "got @ bs"] r(2) bs ne False by (simp add: mlex_prod_def cong: option.case_cong)
      qed
    qed
  qed
qed

lemma readline_loop_ok:
  "inv s \<Longrightarrow> 0 < n \<Longrightarrow> \<exists>v buf s'. readline_loop get k n got s = Some (v, buf, s') \<and> inv s'
    \<and> (v = - 1 \<and> errno s' \<in> errs \<or> (if n = 1 \<and> 0 < k \<and> stream s = [] then v = 0 \<and> buf = got \<and> stream s' = []
        else v = n + int (length (line_of k (stream s))) - of_bool (complete (line_of k (stream s)))
          \<and> buf = got @ line_of k (stream s) @ [0] \<and> stream s = line_of k (stream s) @ stream s'))"
proof (induction k arbitrary: n got s)
  case 0
  then show ?case by (simp add: complete_def)
next
  case (Suc k)
  obtain r s' where r: "get s 1 = Some (r, s')" "inv s'" "source_ok stream errs errno patience s 1 (r, s')"
    using get_ok[OF Suc.prems(1), of 1] by auto
  show ?case
  proof (cases r)
    case None
    then show ?thesis using r by (simp add: source_ok_def)
  next
    case (Some bs)
    then have bs: "stream s = bs @ stream s'" "length bs \<le> 1" "bs = [] \<longrightarrow> stream s = []"
      using r(3) by (auto simp: source_ok_def)
    show ?thesis
    proof (cases bs)
      case Nil
      then show ?thesis using r bs Some by (simp add: complete_def)
    next
      case (Cons c cs)
      then have "cs = []" using bs(2) by simp
      then show ?thesis
        using Suc.IH[OF r(2), of "n + 1" "got @ [c]"] r bs Some Cons Suc.prems(2) by (auto simp: complete_def)
    qed
  qed
qed

end

section \<open>The two sources\<close>

text \<open>What is documented of \<^verbatim>\<open>read\<close>: it takes a non-empty part from the front of what is to come, or nothing at the end,
  or fails and takes nothing.\<close>

definition reads_ok :: "'os sys_read \<Rightarrow> ('os \<Rightarrow> u8 list) \<Rightarrow> ('os \<Rightarrow> nat) \<Rightarrow> bool" where
  "reads_ok read stream patience \<longleftrightarrow> (\<forall>os n. 0 < n \<longrightarrow> (case read os n of
       (Inr bs, os') \<Rightarrow> stream os = bs @ stream os' \<and> length bs \<le> n \<and> (bs = [] \<longrightarrow> stream os = [])
     | (Inl e, os') \<Rightarrow> stream os' = stream os \<and> (e = EINTR \<longrightarrow> patience os' < patience os)))"

definition read_errors :: "'os sys_read \<Rightarrow> int set" where
  "read_errors read = {e. \<exists>os n os'. read os n = (Inl e, os')}"

lemma reads_okD:
  assumes "reads_ok read stream patience" "0 < n"
  shows "read os n = (Inl e, os') \<Longrightarrow> stream os' = stream os \<and> (e = EINTR \<longrightarrow> patience os' < patience os)"
    and "read os n = (Inr bs, os') \<Longrightarrow> stream os = bs @ stream os' \<and> length bs \<le> n \<and> (bs = [] \<longrightarrow> stream os = [])"
  using assms by (auto simp: reads_ok_def dest!: spec[of _ os] spec[of _ n])

interpretation unix_source: byte_source "unix_read read" snd "\<lambda>(os, err). stream os" "read_errors read" "\<lambda>(os, err). patience os"
    "\<lambda>s. reads_ok read stream patience" for read stream patience
proof unfold_locales
  fix s :: "'a \<times> int" and n :: nat
  assume "reads_ok read stream patience" "0 < n"
  note ok = reads_okD[OF this]
  obtain os err where s: "s = (os, err)" by fastforce
  show "\<exists>r s'. unix_read read s n = Some (r, s') \<and> reads_ok read stream patience
      \<and> source_ok (\<lambda>(os, err). stream os) (read_errors read) snd (\<lambda>(os, err). patience os) s n (r, s')"
  proof (cases "read os n")
    case (Pair r os')
    then show ?thesis
      using ok[of os] \<open>reads_ok read stream patience\<close>
      by (cases r) (auto simp: s unix_read_def source_ok_def read_errors_def)
  qed
qed

text \<open>The buffer in front of the system's stream.\<close>

definition wf_rio :: "rio_t \<Rightarrow> bool" where
  "wf_rio rp \<longleftrightarrow> length (rio_buf rp) = RIO_BUFSIZE \<and> (0 < rio_cnt rp \<longrightarrow> rio_pos rp + nat (rio_cnt rp) \<le> RIO_BUFSIZE)"

definition rio_unread :: "rio_t \<Rightarrow> u8 list" where
  "rio_unread rp = take (nat (rio_cnt rp)) (drop (rio_pos rp) (rio_buf rp))"

lemma rio_fill_ok:
  assumes "reads_ok read stream patience"
  shows "wf_rio rp \<Longrightarrow> \<exists>r rp' os' err'. rio_fill read rp os err = Some (r, rp', os', err') \<and> wf_rio rp'
    \<and> rio_unread rp @ stream os = rio_unread rp' @ stream os'
    \<and> (r = - 1 \<and> err' \<in> read_errors read - {EINTR} \<or> r = 0 \<and> rio_cnt rp' = 0 \<and> stream os' = [] \<or> r = 1 \<and> 0 < rio_cnt rp')"
proof (induction "patience os + of_bool (rio_cnt rp \<le> 0)" arbitrary: rp os err rule: less_induct)
  case less
  note ok = reads_okD[OF assms, of RIO_BUFSIZE os]
  show ?case
  proof (cases "rio_cnt rp \<le> 0")
    case empty: True
    then have un: "rio_unread rp = []" by (simp add: rio_unread_def)
    show ?thesis
    proof (cases "read os RIO_BUFSIZE")
      case (Pair q os')
      show ?thesis
      proof (cases q)
        case (Inl e)
        let ?rp = "rp\<lparr>rio_cnt := - 1\<rparr>"
        have wf: "wf_rio ?rp" "rio_unread ?rp = []" using less.prems by (simp_all add: wf_rio_def rio_unread_def)
        have os': "stream os' = stream os" "e = EINTR \<longrightarrow> patience os' < patience os" using ok(1) Pair Inl by auto
        show ?thesis
        proof (cases "e = EINTR")
          case True
          then have "rio_fill read rp os err = rio_fill read ?rp os' e"
            using empty Pair Inl by (subst rio_fill.simps) simp
          then show ?thesis using less.hyps[of os' ?rp e] wf os' un empty True by simp
        next
          case False
          then have "rio_fill read rp os err = Some (- 1, ?rp, os', e)"
            using empty Pair Inl by (subst rio_fill.simps) simp
          then show ?thesis using wf os' un False Pair Inl by (auto simp: read_errors_def)
        qed
      next
        case (Inr bs)
        have bs: "stream os = bs @ stream os'" "length bs \<le> RIO_BUFSIZE" "bs = [] \<longrightarrow> stream os = []"
          using ok(2) Pair Inr by auto
        show ?thesis
        proof (cases "bs = []")
          case True
          then have "rio_fill read rp os err = Some (0, rp\<lparr>rio_cnt := 0\<rparr>, os', err)"
            using empty Pair Inr by (subst rio_fill.simps) simp
          then show ?thesis using un less.prems bs True by (simp add: wf_rio_def rio_unread_def)
        next
          case False
          let ?rp = "rp\<lparr>rio_cnt := int (length bs), rio_buf := splice (rio_buf rp) 0 bs, rio_pos := 0\<rparr>"
          have "rio_fill read rp os err = rio_fill read ?rp os' err"
            using empty Pair Inr False by (subst rio_fill.simps) simp
          also have "\<dots> = Some (1, ?rp, os', err)" using False by (subst rio_fill.simps) simp
          finally show ?thesis
            using un bs False less.prems by (simp add: wf_rio_def rio_unread_def splice_def)
        qed
      qed
    qed
  next
    case False
    then have "rio_fill read rp os err = Some (1, rp, os, err)" by (subst rio_fill.simps) simp
    then show ?thesis using False less.prems by simp
  qed
qed

lemma take_split: "k \<le> c \<Longrightarrow> take c xs = take k xs @ take (c - k) (drop k xs)"
  by (metis le_add_diff_inverse take_add)

lemma rio_read_ok:
  assumes "reads_ok read stream patience" "wf_rio rp" "0 < n"
  shows "\<exists>r rp' os' err'. rio_read read (rp, os, err) n = Some (r, rp', os', err') \<and> wf_rio rp'
    \<and> source_ok (\<lambda>(rp, os, err). rio_unread rp @ stream os) (read_errors read - {EINTR}) (\<lambda>(rp, os, err). err) (\<lambda>s. 0) (rp, os, err) n (r, rp', os', err')"
proof -
  obtain r rp' os' err' where fill: "rio_fill read rp os err = Some (r, rp', os', err')" "wf_rio rp'"
      "rio_unread rp @ stream os = rio_unread rp' @ stream os'"
      "r = - 1 \<and> err' \<in> read_errors read - {EINTR} \<or> r = 0 \<and> rio_cnt rp' = 0 \<and> stream os' = [] \<or> r = 1 \<and> 0 < rio_cnt rp'"
    using rio_fill_ok[OF assms(1,2)] by blast
  consider "r = - 1" "err' \<in> read_errors read - {EINTR}" | "r = 0" "rio_cnt rp' = 0" "stream os' = []" | "r = 1" "0 < rio_cnt rp'"
    using fill(4) by blast
  then show ?thesis
  proof cases
    case 3
    define c where "c = min (nat (rio_cnt rp')) n"
    let ?b = "take c (drop (rio_pos rp') (rio_buf rp'))"
    let ?rp = "rp'\<lparr>rio_pos := rio_pos rp' + c, rio_cnt := rio_cnt rp' - int c\<rparr>"
    have c: "0 < c" "c \<le> n" "c \<le> nat (rio_cnt rp')" using 3(2) assms(3) by (simp_all add: c_def)
    have cnt: "(if rio_cnt rp' < int n then rio_cnt rp' else int n) = int c" using 3(2) by (simp add: c_def)
    have "rio_read read (rp, os, err) n = Some (Some ?b, ?rp, os', err')"
      using fill(1) 3 cnt by (simp add: rio_read_def Let_def)
    moreover have "nat (rio_cnt rp' - int c) = nat (rio_cnt rp') - c" using c(3) by linarith
    then have "rio_unread rp' = ?b @ rio_unread ?rp"
      using take_split[OF c(3), of "drop (rio_pos rp') (rio_buf rp')"] by (simp add: rio_unread_def add.commute)
    moreover have "wf_rio ?rp" "?b \<noteq> []" using fill(2) 3(2) c by (auto simp: wf_rio_def)
    ultimately show ?thesis using fill(3) c(2) by (simp add: source_ok_def)
  qed (use fill in \<open>auto simp: rio_read_def source_ok_def rio_unread_def\<close>)
qed

interpretation rio_source: byte_source "rio_read read" "\<lambda>(rp, os, err). err" "\<lambda>(rp, os, err). rio_unread rp @ stream os"
    "read_errors read - {EINTR}" "\<lambda>s. 0" "\<lambda>(rp, os, err). reads_ok read stream patience \<and> wf_rio rp" for read stream patience
proof unfold_locales
  fix s :: "rio_t \<times> 'a \<times> int" and n :: nat
  obtain rp os err where s: "s = (rp, os, err)" by (cases s) auto
  assume "case s of (rp, os, err) \<Rightarrow> reads_ok read stream patience \<and> wf_rio rp" "0 < n"
  then show "\<exists>r s'. rio_read read s n = Some (r, s') \<and> (case s' of (rp, os, err) \<Rightarrow> reads_ok read stream patience \<and> wf_rio rp)
      \<and> source_ok (\<lambda>(rp, os, err). rio_unread rp @ stream os) (read_errors read - {EINTR}) (\<lambda>(rp, os, err). err) (\<lambda>s. 0) s n (r, s')"
    using rio_read_ok[of read stream patience rp n os err] s by fastforce
qed

section \<open>Writes\<close>

text \<open>What is documented of \<^verbatim>\<open>write\<close> on a connection, where \<open>got\<close> is what the peer has received: a call with something to write
  either delivers a non-empty part from the front, or fails and delivers nothing.  Interruptions
  in a row come to an end (\<open>patience\<close>).\<close>

definition writes_ok :: "'os sys_write \<Rightarrow> ('os \<Rightarrow> u8 list) \<Rightarrow> ('os \<Rightarrow> nat) \<Rightarrow> bool" where
  "writes_ok write got patience \<longleftrightarrow> (\<forall>os buf. buf \<noteq> [] \<longrightarrow> (case write os buf of
       (Inr n, os') \<Rightarrow> 0 < n \<and> n \<le> length buf \<and> got os' = got os @ take n buf
     | (Inl e, os') \<Rightarrow> got os' = got os \<and> (e = EINTR \<longrightarrow> patience os' < patience os)))"

lemma rio_writen_loop_ok:
  assumes "writes_ok write got patience"
  shows "\<exists>ok os' err'. rio_writen_loop write os err buf = Some (ok, os', err')
    \<and> (ok \<longrightarrow> got os' = got os @ buf) \<and> (\<not> ok \<longrightarrow> (\<exists>os1 b e. write os1 b = (Inl e, os') \<and> e \<noteq> EINTR))"
proof (induction "(buf, os)" arbitrary: buf os err rule: wf_induct[OF wf_mlex[OF wf_measure], of "\<lambda>(b, os). length b" "\<lambda>(b, os). patience os"])
  case 1
  note IH = this[rule_format, OF _ refl]
  show ?case
  proof (cases "buf = []")
    case False
    show ?thesis
    proof (cases "write os buf")
      case (Pair r os')
      show ?thesis
      proof (cases r)
        case (Inl e)
        have e: "got os' = got os" "e = EINTR \<longrightarrow> patience os' < patience os"
          using assms False Pair Inl by (auto simp: writes_ok_def dest!: spec[of _ os] spec[of _ buf])
        show ?thesis
        proof (cases "e = EINTR")
          case True
          have "rio_writen_loop write os err buf = rio_writen_loop write os' e buf"
            using False Pair Inl True by (subst rio_writen_loop.simps) simp
          then show ?thesis using IH[of buf os' e] e True by (simp add: mlex_prod_def)
        next
          case neq: False
          then have "rio_writen_loop write os err buf = Some (False, os', e)"
            using False Pair Inl by (subst rio_writen_loop.simps) simp
          then show ?thesis using Pair Inl neq by auto
        qed
      next
        case (Inr n)
        have n: "0 < n" "n \<le> length buf" "got os' = got os @ take n buf"
          using assms False Pair Inr by (auto simp: writes_ok_def dest!: spec[of _ os] spec[of _ buf])
        have "rio_writen_loop write os err buf = rio_writen_loop write os' err (drop n buf)"
          using False Pair Inr n(1) by (subst rio_writen_loop.simps) simp
        then show ?thesis using IH[of "drop n buf" os' err] n False by (simp add: mlex_prod_def) 
      qed
    qed
  qed (subst rio_writen_loop.simps, auto)
qed

section \<open>Properties\<close>

text \<open>C28: answers arrive whole.  However the system cuts the writes on a connection into parts and interrupts
  them, \<^verbatim>\<open>Rio_writen\<close> comes back after all bytes have been delivered, in order and once each; if a write
  fails for another reason, the process exits, with the status of success.\<close>

theorem rio_writen_complete:
  assumes "writes_ok write got patience"
  shows "(\<exists>os' err'. Rio_writen write os err buf = Some (Inr (os', err')) \<and> got os' = got os @ buf)
    \<or> Rio_writen write os err buf = Some (Inl (Exit 0)) \<and> (\<exists>os1 b e os2. write os1 b = (Inl e, os2) \<and> e \<noteq> EINTR)"
proof -
  obtain ok os' err' where r: "rio_writen_loop write os err buf = Some (ok, os', err')"
      "ok \<longrightarrow> got os' = got os @ buf" "\<not> ok \<longrightarrow> (\<exists>os1 b e. write os1 b = (Inl e, os') \<and> e \<noteq> EINTR)"
    using rio_writen_loop_ok[OF assms] by metis
  then show ?thesis by (cases ok) (auto simp: Rio_writen_def unix_error_def)
qed

text \<open>A connection that takes one byte at a time, after one interruption.\<close>

definition slow_write :: "(nat \<times> u8 list) sys_write" where
  "slow_write os buf = (case os of (0, s) \<Rightarrow> (Inr 1, 0, s @ take 1 buf) | (Suc n, s) \<Rightarrow> (Inl EINTR, n, s))"

theorem rio_writen_complete_witness:
  "\<exists>os' err'. Rio_writen slow_write (1, []) 0 (ascii ''$OK#9a'') = Some (Inr (os', err')) \<and> snd os' = ascii ''$OK#9a''"
proof -
  have "writes_ok slow_write snd fst"
    by (auto simp: writes_ok_def slow_write_def Suc_le_eq split: prod.splits nat.splits)
  moreover have "e = EINTR" if "slow_write os1 b = (Inl e, os2)" for os1 b e os2
    using that by (auto simp: slow_write_def split: prod.splits nat.splits)
  ultimately show ?thesis using rio_writen_complete[of slow_write snd fst "(1, [])" 0 "ascii ''$OK#9a''"] by auto
qed

text \<open>C29: reads are complete.  However the system cuts what it delivers into parts and interrupts the calls, the
  unbuffered and the buffered reader come back with the first \<open>n\<close> bytes of what is to come, or all of
  it if it is shorter, and leave the rest to be read; or they report an error that is not an
  interruption.  Bytes that wait in the buffer come first.\<close>

theorem rio_reads_complete:
  assumes "reads_ok read stream patience"
  shows "(\<exists>r os' err'. rio_readn read (os, err) n = Some (r, os', err')
      \<and> (case r of None \<Rightarrow> err' \<in> read_errors read - {EINTR} | Some bs \<Rightarrow> bs = take n (stream os) \<and> stream os' = drop n (stream os)))
    \<and> (wf_rio rp \<longrightarrow> (\<exists>r rp' os' err'. rio_readnb read (rp, os, err) n = Some (r, rp', os', err') \<and> wf_rio rp'
      \<and> (case r of None \<Rightarrow> err' \<in> read_errors read - {EINTR}
         | Some bs \<Rightarrow> bs = take n (rio_unread rp @ stream os) \<and> rio_unread rp' @ stream os' = drop n (rio_unread rp @ stream os))))"
proof -
  have "\<exists>r s'. read_loop (unix_read read) snd (os, err) n [] = Some (r, s') \<and> reads_ok read stream patience
      \<and> (case r of None \<Rightarrow> snd s' \<in> read_errors read - {EINTR} | Some bs \<Rightarrow> bs = [] @ take n (case (os, err) of (os, err) \<Rightarrow> stream os)
        \<and> (case s' of (os, err) \<Rightarrow> stream os) = drop n (case (os, err) of (os, err) \<Rightarrow> stream os))"
    using unix_source.read_loop_ok[where read = read and stream = stream and patience = patience and s = "(os, err)" and n = n and got = "[]"] assms by simp
  moreover have "\<exists>r s'. read_loop (rio_read read) (\<lambda>(rp, os, err). err) (rp, os, err) n [] = Some (r, s')
      \<and> (case s' of (rp, os, err) \<Rightarrow> reads_ok read stream patience \<and> wf_rio rp)
      \<and> (case r of None \<Rightarrow> (case s' of (rp, os, err) \<Rightarrow> err) \<in> read_errors read - {EINTR} | Some bs \<Rightarrow> bs = [] @ take n (rio_unread rp @ stream os)
        \<and> (case s' of (rp, os, err) \<Rightarrow> rio_unread rp @ stream os) = drop n (rio_unread rp @ stream os))" if "wf_rio rp"
    using rio_source.read_loop_ok[where read = read and stream = stream and patience = patience and s = "(rp, os, err)" and n = n and got = "[]"]
      assms that by (simp cong: option.case_cong)
  ultimately show ?thesis by (simp add: rio_readn_def rio_readnb_def cong: option.case_cong) blast
qed

text \<open>A connection that delivers one byte at a time, after one interruption.\<close>

definition slow_read :: "(nat \<times> u8 list) sys_read" where
  "slow_read os n = (case os of (0, s) \<Rightarrow> (Inr (take 1 s), 0, drop 1 s) | (Suc k, s) \<Rightarrow> (Inl EINTR, k, s))"

lemma slow_read_ok: "reads_ok slow_read snd fst"
  by (auto simp: reads_ok_def slow_read_def Suc_le_eq split: prod.splits nat.splits)

lemma slow_read_errors: "read_errors slow_read - {EINTR} = {}"
  by (auto simp: read_errors_def slow_read_def gr0_conv_Suc split: prod.splits nat.splits)

theorem rio_reads_complete_witness:
  "\<exists>os' err'. rio_readn slow_read ((1, ascii ''abc''), 0) 2 = Some (Some (ascii ''ab''), os', err') \<and> snd os' = ascii ''c''"
proof -
  have "take 2 (ascii ''abc'') = ascii ''ab''" "drop 2 (ascii ''abc'') = ascii ''c''" by (simp_all add: ascii_def)
  then show ?thesis
    using rio_reads_complete[OF slow_read_ok, of "(1, ascii ''abc'')" 0 2, THEN conjunct1]
    by (simp only: slow_read_errors snd_conv empty_iff split: option.splits) auto
qed

text \<open>Lines.  \<^verbatim>\<open>rio_readlineb\<close> stores the next line with its newline, cut at \<open>maxlen - 1\<close> bytes, and a zero byte, and
  consumes exactly the line.  It returns the length of the line if there is a newline; if the
  line is cut or ends with the input, it returns one more than the length.  At the end of the input
  it returns 0 and stores nothing.\<close>

theorem rio_readlineb_correct:
  assumes "reads_ok read stream patience" and "wf_rio rp" and "1 < maxlen"
  shows "\<exists>v buf rp' os' err'. rio_readlineb read (rp, os, err) maxlen = Some (v, buf, rp', os', err') \<and> wf_rio rp'
    \<and> (v = - 1 \<and> err' \<in> read_errors read - {EINTR} \<or> (let xs = rio_unread rp @ stream os; l = line_of (maxlen - 1) xs in
        if xs = [] then v = 0 \<and> buf = []
        else v = int (length l) + (if complete l then 0 else 1) \<and> buf = l @ [0] \<and> length buf \<le> maxlen
          \<and> xs = l @ rio_unread rp' @ stream os'))"
proof -
  have "length (line_of k xs) \<le> k" for k xs by (induction k xs rule: line_of.induct) auto
  from this[of "maxlen - 1"] have len: "length (line_of (maxlen - 1) xs) < maxlen" for xs using assms(3) by (metis Suc_pred' less_Suc_eq_le less_trans zero_less_one)
  have inv: "case (rp, os, err) of (rp, os, err) \<Rightarrow> reads_ok read stream patience \<and> wf_rio rp" using assms(1,2) by simp
  obtain v buf s' where r: "readline_loop (rio_read read) (maxlen - 1) 1 [] (rp, os, err) = Some (v, buf, s')"
      "case s' of (rp, os, err) \<Rightarrow> reads_ok read stream patience \<and> wf_rio rp"
      "v = - 1 \<and> (case s' of (rp, os, err) \<Rightarrow> err) \<in> read_errors read - {EINTR} \<or> (if (1 :: int) = 1 \<and> 0 < maxlen - 1 \<and> rio_unread rp @ stream os = [] then v = 0 \<and> buf = []
          \<and> (case s' of (rp, os, err) \<Rightarrow> rio_unread rp @ stream os) = []
        else v = 1 + int (length (line_of (maxlen - 1) (rio_unread rp @ stream os)))
            - of_bool (complete (line_of (maxlen - 1) (rio_unread rp @ stream os)))
          \<and> buf = [] @ line_of (maxlen - 1) (rio_unread rp @ stream os) @ [0]
          \<and> rio_unread rp @ stream os = line_of (maxlen - 1) (rio_unread rp @ stream os)
            @ (case s' of (rp, os, err) \<Rightarrow> rio_unread rp @ stream os))"
    using rio_source.readline_loop_ok[OF inv zero_less_one, of "maxlen - 1" "[]", unfolded prod.case] by blast
  obtain rp' os' err' where s': "s' = (rp', os', err')" by (cases s') auto
  show ?thesis
    using r assms(3) len[of "rio_unread rp @ stream os"] unfolding rio_readlineb_def s' Let_def
    by (intro exI[of _ v] exI[of _ buf] exI[of _ rp'] exI[of _ os'] exI[of _ err'])
      (auto simp: Suc_le_eq split: if_splits)
qed

theorem rio_readlineb_correct_witness:
  "\<exists>rp' os' err'. rio_readlineb slow_read (rio_readinitb (replicate 8192 0), (0, ascii ''ab''), 0) 100
      = Some (3, ascii ''ab'' @ [0], rp', os', err')"
proof -
  have "wf_rio (rio_readinitb (replicate 8192 0))" "rio_unread (rio_readinitb (replicate 8192 0)) = []"
    by (simp_all add: wf_rio_def rio_unread_def rio_readinitb_def)
  moreover have "line_of (100 - 1) (ascii ''ab'') = ascii ''ab''" "\<not> complete (ascii ''ab'')" "ascii ''ab'' \<noteq> []"
    "length (ascii ''ab'') = 2" by code_simp+
  ultimately show ?thesis
    using rio_readlineb_correct[OF slow_read_ok, of "rio_readinitb (replicate 8192 0)" 100 "(0, ascii ''ab'')" 0]
    unfolding slow_read_errors by (simp only: Let_def snd_conv append_Nil) auto
qed

end
