(* ===== verification/Gdb_Protocol.thy ===== *)
theory Gdb_Protocol
  imports Simulator Rio
begin

text \<open>
  The debugger side of the simulator, \<^verbatim>\<open>gdb_protocol.c\<close>: framing of packets with a checksum, the handlers
  of the commands, and the analysis of a received packet.

  \<^verbatim>\<open>gdb->arm\<close> and \<^verbatim>\<open>gdb->mem\<close> share one memory, the one inside the processor.  The 1024 bytes of \<^verbatim>\<open>packet\<close>
  are a list, and \<^verbatim>\<open>buffer\<close> is its offset 1; writing behind its end stops the process.  What is written
  to the socket is appended to \<open>sent\<close>.  A received packet is the list of its bytes with the zero
  byte that the scanner puts behind it.  Handlers run with the lock held.  Calls to the trace and
  debug modules, which only print, are left out, and a variable read before it is set is a
  parameter (\<open>junk\<close>).

  A write to the connection can fail, and then it ends the process.  \<open>closed\<close> says that \<^verbatim>\<open>kill_request\<close> has
  shut down the connection for writing: the next write raises the signal of a broken pipe, which nothing catches.
  \<open>gdb_fd\<close> stands for the connection itself: \<open>gdb_fd n\<close> is what a write meets when \<open>n\<close> bytes have been sent.
\<close>

section \<open>State and packets\<close>

abbreviation (input) MAX_PACKET_SIZE :: nat where "MAX_PACKET_SIZE \<equiv> 1024"

datatype link = Link_Up | Link_Broken | Link_Error

record gdb_protocol_data =
  gdb_arm :: cpu
  target_exception :: int
  packet :: "u8 list"
  gdb_len :: nat
  sent :: "u8 list"
  closed :: bool
  gdb_fd :: "nat \<Rightarrow> link"

text \<open>\<^verbatim>\<open>Rio_writen(gdb->fd, ...)\<close>: nothing happens for no bytes; otherwise all bytes are delivered, or the process
  ends, by the signal of a broken pipe or by the \<^verbatim>\<open>exit(0)\<close> of \<^verbatim>\<open>unix_error\<close>.\<close>

definition hangup :: "gdb_protocol_data \<Rightarrow> stop option" where
  "hangup gdb =
     (if closed gdb then Some Broken_Pipe
      else case gdb_fd gdb (length (sent gdb)) of
             Link_Up \<Rightarrow> None | Link_Broken \<Rightarrow> Some Broken_Pipe | Link_Error \<Rightarrow> Some (Exit 0))"

definition fd_writen :: "gdb_protocol_data \<Rightarrow> u8 list \<Rightarrow> gdb_protocol_data outcome" where
  "fd_writen gdb buf =
     (if buf = [] then Inr gdb
      else case hangup gdb of Some e \<Rightarrow> Inl e | None \<Rightarrow> Inr (gdb\<lparr>sent := sent gdb @ buf\<rparr>))"

definition gdb_transmit_packet :: "gdb_protocol_data \<Rightarrow> gdb_protocol_data outcome" where
  "gdb_transmit_packet gdb = fd_writen gdb (take (gdb_len gdb) (packet gdb))"

definition gdb_send_ack :: "gdb_protocol_data \<Rightarrow> gdb_protocol_data outcome" where
  "gdb_send_ack gdb = fd_writen gdb (ascii ''+'')"

definition gdb_require_retransmission :: "gdb_protocol_data \<Rightarrow> gdb_protocol_data outcome" where
  "gdb_require_retransmission gdb = fd_writen gdb (ascii ''-'')"

text \<open>The loop that sums the bytes up to the zero byte.\<close>

fun sum_loop :: "u8 list \<Rightarrow> u8 \<Rightarrow> nat \<Rightarrow> (u8 \<times> nat) outcome" where
  "sum_loop [] check i = Inl Out_Of_Bounds"
| "sum_loop (b # bs) check i = (if b = 0 then Inr (check, i) else sum_loop bs (check + b) (i + 1))"

definition gdb_send_buffer :: "gdb_protocol_data \<Rightarrow> gdb_protocol_data outcome" where
  "gdb_send_buffer gdb =
     bnd (store_bytes (packet gdb) 0 (ascii ''$'')) (\<lambda>pk.
     bnd (sum_loop (drop 1 pk) 0 1) (\<lambda>(check, i).
     bnd (store_bytes pk i (ascii ''#'')) (\<lambda>pk.
     let i = i + 1
     in bnd (store_bytes pk i (hex2 check @ [0])) (\<lambda>pk.
     let i = i + 2
     in bnd (store_bytes pk i [0]) (\<lambda>pk.
     gdb_transmit_packet (gdb\<lparr>packet := pk, gdb_len := i\<rparr>))))))"

text \<open>\<^verbatim>\<open>strcpy\<close> or \<^verbatim>\<open>sprintf\<close> at an offset of \<^verbatim>\<open>buffer\<close>.\<close>

definition buffer_put :: "gdb_protocol_data \<Rightarrow> nat \<Rightarrow> u8 list \<Rightarrow> gdb_protocol_data outcome" where
  "buffer_put gdb k s = bnd (store_bytes (packet gdb) (1 + k) (s @ [0])) (\<lambda>pk. Inr (gdb\<lparr>packet := pk\<rparr>))"

definition gdb_send_data :: "gdb_protocol_data \<Rightarrow> string \<Rightarrow> gdb_protocol_data outcome" where
  "gdb_send_data gdb data = bnd (buffer_put gdb 0 (ascii data)) gdb_send_buffer"

section \<open>Words as text\<close>

text \<open>\<open>be\<close> is the byte order that \<^verbatim>\<open>BIG_ENDIAN_SIMULATOR\<close> chooses.  The bytes are scanned in text order
  into an array that is filled forwards or backwards.\<close>

definition scan_byte :: "u8 list \<Rightarrow> nat \<Rightarrow> u32 \<Rightarrow> u32 outcome" where
  "scan_byte data k old = bnd (cstr_at data k) (\<lambda>s.
     Inr (case sscanf_x 2 s of None \<Rightarrow> old | Some (v, r) \<Rightarrow> v))"

definition read_uint32 :: "host \<Rightarrow> bool \<Rightarrow> u32 \<Rightarrow> u8 list \<Rightarrow> nat \<Rightarrow> u32 outcome" where
  "read_uint32 h be junk data k =
     bnd (scan_byte data k junk) (\<lambda>v0.
     bnd (scan_byte data (k + 2) v0) (\<lambda>v1.
     bnd (scan_byte data (k + 4) v1) (\<lambda>v2.
     bnd (scan_byte data (k + 6) v2) (\<lambda>v3.
     let bs = [ucast v0, ucast v1, ucast v2, ucast v3]
     in Inr (host_value h (if is_big_endian h = of_bool be then bs else rev bs))))))"

definition write_uint32 :: "host \<Rightarrow> bool \<Rightarrow> u32 \<Rightarrow> u8 list" where
  "write_uint32 h be value =
    (let bs = host_bytes h 4 value
     in concat (map hex2 (if is_big_endian h = of_bool be then bs else rev bs)))"

section \<open>Handlers\<close>

definition gdb_send_stop_reason :: "gdb_protocol_data \<Rightarrow> gdb_protocol_data outcome" where
  "gdb_send_stop_reason gdb =
     (if target_exception gdb = UNDEFINED_INSTRUCTION then gdb_send_data gdb ''S04''
      else if target_exception gdb = PREFETCH_ABORT \<or> target_exception gdb = DATA_ABORT
      then gdb_send_data gdb ''S10''
      else gdb_send_data gdb ''S05'')"

text \<open>The loop of \<^verbatim>\<open>cont\<close> may run forever; \<open>None\<close> is that it does.  A failed read leaves \<^verbatim>\<open>instruction\<close>
  as it was.\<close>

partial_function (option) cont_loop :: "host \<Rightarrow> gdb_protocol_data \<Rightarrow> u32 \<Rightarrow> gdb_protocol_data outcome option" where
  "cont_loop h gdb instruction =
     (case arm_read_register (gdb_arm gdb) 15 of
        Inl e \<Rightarrow> Some (Inl e)
      | Inr r15 \<Rightarrow>
     (case arm_read_word h (gdb_arm gdb) (r15 - 4) of
        Inl e \<Rightarrow> Some (Inl e)
      | Inr r \<Rightarrow>
     (if (case r of None \<Rightarrow> instruction | Some v \<Rightarrow> v) AND 0xFFF000F0 = 0xE7F000F0 then Some (Inr gdb)
      else case arm_step h (gdb_arm gdb) of
          Inl e \<Rightarrow> Some (Inl e)
        | Inr (result, p) \<Rightarrow>
            cont_loop h (gdb\<lparr>gdb_arm := p, target_exception := result\<rparr>)
              (case r of None \<Rightarrow> instruction | Some v \<Rightarrow> v))))"

definition cont :: "host \<Rightarrow> u32 \<Rightarrow> gdb_protocol_data \<Rightarrow> gdb_protocol_data outcome option" where
  "cont h junk gdb =
     (case cont_loop h gdb junk of None \<Rightarrow> None | Some r \<Rightarrow> Some (bnd r gdb_send_stop_reason))"

definition kill_request :: "gdb_protocol_data \<Rightarrow> gdb_protocol_data" where
  "kill_request gdb = gdb\<lparr>closed := True\<rparr>"

definition query :: "gdb_protocol_data \<Rightarrow> u8 list \<Rightarrow> gdb_protocol_data outcome" where
  "query gdb data =
     (if cstr data = ascii ''Offsets'' then gdb_send_data gdb ''Text=0;Data=0;Bss=0''
      else if take 9 (cstr data) = ascii ''Supported'' then gdb_send_data gdb ''PacketSize=400''
      else if cstr data = ascii ''TStatus'' then gdb_send_data gdb ''T0;tnotrun:0''
      else if cstr data = ascii ''Symbol::'' then gdb_send_data gdb ''''
      else gdb_send_data gdb '''')"

definition read_general_registers :: "host \<Rightarrow> bool \<Rightarrow> gdb_protocol_data \<Rightarrow> gdb_protocol_data outcome" where
  "read_general_registers h be gdb =
     bnd (for_out [0..<15] (\<lambda>i gdb.
            bnd (arm_read_register (gdb_arm gdb) (of_nat i)) (\<lambda>v.
            buffer_put gdb (8 * i) (write_uint32 h be v))) gdb) (\<lambda>gdb.
     bnd (arm_read_register (gdb_arm gdb) 15) (\<lambda>v.
     bnd (buffer_put gdb (8 * 15) (write_uint32 h be (v - 4))) (\<lambda>gdb.
     bnd (for_out [0..<24] (\<lambda>i gdb. buffer_put gdb (8 * (16 + i)) (ascii ''xxxxxxxx'')) gdb) (\<lambda>gdb.
     bnd (buffer_put gdb (8 * 40) (ascii ''xxxxxxxx'')) (\<lambda>gdb.
     bnd (arm_read_cpsr (gdb_arm gdb)) (\<lambda>v.
     bnd (buffer_put gdb (8 * 41) (write_uint32 h be v)) gdb_send_buffer))))))"

text \<open>The loop of \<^verbatim>\<open>read_memory\<close>: \<open>n\<close> bytes to go, \<open>k\<close> the offset of \<^verbatim>\<open>position\<close> in \<^verbatim>\<open>buffer\<close>.\<close>

fun read_memory_loop :: "nat \<Rightarrow> gdb_protocol_data \<Rightarrow> u32 \<Rightarrow> nat \<Rightarrow> gdb_protocol_data outcome" where
  "read_memory_loop 0 gdb address k = Inr gdb"
| "read_memory_loop (Suc n) gdb address k =
     bnd (memory_read_byte (mem (gdb_arm gdb)) address) (\<lambda>r.
       case r of None \<Rightarrow> Inr gdb
       | Some value \<Rightarrow> bnd (buffer_put gdb k (hex2 value)) (\<lambda>gdb. read_memory_loop n gdb (address + 1) (k + 2)))"

definition read_memory :: "u32 \<times> u32 \<Rightarrow> gdb_protocol_data \<Rightarrow> u8 list \<Rightarrow> gdb_protocol_data outcome" where
  "read_memory junk gdb data =
    (let (address, size) = scan_x_x junk (cstr data)
     in bnd (store_bytes (packet gdb) 1 [0]) (\<lambda>pk.
        bnd (read_memory_loop (unat size) (gdb\<lparr>packet := pk\<rparr>) address 0) gdb_send_buffer))"

definition gdb_read_register :: "host \<Rightarrow> bool \<Rightarrow> gdb_protocol_data \<Rightarrow> u8 list \<Rightarrow> gdb_protocol_data outcome" where
  "gdb_read_register h be gdb data =
    (let reg = atoi (cstr data)
     in if \<not> reg < 16 then Inl Abort
        else bnd (arm_read_register (gdb_arm gdb) (ucast reg)) (\<lambda>v.
          bnd (buffer_put gdb 0 (write_uint32 h be (v - (if reg = 15 then 4 else 0)))) gdb_send_buffer))"

definition reason :: "gdb_protocol_data \<Rightarrow> gdb_protocol_data outcome" where
  "reason gdb = gdb_send_stop_reason gdb"

definition set_thread :: "gdb_protocol_data \<Rightarrow> u8 list \<Rightarrow> gdb_protocol_data outcome" where
  "set_thread gdb data =
     bnd (cstr_at data 1) (\<lambda>s.
     let type = hd data; value = sint (atoi s)
     in if (type = of_char CHR ''c'' \<or> type = of_char CHR ''g'') \<and> value < 1 \<and> value > - 2
        then gdb_send_data gdb ''OK'' else gdb_send_data gdb ''E01'')"

definition gdb_step :: "host \<Rightarrow> gdb_protocol_data \<Rightarrow> gdb_protocol_data outcome" where
  "gdb_step h gdb =
     bnd (arm_step h (gdb_arm gdb)) (\<lambda>(result, p).
     gdb_send_stop_reason (gdb\<lparr>gdb_arm := p, target_exception := result\<rparr>))"

text \<open>\<open>junk\<close> gives the uninitialised local variable of each call of \<^verbatim>\<open>read_uint32\<close>.\<close>

definition write_general_registers ::
    "host \<Rightarrow> bool \<Rightarrow> (nat \<Rightarrow> u32) \<Rightarrow> gdb_protocol_data \<Rightarrow> u8 list \<Rightarrow> gdb_protocol_data outcome" where
  "write_general_registers h be junk gdb data =
     bnd (for_out [0..<16] (\<lambda>i gdb.
            bnd (read_uint32 h be (junk i) data (8 * i)) (\<lambda>value.
            bnd (arm_write_register (gdb_arm gdb) (of_nat i) value) (\<lambda>p. Inr (gdb\<lparr>gdb_arm := p\<rparr>)))) gdb) (\<lambda>gdb.
     bnd (for_out [0..<24] (\<lambda>i gdb.
            bnd (read_uint32 h be (junk (16 + i)) data (8 * (16 + i))) (\<lambda>value. Inr gdb)) gdb) (\<lambda>gdb.
     bnd (read_uint32 h be (junk 40) data (8 * 40)) (\<lambda>fps.
     bnd (read_uint32 h be (junk 41) data (8 * 41)) (\<lambda>value.
     bnd (arm_write_cpsr (gdb_arm gdb) value) (\<lambda>p.
     gdb_send_data (gdb\<lparr>gdb_arm := p\<rparr>) ''OK'')))))"

text \<open>The loop of \<^verbatim>\<open>write_memory_binary\<close>: \<open>n\<close> bytes to go from the bytes \<open>content\<close>; the result says whether
  all writes succeeded.\<close>

fun write_loop :: "nat \<Rightarrow> cpu \<Rightarrow> u32 \<Rightarrow> u8 list \<Rightarrow> (bool \<times> cpu) outcome" where
  "write_loop 0 p address content = Inr (True, p)"
| "write_loop (Suc n) p address content =
     (case content of
        [] \<Rightarrow> Inl Out_Of_Bounds
      | c # cs \<Rightarrow>
          bnd (if c = 0x7d then case cs of [] \<Rightarrow> Inl Out_Of_Bounds | d # ds \<Rightarrow> Inr (d XOR 0x20, ds)
               else Inr (c, cs)) (\<lambda>(value, rest).
          bnd (memory_write_byte (mem p) address value) (\<lambda>r.
            case r of None \<Rightarrow> Inr (False, p)
            | Some m \<Rightarrow> write_loop n (p\<lparr>mem := m\<rparr>) (address + 1) rest)))"

definition write_memory_binary :: "u32 \<times> u32 \<Rightarrow> gdb_protocol_data \<Rightarrow> u8 list \<Rightarrow> gdb_protocol_data outcome" where
  "write_memory_binary junk gdb data =
    (let (address, size) = scan_x_x junk (cstr data);
         content = tl (dropWhile (\<lambda>c. c \<noteq> of_char CHR '':'') data)
     in bnd (if \<not> ucast address < memory_get_size (mem (gdb_arm gdb)) then Inr (False, gdb_arm gdb)
             else if of_char CHR '':'' \<notin> set (cstr data) \<and> size \<noteq> 0 then Inl Null_Deref
             else write_loop (unat size) (gdb_arm gdb) address content) (\<lambda>(write_ok, p).
        let gdb = gdb\<lparr>gdb_arm := p\<rparr>
        in if write_ok then gdb_send_data gdb ''OK'' else gdb_send_data gdb ''E02''))"

definition gdb_write_register ::
    "host \<Rightarrow> bool \<Rightarrow> u32 \<Rightarrow> u32 \<Rightarrow> gdb_protocol_data \<Rightarrow> u8 list \<Rightarrow> gdb_protocol_data outcome" where
  "gdb_write_register h be junk junk' gdb data =
    (let reg = scan_x junk (cstr data)
     in if of_char CHR ''='' \<notin> set (cstr data) then Inl Null_Deref
        else bnd (read_uint32 h be junk' (tl (dropWhile (\<lambda>c. c \<noteq> of_char CHR ''='') data)) 0) (\<lambda>value.
          if \<not> reg < 16 then Inl Abort
          else bnd (arm_write_register (gdb_arm gdb) (ucast reg) value) (\<lambda>p.
            gdb_send_data (gdb\<lparr>gdb_arm := p\<rparr>) ''OK'')))"

section \<open>Dispatch\<close>

text \<open>\<open>m\<close> is the result of \<^verbatim>\<open>malloc\<close>: none, or a block that holds the bytes \<open>raw\<close> in \<^verbatim>\<open>packet\<close>.\<close>

definition gdb_init_data :: "cpu \<Rightarrow> (nat \<Rightarrow> link) \<Rightarrow> u8 list option \<Rightarrow> gdb_protocol_data option" where
  "gdb_init_data arm fd m =
     (case m of
        None \<Rightarrow> None
      | Some raw \<Rightarrow> Some \<lparr>gdb_arm = arm, target_exception = 0, packet = raw, gdb_len = 0, sent = [], closed = False, gdb_fd = fd\<rparr>)"

text \<open>The functions of the handler table.\<close>

datatype gdb_handler =
    Cont | Kill_Request | Query | Read_General_Registers | Read_Memory | Read_Register | Reason
  | Set_Thread | Do_Step | Write_General_Registers | Write_Memory_Binary | Write_Register

definition gdb_init :: "gdb_handler option list" where
  "gdb_init = fold (\<lambda>(c, f) t. t[of_char c := Some f])
     [(CHR ''c'', Cont), (CHR ''k'', Kill_Request), (CHR ''q'', Query), (CHR ''g'', Read_General_Registers),
      (CHR ''m'', Read_Memory), (CHR ''p'', Read_Register), (CHR ''?'', Reason), (CHR ''H'', Set_Thread),
      (CHR ''s'', Do_Step), (CHR ''G'', Write_General_Registers), (CHR ''X'', Write_Memory_Binary),
      (CHR ''P'', Write_Register)] (replicate 256 None)"

text \<open>A handler call; \<open>junk\<close> supplies its uninitialised variables.\<close>

definition call_handler ::
    "host \<Rightarrow> bool \<Rightarrow> (nat \<Rightarrow> u32) \<Rightarrow> gdb_handler \<Rightarrow> gdb_protocol_data \<Rightarrow> u8 list
     \<Rightarrow> gdb_protocol_data outcome option" where
  "call_handler h be junk f gdb data =
     (case f of
        Cont \<Rightarrow> cont h (junk 0) gdb
      | Kill_Request \<Rightarrow> Some (Inr (kill_request gdb))
      | Query \<Rightarrow> Some (query gdb data)
      | Read_General_Registers \<Rightarrow> Some (read_general_registers h be gdb)
      | Read_Memory \<Rightarrow> Some (read_memory (junk 0, junk 1) gdb data)
      | Read_Register \<Rightarrow> Some (gdb_read_register h be gdb data)
      | Reason \<Rightarrow> Some (reason gdb)
      | Set_Thread \<Rightarrow> Some (set_thread gdb data)
      | Do_Step \<Rightarrow> Some (gdb_step h gdb)
      | Write_General_Registers \<Rightarrow> Some (write_general_registers h be junk gdb data)
      | Write_Memory_Binary \<Rightarrow> Some (write_memory_binary (junk 0, junk 1) gdb data)
      | Write_Register \<Rightarrow> Some (gdb_write_register h be (junk 0) (junk 1) gdb data))"

text \<open>\<open>pkt\<close> is the received text with its final zero byte, so the parameter \<^verbatim>\<open>length\<close> is one less than its
  length; \<open>junk 42\<close> is the variable \<^verbatim>\<open>given\<close>.\<close>

definition gdb_packet_analysis ::
    "host \<Rightarrow> bool \<Rightarrow> (nat \<Rightarrow> u32) \<Rightarrow> gdb_protocol_data \<Rightarrow> u8 list \<Rightarrow> gdb_protocol_data outcome option" where
  "gdb_packet_analysis h be junk gdb pkt =
    (let n = length pkt - 1; i = max 1 (n - 3);
         check = sum_list (take (i - 1) (drop 1 pkt));
         given = scan_x (junk 42) (cstr (drop (i + 1) pkt))
     in if ucast check = given then
          case gdb_send_ack gdb of
            Inl e \<Rightarrow> Some (Inl e)
          | Inr gdb \<Rightarrow>
              let pkt = pkt[i := 0]; index = unat (pkt ! 1)
              in case gdb_init ! index of
                   Some f \<Rightarrow> call_handler h be junk f gdb (drop 2 pkt)
                 | None \<Rightarrow> Some (gdb_send_data gdb '''')
        else Some (gdb_require_retransmission gdb))"

end
