(* ===== verification/Gdb_Packets.thy ===== *)
theory Gdb_Packets
  imports Gdb_Protocol
begin

text \<open>
  The packets of \<^verbatim>\<open>gdb_protocol.c\<close>: what is sent for a given text and when it fits, that a received
  packet with a right checksum is accepted, and that words and whole register files survive the
  way to text and back.
\<close>

section \<open>Frames\<close>

text \<open>A framed text: \<open>$\<close>, the text, \<open>#\<close> and two digits of the sum of its bytes.\<close>

definition frame :: "u8 list \<Rightarrow> u8 list" where
  "frame s = ascii ''$'' @ s @ ascii ''#'' @ hex2 (sum_list s)"

lemma sum_loop_eq: "0 \<notin> set s \<Longrightarrow> sum_loop (s @ 0 # r) c i = Inr (c + sum_list s, i + length s)"
  by (induction s arbitrary: c i) (auto simp: add.assoc)

lemma length_ascii [simp]: "length (ascii s) = length s"
  by (simp add: ascii_def)

lemma store_bytes_at:
  "store_bytes (s @ r) (length s) t = (if length t \<le> length r then Inr (s @ t @ drop (length t) r) else Inl Out_Of_Bounds)"
  by (simp add: store_bytes_def splice_def)

lemma length_frame [simp]: "length (frame s) = length s + 4"
  by (simp add: frame_def)

text \<open>What a command sends: from \<open>g\<close>, the outcome \<open>m\<close> delivers the bytes \<open>t\<close> and leaves a state with \<open>P\<close>, or the connection
  is gone and the process ends for that reason.\<close>

definition sends :: "gdb_protocol_data \<Rightarrow> gdb_protocol_data outcome \<Rightarrow> u8 list \<Rightarrow> (gdb_protocol_data \<Rightarrow> bool) \<Rightarrow> bool" where
  "sends g m t P \<longleftrightarrow>
     (case hangup g of
        Some e \<Rightarrow> m = Inl e
      | None \<Rightarrow> \<exists>g'. m = Inr g' \<and> sent g' = sent g @ t \<and> closed g' = closed g \<and> gdb_fd g' = gdb_fd g \<and> P g')"

lemma sends_writen:
  "t \<noteq> [] \<Longrightarrow> sent g = sent g0 \<Longrightarrow> closed g = closed g0 \<Longrightarrow> gdb_fd g = gdb_fd g0 \<Longrightarrow> P (g\<lparr>sent := sent g0 @ t\<rparr>)
     \<Longrightarrow> sends g0 (fd_writen g t) t P"
  by (simp add: sends_def fd_writen_def hangup_def split: option.split)

lemma sends_mono: "sends g m t P \<Longrightarrow> (\<And>g'. P g' \<Longrightarrow> Q g') \<Longrightarrow> sends g m t Q"
  by (auto simp: sends_def split: option.splits)

lemma sends_from: "sent g = sent g0 \<Longrightarrow> closed g = closed g0 \<Longrightarrow> gdb_fd g = gdb_fd g0 \<Longrightarrow> sends g m t P \<Longrightarrow> sends g0 m t P"
  by (auto simp: sends_def hangup_def split: if_splits link.splits)

text \<open>A connection that stays.\<close>

definition connected :: "gdb_protocol_data \<Rightarrow> bool" where
  "connected g \<longleftrightarrow> \<not> closed g \<and> (\<forall>n. gdb_fd g n = Link_Up)"

lemma connected_hangup: "connected g \<Longrightarrow> hangup g = None"
  by (simp add: connected_def hangup_def)

lemma sends_connected:
  "sends g m t P \<Longrightarrow> connected g \<Longrightarrow> \<exists>g'. m = Inr g' \<and> sent g' = sent g @ t \<and> connected g' \<and> P g'"
  by (auto simp: sends_def connected_hangup connected_def)

lemma frame_not_Nil [simp]: "frame s \<noteq> []"
  by (simp add: frame_def ascii_def)

lemma send_buffer_eq:
  assumes "packet gdb = c # s @ 0 # r" "0 \<notin> set s"
  shows "gdb_send_buffer gdb =
    (if length s + 5 \<le> length (packet gdb)
     then fd_writen (gdb\<lparr>packet := frame s @ 0 # drop 3 r, gdb_len := length s + 4\<rparr>) (frame s)
     else Inl Out_Of_Bounds)"
proof -
  have dollar: "store_bytes (packet gdb) 0 (ascii ''$'') = Inr (ascii ''$'' @ s @ 0 # r)"
    using store_bytes_at[of "[]" "packet gdb" "ascii ''$''"] by (simp add: assms(1) ascii_def)
  have hash: "store_bytes (ascii ''$'' @ s @ 0 # r) (1 + length s) (ascii ''#'')
      = Inr ((ascii ''$'' @ s @ ascii ''#'') @ r)"
    using store_bytes_at[of "ascii ''$'' @ s" "0 # r" "ascii ''#''"] by (simp add: ascii_def)
  have sum: "store_bytes ((ascii ''$'' @ s @ ascii ''#'') @ r) (length s + 2) (hex2 (sum_list s) @ [0])
      = (if 3 \<le> length r then Inr (frame s @ 0 # drop 3 r) else Inl Out_Of_Bounds)"
    using store_bytes_at[of "ascii ''$'' @ s @ ascii ''#''" r "hex2 (sum_list s) @ [0]"] by (simp add: frame_def)
  have zero: "store_bytes (frame s @ 0 # drop 3 r) (length s + 4) [0] = Inr (frame s @ 0 # drop 3 r)"
    using store_bytes_at[of "frame s" "0 # drop 3 r" "[0]"] by simp
  have len: "length s + 5 \<le> length (packet gdb) \<longleftrightarrow> 3 \<le> length r" by (simp add: assms(1))
  have "drop (Suc 0) (ascii ''$'' @ s @ 0 # r) = s @ 0 # r" by (simp add: ascii_def)
  moreover have n4: "Suc (Suc (Suc (Suc (length s)))) = length s + 4" by simp
  ultimately show ?thesis
    using dollar hash sum zero assms(2) sum_loop_eq[of s r 0 1]
    by (simp add: gdb_send_buffer_def len Let_def gdb_transmit_packet_def n4)
qed

text \<open>Writing text behind the text that is already in the buffer.\<close>

lemma buffer_put_eq:
  assumes "packet gdb = c # s @ r" "k = length s"
  shows "buffer_put gdb k t = (if length t < length r
    then Inr (gdb\<lparr>packet := c # (s @ t) @ 0 # drop (length t + 1) r\<rparr>) else Inl Out_Of_Bounds)"
  using store_bytes_at[of "c # s" r "t @ [0]"] by (simp add: buffer_put_def assms)

lemma send_data_eq:
  assumes "length (packet gdb) = MAX_PACKET_SIZE" "0 \<notin> set (ascii data)"
  shows "gdb_send_data gdb data = (if length data \<le> 1019
    then fd_writen (gdb\<lparr>packet := frame (ascii data) @ 0 # drop (length data + 5) (packet gdb),
           gdb_len := length data + 4\<rparr>) (frame (ascii data))
    else Inl Out_Of_Bounds)"
proof -
  obtain c r where pk: "packet gdb = c # r" using assms(1) by (cases "packet gdb") auto
  have len: "length r = 1023" using assms(1) pk by simp
  have drop: "drop (length data + 5) (c # r) = drop (length data + 4) r" by (simp add: drop_Cons' add.commute)
  show ?thesis
  proof (cases "length data \<le> 1019")
    case True
    then show ?thesis
      using buffer_put_eq[of gdb c "[]" r 0 "ascii data"] assms(2) len
        send_buffer_eq[of "gdb\<lparr>packet := c # ascii data @ 0 # drop (length data + 1) r\<rparr>" c "ascii data" "drop (length data + 1) r"]
      by (simp add: gdb_send_data_def pk drop add.commute del: drop_Suc_Cons)
  next
    case False
    then show ?thesis
      using buffer_put_eq[of gdb c "[]" r 0 "ascii data"] assms(2) len
        send_buffer_eq[of "gdb\<lparr>packet := c # ascii data @ 0 # drop (length data + 1) r\<rparr>" c "ascii data" "drop (length data + 1) r"]
      by (cases "length data < 1023") (simp_all add: gdb_send_data_def pk)
  qed
qed

lemma send_short:
  assumes "length (packet gdb) = MAX_PACKET_SIZE" "0 \<notin> set (ascii data)" "length data \<le> 1019"
  shows "sends gdb (gdb_send_data gdb data) (frame (ascii data))
    (\<lambda>g. gdb_arm g = gdb_arm gdb \<and> target_exception g = target_exception gdb \<and> length (packet g) = MAX_PACKET_SIZE)"
  using send_data_eq[OF assms(1,2)] assms(1,3) by (simp add: sends_writen)

lemma scan_check_digits: "scan_x junk (cstr (hex2 v @ [0])) = ucast v"
  using sscanf_hex2[of v "[]"] by (simp add: scan_x_def cstr_append hex2_nonzero)

section \<open>Words as text\<close>

text \<open>The text of a word: its bytes in the simulated order, two digits each.\<close>

definition word_text :: "bool \<Rightarrow> u32 \<Rightarrow> u8 list" where
  "word_text be v = concat (map hex2 (if be then rev (le_bytes 4 v) else le_bytes 4 v))"

lemma write_uint32_eq: "write_uint32 h be v = word_text be v"
  by (auto simp: write_uint32_def word_text_def host_bytes_def is_big_endian_eq Let_def)

lemma length_word_text [simp]: "length (word_text be v) = 8"
  by (simp add: word_text_def length_concat comp_def numeral_eq_Suc)

lemma word_text_nonzero: "0 \<notin> set (word_text be v)"
  using hex2_nonzero by (auto simp: word_text_def)

lemma scan_byte_hex2: "scan_byte (a @ hex2 b @ r) (length a) old = Inr (ucast b)"
  using sscanf_hex2[of b "cstr r"]
  by (simp add: scan_byte_def cstr_at_def cstr_append hex2_nonzero)

lemma ucast_u8_u32: "ucast (ucast x :: u32) = x" for x :: u8
  by (intro bit_word_eqI) (auto simp: bit_simps dest: bit_imp_le_length)

lemma four_bytes: "\<exists>b0 b1 b2 b3. le_bytes 4 v = [b0, b1, b2, b3] \<and> from_le [b0, b1, b2, b3] = v" for v :: u32
proof -
  have "from_le (le_bytes 4 v) = v" by (simp add: from_le_le_bytes take_bit_word_eq_self)
  then show ?thesis using list_of_4[of "le_bytes 4 v"] by auto
qed

lemma read_uint32_word_text: "read_uint32 h be junk (a @ word_text be v @ r) (length a) = Inr v"
proof -
  obtain b0 b1 b2 b3 where b: "le_bytes 4 v = [b0, b1, b2, b3]" "from_le [b0, b1, b2, b3] = v"
    using four_bytes by blast
  obtain c0 c1 c2 c3 where c: "(if be then rev (le_bytes 4 v) else le_bytes 4 v) = [c0, c1, c2, c3]"
      "from_le (if be then [c3, c2, c1, c0] else [c0, c1, c2, c3]) = v"
    using b by (cases be) auto
  have t: "word_text be v = hex2 c0 @ hex2 c1 @ hex2 c2 @ hex2 c3" by (simp add: word_text_def c(1))
  have scans: "scan_byte (a @ word_text be v @ r) (length a) old = Inr (ucast c0)"
    "scan_byte (a @ word_text be v @ r) (length a + 2) old = Inr (ucast c1)"
    "scan_byte (a @ word_text be v @ r) (length a + 4) old = Inr (ucast c2)"
    "scan_byte (a @ word_text be v @ r) (length a + 6) old = Inr (ucast c3)" for old
    using scan_byte_hex2[of a c0 "hex2 c1 @ hex2 c2 @ hex2 c3 @ r"]
      scan_byte_hex2[of "a @ hex2 c0" c1 "hex2 c2 @ hex2 c3 @ r"]
      scan_byte_hex2[of "a @ hex2 c0 @ hex2 c1" c2 "hex2 c3 @ r"]
      scan_byte_hex2[of "a @ hex2 c0 @ hex2 c1 @ hex2 c2" c3 r]
    by (simp_all add: t)
  have "read_uint32 h be junk (a @ word_text be v @ r) (length a)
      = Inr (host_value h (if is_big_endian h = of_bool be then [c0, c1, c2, c3] else rev [c0, c1, c2, c3]))"
    by (simp only: read_uint32_def scans ucast_u8_u32 Let_def bnd_Inr)
  also have "host_value h (if is_big_endian h = of_bool be then [c0, c1, c2, c3] else rev [c0, c1, c2, c3]) = v"
    unfolding c(2)[symmetric] by (simp add: host_value_def is_big_endian_eq del: from_le.simps)
  finally show ?thesis .
qed

section \<open>Filling the buffer\<close>

text \<open>The state \<open>g\<close> is \<open>g0\<close> with the text \<open>s\<close> in the buffer, and with a zero byte behind it.\<close>

definition holds :: "gdb_protocol_data \<Rightarrow> u8 list \<Rightarrow> gdb_protocol_data \<Rightarrow> bool" where
  "holds g0 s g \<longleftrightarrow> g = g0\<lparr>packet := packet g\<rparr> \<and> length (packet g) = MAX_PACKET_SIZE
     \<and> (\<exists>c r. packet g = c # s @ r)"

definition holds0 :: "gdb_protocol_data \<Rightarrow> u8 list \<Rightarrow> gdb_protocol_data \<Rightarrow> bool" where
  "holds0 g0 s g \<longleftrightarrow> g = g0\<lparr>packet := packet g\<rparr> \<and> length (packet g) = MAX_PACKET_SIZE
     \<and> (\<exists>c r. packet g = c # s @ 0 # r)"

lemma holds0_holds: "holds0 g0 s g \<Longrightarrow> holds g0 s g"
  unfolding holds0_def holds_def by blast

lemma holds_init: "length (packet g) = MAX_PACKET_SIZE \<Longrightarrow> holds g [] g"
  by (cases "packet g") (simp_all add: holds_def)

lemma holds_arm: "holds g0 s g \<Longrightarrow> gdb_arm g = gdb_arm g0"
  unfolding holds_def by (metis gdb_protocol_data.select_convs(1) gdb_protocol_data.surjective
      gdb_protocol_data.update_convs(3))

lemma put_holds:
  assumes "holds g0 s g" "k = length s" "length s + length t + 2 \<le> MAX_PACKET_SIZE"
  shows "returns (buffer_put g k t) (holds0 g0 (s @ t))"
proof -
  obtain c r where pk: "packet g = c # s @ r" and len: "length (packet g) = MAX_PACKET_SIZE"
    and g: "g = g0\<lparr>packet := packet g\<rparr>"
    using assms(1) unfolding holds_def by blast
  have "length t < length r" using len assms(3) by (simp add: pk)
  then have "buffer_put g k t = Inr (g\<lparr>packet := c # (s @ t) @ 0 # drop (length t + 1) r\<rparr>)"
    using buffer_put_eq[OF pk assms(2), of t] by simp
  moreover have "g\<lparr>packet := x\<rparr> = g0\<lparr>packet := x\<rparr>" for x by (subst g) simp
  ultimately show ?thesis using len \<open>length t < length r\<close> by (simp add: holds0_def pk)
qed

lemma puts_hold:
  assumes "holds g0 s g" "8 * n + length s + 2 \<le> MAX_PACKET_SIZE"
    and "\<And>i g. i < n \<Longrightarrow> gdb_arm g = gdb_arm g0 \<Longrightarrow> body i g = buffer_put g (length s + 8 * i) (t i)"
    and "\<And>i. length (t i) = 8"
  shows "returns (for_out [0..<n] body g) (holds g0 (s @ concat (map t [0..<n])))"
  using assms(2,3)
proof (induction n)
  case 0
  then show ?case using assms(1) by simp
next
  case (Suc n)
  have len: "length (concat (map t [0..<n])) = 8 * n" by (induction n) (simp_all add: assms(4))
  have "returns (body n g') (holds g0 (s @ concat (map t [0..<Suc n])))"
    if "holds g0 (s @ concat (map t [0..<n])) g'" for g'
    using put_holds[OF that, of "length s + 8 * n" "t n"] Suc.prems holds_arm[OF that] len assms(4)
    by (auto intro: holds0_holds elim: returns_mono)
  then show ?case
    using Suc by (auto simp: for_out_append returns_bnd elim: returns_mono)
qed

lemma send_holds:
  assumes "holds0 g0 s g" "0 \<notin> set s"
  shows "if length s \<le> 1019
    then sends g0 (gdb_send_buffer g) (frame s)
      (\<lambda>g1. gdb_arm g1 = gdb_arm g0 \<and> target_exception g1 = target_exception g0 \<and> length (packet g1) = MAX_PACKET_SIZE)
    else gdb_send_buffer g = Inl Out_Of_Bounds"
proof -
  obtain c r where pk: "packet g = c # s @ 0 # r" and len: "length (packet g) = MAX_PACKET_SIZE"
    and g: "g = g0\<lparr>packet := packet g\<rparr>"
    using assms(1) unfolding holds0_def by blast
  have "length s + length r = 1022" using len by (simp add: pk)
  moreover have "sent g = sent g0" "closed g = closed g0" "gdb_fd g = gdb_fd g0" "gdb_arm g = gdb_arm g0"
      "target_exception g = target_exception g0"
    by (subst g; simp)+
  ultimately show ?thesis using send_buffer_eq[OF pk assms(2)] len by (auto intro!: sends_writen)
qed

section \<open>The registers as text\<close>

definition regs_text :: "bool \<Rightarrow> cpu \<Rightarrow> u8 list" where
  "regs_text be p = concat (map (\<lambda>r. word_text be (rget p r)) [0..<15])
     @ word_text be (pc_view (rget p 15) - 4)
     @ concat (replicate 25 (ascii ''xxxxxxxx'')) @ word_text be (rget p 16)"

lemma ascii_nonzero: "0 \<notin> set (ascii ''xxxxxxxx'')"
  by (simp add: ascii_def)

lemma regs_text_nonzero: "0 \<notin> set (regs_text be p)"
  using word_text_nonzero ascii_nonzero by (auto simp: regs_text_def)

lemma length_texts: "(\<And>i. length (t i) = 8) \<Longrightarrow> length (concat (map t [0..<n])) = 8 * n"
  by (induction n) simp_all

lemma length_regs_text [simp]: "length (regs_text be p) = 336"
proof -
  have "length (concat (map (\<lambda>r. word_text be (rget p r)) [0..<15])) = 8 * 15" by (rule length_texts) simp
  moreover have "length (concat (replicate 25 (ascii ''xxxxxxxx''))) = 200"
    by (simp add: length_concat sum_list_replicate)
  ultimately show ?thesis by (simp add: regs_text_def del: map_eq_conv)
qed

lemma read_registers_holds:
  assumes "sys_core (gdb_arm g)" "length (packet g) = MAX_PACKET_SIZE"
  shows "\<exists>g'. holds0 g (regs_text be (gdb_arm g)) g' \<and> read_general_registers h be g = gdb_send_buffer g'"
proof -
  let ?p = "gdb_arm g" and ?t = "\<lambda>r. word_text be (rget (gdb_arm g) r)"
  let ?s1 = "concat (map ?t [0..<15])" and ?x = "\<lambda>i :: nat. ascii ''xxxxxxxx''"
  let ?s2 = "?s1 @ word_text be (pc_view (rget ?p 15) - 4)"
  let ?s3 = "?s2 @ concat (map ?x [0..<24])"
  have len: "length ?s1 = 120" using length_texts[of ?t 15] by simp
  have lenx: "length (concat (map ?x [0..<24])) = 192" using length_texts[of ?x 24] by simp
  have read: "arm_read_register (gdb_arm q) (of_nat i) = Inr (rget ?p i)" if "gdb_arm q = ?p" "i < 15" for q i
    using assms(1) that by (simp add: rview_def)
  have "returns (for_out [0..<15] (\<lambda>i gdb. bnd (arm_read_register (gdb_arm gdb) (of_nat i)) (\<lambda>v.
      buffer_put gdb (8 * i) (write_uint32 h be v))) g) (holds g ?s1)"
    using puts_hold[OF holds_init[OF assms(2)], where n = 15 and t = ?t
        and body = "\<lambda>i gdb. bnd (arm_read_register (gdb_arm gdb) (of_nat i)) (\<lambda>v. buffer_put gdb (8 * i) (write_uint32 h be v))"]
    by (simp add: read write_uint32_eq)
  then obtain g1 where g1: "for_out [0..<15] (\<lambda>i gdb. bnd (arm_read_register (gdb_arm gdb) (of_nat i)) (\<lambda>v.
      buffer_put gdb (8 * i) (write_uint32 h be v))) g = Inr g1" "holds g ?s1 g1" by (auto simp: returns_def)
  obtain g2 where g2: "buffer_put g1 120 (word_text be (pc_view (rget ?p 15) - 4)) = Inr g2" "holds g ?s2 g2"
    using put_holds[OF g1(2), of 120 "word_text be (pc_view (rget ?p 15) - 4)"] len
    by (auto simp: returns_def dest: holds0_holds)
  have "returns (for_out [0..<24] (\<lambda>i gdb. buffer_put gdb (8 * (16 + i)) (ascii ''xxxxxxxx'')) g2) (holds g ?s3)"
    using puts_hold[OF g2(2), where n = 24 and t = ?x
        and body = "\<lambda>i gdb. buffer_put gdb (8 * (16 + i)) (ascii ''xxxxxxxx'')"] len by simp
  then obtain g3 where g3: "for_out [0..<24] (\<lambda>i gdb. buffer_put gdb (8 * (16 + i)) (ascii ''xxxxxxxx'')) g2 = Inr g3"
      "holds g ?s3 g3" by (auto simp: returns_def)
  obtain g4 where g4: "buffer_put g3 320 (ascii ''xxxxxxxx'') = Inr g4" "holds g (?s3 @ ascii ''xxxxxxxx'') g4"
    using put_holds[OF g3(2), of 320 "ascii ''xxxxxxxx''"] len lenx by (auto simp: returns_def dest: holds0_holds)
  obtain g5 where g5: "buffer_put g4 328 (word_text be (rget ?p 16)) = Inr g5"
      "holds0 g ((?s3 @ ascii ''xxxxxxxx'') @ word_text be (rget ?p 16)) g5"
    using put_holds[OF g4(2), of 328 "word_text be (rget ?p 16)"] len lenx by (auto simp: returns_def)
  have all: "(?s3 @ ascii ''xxxxxxxx'') @ word_text be (rget ?p 16) = regs_text be ?p"
    by (simp add: regs_text_def numeral_eq_Suc map_replicate_const)
  have "read_general_registers h be g = gdb_send_buffer g5"
    using assms(1) g1 g2 g3 g4 g5(1) holds_arm[OF g1(2)] holds_arm[OF g4(2)]
    by (simp add: read_general_registers_def write_uint32_eq core_eqs rview_def)
  with g5(2) all show ?thesis by auto
qed

lemma read_nth_word:
  assumes "i < n"
  shows "read_uint32 h be junk (concat (map (\<lambda>i. word_text be (w i)) [0..<n]) @ r) (8 * i) = Inr (w i)"
proof -
  have "[0..<n] = [0..<i] @ i # [Suc i..<n]"
    using assms upt_add_eq_append[of 0 i "n - i"] by (simp add: upt_conv_Cons)
  moreover have "length (concat (map (\<lambda>i. word_text be (w i)) [0..<i])) = 8 * i" by (rule length_texts) simp
  ultimately show ?thesis
    using read_uint32_word_text[of h be junk "concat (map (\<lambda>i. word_text be (w i)) [0..<i])" "w i"] by simp
qed

lemma read_uint32_total: "k + 6 < length data \<Longrightarrow> \<exists>v. read_uint32 h be junk data k = Inr v"
  by (simp add: read_uint32_def scan_byte_def cstr_at_def Let_def)

lemma write_regs_snoc: "write_regs p (rvs @ [(r, v)]) = rset (write_regs p rvs) r v"
  by (simp add: write_regs_def)

lemma write_registers_loop:
  assumes "sys_core (gdb_arm g)" "n \<le> 16" and "\<And>i. i < n \<Longrightarrow> read_uint32 h be (junk i) data (8 * i) = Inr (w i)"
  shows "for_out [0..<n] (\<lambda>i gdb. bnd (read_uint32 h be (junk i) data (8 * i)) (\<lambda>value.
      bnd (arm_write_register (gdb_arm gdb) (of_nat i) value) (\<lambda>p. Inr (gdb\<lparr>gdb_arm := p\<rparr>)))) g
    = Inr (g\<lparr>gdb_arm := write_regs (gdb_arm g) (map (\<lambda>i. (i, w i)) [0..<n])\<rparr>)"
  using assms(2,3)
proof (induction n)
  case (Suc n)
  then show ?case using assms(1) by (simp add: for_out_append write_regs_snoc)
qed simp

text \<open>The text of the registers as sixteen words and a tail.\<close>

definition reg_word :: "cpu \<Rightarrow> nat \<Rightarrow> u32" where
  "reg_word p i = (if i = 15 then pc_view (rget p 15) - 4 else rget p i)"

lemma regs_text_words:
  "regs_text be p = concat (map (\<lambda>i. word_text be (reg_word p i)) [0..<16])
     @ concat (replicate 25 (ascii ''xxxxxxxx'')) @ word_text be (rget p 16)"
proof -
  have "[0..<16] = [0..<15] @ [15]" by (simp add: upt_rec)
  moreover have "map (\<lambda>i. word_text be (reg_word p i)) [0..<15] = map (\<lambda>r. word_text be (rget p r)) [0..<15]"
    by (rule map_cong) (auto simp: reg_word_def)
  moreover have "reg_word p 15 = pc_view (rget p 15) - 4" by (simp add: reg_word_def)
  ultimately show ?thesis by (simp add: regs_text_def del: map_eq_conv)
qed

lemma write_registers_eq:
  assumes "sys_core (gdb_arm g)"
  shows "write_general_registers h be junk g (regs_text be p @ z) =
    gdb_send_data (g\<lparr>gdb_arm := rset (write_regs (gdb_arm g) (map (\<lambda>i. (i, reg_word p i)) [0..<16])) 16 (rget p 16)\<rparr>) ''OK''"
proof -
  let ?data = "regs_text be p @ z" and ?g = "g\<lparr>gdb_arm := write_regs (gdb_arm g) (map (\<lambda>i. (i, reg_word p i)) [0..<16])\<rparr>"
  have words: "read_uint32 h be (junk i) ?data (8 * i) = Inr (reg_word p i)" if "i < 16" for i
    using read_nth_word[OF that, of h be "junk i" "reg_word p"] by (simp add: regs_text_words)
  have skip: "\<exists>v. read_uint32 h be j ?data (8 * (16 + i)) = Inr v" if "i < 25" for i j
    using that by (intro read_uint32_total) simp
  have fps: "for_out [0..<24] (\<lambda>i gdb. bnd (read_uint32 h be (junk (16 + i)) ?data (8 * (16 + i))) (\<lambda>value. Inr gdb)) q = Inr q" for q
  proof -
    have "for_out is (\<lambda>i gdb. bnd (read_uint32 h be (junk (16 + i)) ?data (8 * (16 + i))) (\<lambda>value. Inr gdb)) q = Inr q"
      if "set is \<subseteq> {..<25}" for "is"
      using that
    proof (induction "is")
      case (Cons i "is")
      then show ?case using skip[of i "junk (16 + i)"] by auto
    qed simp
    from this[of "[0..<24]"] show ?thesis by fastforce
  qed
  have cpsr: "read_uint32 h be (junk 41) ?data 328 = Inr (rget p 16)"
  proof -
    let ?a = "concat (map (\<lambda>i. word_text be (reg_word p i)) [0..<16]) @ concat (replicate 25 (ascii ''xxxxxxxx''))"
    have "length (concat (map (\<lambda>i. word_text be (reg_word p i)) [0..<16])) = 8 * 16" by (rule length_texts) simp
    then have "length ?a = 328" by (simp add: length_concat sum_list_replicate)
    then show ?thesis using read_uint32_word_text[of h be "junk 41" ?a "rget p 16" z]
      by (simp add: regs_text_words)
  qed
  show ?thesis
    using write_registers_loop[OF assms, where n = 16 and data = ?data and w = "reg_word p" and h = h and be = be and junk = junk]
      words fps[of ?g] cpsr skip[of 24 "junk 40"] assms
    by (auto simp: write_general_registers_def core_eqs)
qed

lemma pc_view_back: "pc_view v - 4 = v AND 0xFFFFFFFD"
proof -
  have m: "(0xFFFFFFFD :: u32) = - 3" by simp
  have mask: "x AND 0xFFFFFFFD = x - of_bool (bit x 1) * 2" for x :: u32
  proof -
    have "x AND 0xFFFFFFFD = unset_bit 1 x" unfolding m by (simp add: unset_bit_eq_and_not)
    then show ?thesis by (simp add: unset_bit_eq)
  qed
  show ?thesis unfolding pc_view_def mask using bit_plus_4[of v] by simp
qed

lemma rget_written_regs:
  assumes "sys_core q" "r < 17"
  shows "rget (rset (write_regs q (map (\<lambda>i. (i, reg_word p i)) [0..<16])) 16 (rget p 16)) r =
    (if r = 15 then rget p 15 AND 0xFFFFFFFD else rget p r)"
proof -
  let ?rvs = "map (\<lambda>i. (i, reg_word p i)) [0..<16]"
  have "?rvs = zip [0..<16] (map (reg_word p) [0..<16])"
    by (simp add: zip_map2 zip_same_conv_map)
  then have "rget (write_regs q ?rvs) r = reg_word p r" if "r < 16"
    using write_regs_zip(1)[of q "[0..<16]" "map (reg_word p) [0..<16]" r] assms(1) that by (auto simp: subset_eq)
  moreover have "reg_word p r = (if r = 15 then rget p 15 AND 0xFFFFFFFD else rget p r)" if "r < 16"
    by (simp add: reg_word_def pc_view_back)
  ultimately show ?thesis
    using assms by (auto simp: rget_rset)
qed

section \<open>Received packets\<close>

text \<open>What the analysis computes from a packet with the text \<open>t\<close> and the check digits of \<open>v\<close>.\<close>

lemma packet_parts:
  fixes t :: "u8 list" and v :: u8
  defines "pkt \<equiv> ascii ''$'' @ t @ ascii ''#'' @ hex2 v @ [0]"
  shows "max 1 (length pkt - 1 - 3) = 1 + length t" "take (length t) (drop 1 pkt) = t"
    "drop (1 + length t + 1) pkt = hex2 v @ [0]" "pkt[1 + length t := 0] = ascii ''$'' @ t @ 0 # hex2 v @ [0]"
    "t \<noteq> [] \<Longrightarrow> pkt[1 + length t := 0] ! 1 = hd t"
    "t \<noteq> [] \<Longrightarrow> drop 2 (pkt[1 + length t := 0]) = tl t @ 0 # hex2 v @ [0]"
  unfolding pkt_def by (cases t; simp add: ascii_def list_update_append)+

lemma packet_analysis_eq:
  assumes "t \<noteq> []"
  shows "gdb_packet_analysis h be junk gdb (ascii ''$'' @ t @ ascii ''#'' @ hex2 v @ [0]) =
    (if v = sum_list t then
       case hangup gdb of
         Some e \<Rightarrow> Some (Inl e)
       | None \<Rightarrow>
          (case gdb_init ! unat (hd t) of
             Some f \<Rightarrow> call_handler h be junk f (gdb\<lparr>sent := sent gdb @ ascii ''+''\<rparr>) (tl t @ 0 # hex2 v @ [0])
           | None \<Rightarrow> Some (gdb_send_data (gdb\<lparr>sent := sent gdb @ ascii ''+''\<rparr>) ''''))
     else Some (case hangup gdb of Some e \<Rightarrow> Inl e | None \<Rightarrow> Inr (gdb\<lparr>sent := sent gdb @ ascii ''-''\<rparr>)))"
proof -
  have cast: "ucast a = (ucast b :: u32) \<longleftrightarrow> a = b" for a b :: u8
    by (metis ucast_u8_u32)
  note parts = packet_parts[of t v]
  show ?thesis
    unfolding gdb_packet_analysis_def Let_def parts(1) parts(5)[OF assms] parts(6)[OF assms]
      add_diff_cancel_left' parts(2,3) scan_check_digits cast gdb_send_ack_def gdb_require_retransmission_def fd_writen_def
    by (auto simp: ascii_def split: option.splits)
qed

section \<open>Properties\<close>

text \<open>A protocol state over a concrete machine, for the witnesses.\<close>

definition gdb_machine :: "u8 list \<Rightarrow> gdb_protocol_data" where
  "gdb_machine img = the (gdb_init_data (cpu_machine img) (\<lambda>n. Link_Up) (Some (replicate MAX_PACKET_SIZE 0)))"

lemma gdb_machine_simps [simp]:
  "gdb_arm (gdb_machine img) = cpu_machine img" "length (packet (gdb_machine img)) = MAX_PACKET_SIZE"
  "sent (gdb_machine img) = []" "target_exception (gdb_machine img) = 0" "hangup (gdb_machine img) = None"
  "connected (gdb_machine img)"
  by (simp_all add: gdb_machine_def gdb_init_data_def hangup_def connected_def)

lemma hangup_arm [simp]: "hangup (g\<lparr>gdb_arm := p\<rparr>) = hangup g" "connected (g\<lparr>gdb_arm := p\<rparr>) = connected g"
  "connected (g\<lparr>sent := s\<rparr>) = connected g"
  by (simp_all add: hangup_def connected_def)

text \<open>An answer of at most 1019 bytes is sent as one packet: \<open>$\<close>, the text, \<open>#\<close> and the two-digit sum of
  its bytes; the processor is untouched, and a request for retransmission sends the same bytes
  again.  A longer answer leaves the 1024 bytes of the packet buffer.\<close>

theorem send_data_framed:
  assumes "length (packet gdb) = MAX_PACKET_SIZE" and "0 \<notin> set (ascii data)"
  shows "if length data \<le> 1019
    then sends gdb (gdb_send_data gdb data) (frame (ascii data))
      (\<lambda>gdb'. sends gdb' (gdb_transmit_packet gdb') (frame (ascii data)) (\<lambda>g. gdb_arm g = gdb_arm gdb)
        \<and> gdb_arm gdb' = gdb_arm gdb \<and> length (packet gdb') = MAX_PACKET_SIZE)
    else gdb_send_data gdb data = Inl Out_Of_Bounds"
  using send_data_eq[OF assms] assms(1) by (simp add: gdb_transmit_packet_def sends_writen)

theorem send_data_framed_witness:
  "\<exists>gdb'. gdb_send_data (gdb_machine [0, 0, 0, 0]) ''OK'' = Inr gdb' \<and> sent gdb' = ascii ''$OK#9a''"
proof -
  have "frame (ascii ''OK'') = ascii ''$OK#9a''" "0 \<notin> set (ascii ''OK'')" by code_simp+
  then show ?thesis using send_data_framed[of "gdb_machine [0, 0, 0, 0]" "''OK''"] by (auto simp: sends_def)
qed

text \<open>C33: a received packet with the right check digits is acknowledged with \<open>+\<close> and its text goes to the
  handler of its first byte, or is answered by an empty packet if there is none; with other check
  digits the answer is \<open>-\<close> and nothing else happens.  If the connection is gone, the process ends instead.\<close>

theorem packet_analysis_correct:
  assumes "t \<noteq> []"
  shows "gdb_packet_analysis h be junk gdb (frame t @ [0]) =
      (case hangup gdb of
         Some e \<Rightarrow> Some (Inl e)
       | None \<Rightarrow>
          (case gdb_init ! unat (hd t) of
             Some f \<Rightarrow> call_handler h be junk f (gdb\<lparr>sent := sent gdb @ ascii ''+''\<rparr>) (tl t @ 0 # hex2 (sum_list t) @ [0])
           | None \<Rightarrow> Some (gdb_send_data (gdb\<lparr>sent := sent gdb @ ascii ''+''\<rparr>) '''')))
    \<and> (v \<noteq> sum_list t \<longrightarrow> gdb_packet_analysis h be junk gdb (ascii ''$'' @ t @ ascii ''#'' @ hex2 v @ [0])
        = Some (case hangup gdb of Some e \<Rightarrow> Inl e | None \<Rightarrow> Inr (gdb\<lparr>sent := sent gdb @ ascii ''-''\<rparr>)))"
  using packet_analysis_eq[OF assms, of h be junk gdb] by (simp add: frame_def)

theorem packet_analysis_correct_witness:
  "gdb_packet_analysis x86_host False (\<lambda>i. 0) (gdb_machine [0, 0, 0, 0]) (ascii ''$k#6b'' @ [0])
     = Some (Inr ((gdb_machine [0, 0, 0, 0])\<lparr>sent := ascii ''+'', closed := True\<rparr>))
   \<and> gdb_packet_analysis x86_host False (\<lambda>i. 0) (gdb_machine [0, 0, 0, 0]) (ascii ''$k#6c'' @ [0])
     = Some (Inr ((gdb_machine [0, 0, 0, 0])\<lparr>sent := ascii ''-''\<rparr>))"
proof -
  have "frame (ascii ''k'') = ascii ''$k#6b''" "ascii ''$'' @ ascii ''k'' @ ascii ''#'' @ hex2 0x6c = ascii ''$k#6c''"
    "gdb_init ! unat (hd (ascii ''k'')) = Some Kill_Request" "0x6c \<noteq> sum_list (ascii ''k'')" by code_simp+
  moreover have "ascii ''k'' \<noteq> []" by (simp add: ascii_def)
  ultimately show ?thesis
    using packet_analysis_correct[of "ascii ''k''" x86_host False "\<lambda>i. 0" "gdb_machine [0, 0, 0, 0]" "0x6c"]
    by (simp add: call_handler_def kill_request_def flip: append_assoc)
qed

text \<open>C22: saving and restoring the registers.  The answer to \<open>g\<close> is one packet of 336 digits, on any host; given
  back as the argument of \<open>G\<close>, to any processor and on any other host, it makes all sixteen
  registers and the CPSR those of the first processor, but for bit 1 of the PC, which \<open>g\<close> reports as clear, changes no
  memory, and is answered \<open>OK\<close>.\<close>

theorem registers_roundtrip:
  assumes "sys_core (gdb_arm g)" and "length (packet g) = MAX_PACKET_SIZE"
    and "sys_core (gdb_arm g')" and "length (packet g') = MAX_PACKET_SIZE"
  shows "\<exists>t. length t = 336
    \<and> sends g (read_general_registers h be g) (frame t) (\<lambda>g1. gdb_arm g1 = gdb_arm g)
    \<and> sends g' (write_general_registers h' be junk g' (t @ 0 # z)) (frame (ascii ''OK'')) (\<lambda>g2.
        mem (gdb_arm g2) = mem (gdb_arm g')
        \<and> (\<forall>r < 17. rget (gdb_arm g2) r = (if r = 15 then rget (gdb_arm g) 15 AND 0xFFFFFFFD else rget (gdb_arm g) r)))"
proof -
  let ?t = "regs_text be (gdb_arm g)"
  obtain g0 where g0: "holds0 g ?t g0" "read_general_registers h be g = gdb_send_buffer g0"
    using read_registers_holds[OF assms(1,2)] by blast
  have read: "sends g (read_general_registers h be g) (frame ?t) (\<lambda>g1. gdb_arm g1 = gdb_arm g)"
    using send_holds[OF g0(1) regs_text_nonzero] g0(2) by (auto elim: sends_mono)
  let ?q = "rset (write_regs (gdb_arm g') (map (\<lambda>i. (i, reg_word (gdb_arm g) i)) [0..<16])) 16 (rget (gdb_arm g) 16)"
  have "0 \<notin> set (ascii ''OK'')" by (simp add: ascii_def)
  then have "sends g' (gdb_send_data (g'\<lparr>gdb_arm := ?q\<rparr>) ''OK'') (frame (ascii ''OK'')) (\<lambda>g2. gdb_arm g2 = ?q)"
    using send_short[of "g'\<lparr>gdb_arm := ?q\<rparr>" "''OK''"] assms(4)
    by (intro sends_from[of "g'\<lparr>gdb_arm := ?q\<rparr>" g']) (auto elim: sends_mono)
  moreover have "mem ?q = mem (gdb_arm g')" by simp
  ultimately show ?thesis
    using read write_registers_eq[OF assms(3), of h' be junk "gdb_arm g" "0 # z"] rget_written_regs[OF assms(3)]
    by (intro exI[of _ ?t]) (auto elim: sends_mono)
qed

theorem registers_roundtrip_witness:
  "\<exists>t g2. write_general_registers x86_host False (\<lambda>i. 0) (gdb_machine [1, 2, 3, 4]) t = Inr g2
     \<and> rget (gdb_arm g2) 3 = 77 \<and> sent g2 = frame (ascii ''OK'')"
proof -
  let ?g = "(gdb_machine [0, 0, 0, 0])\<lparr>gdb_arm := rset (cpu_machine [0, 0, 0, 0]) 3 77\<rparr>"
  have "sys_core (gdb_arm ?g)" "rget (gdb_arm ?g) 3 = 77"
    by (simp_all add: sys_core_cpu_machine rget_rset)
  moreover from this obtain t where
      "sends (gdb_machine [1, 2, 3, 4]) (write_general_registers x86_host False (\<lambda>i. 0) (gdb_machine [1, 2, 3, 4]) (t @ [0]))
        (frame (ascii ''OK'')) (\<lambda>g2. mem (gdb_arm g2) = mem (cpu_machine [1, 2, 3, 4])
          \<and> (\<forall>r < 17. rget (gdb_arm g2) r = (if r = 15 then rget (gdb_arm ?g) 15 AND 0xFFFFFFFD else rget (gdb_arm ?g) r)))"
    using registers_roundtrip[of ?g "gdb_machine [1, 2, 3, 4]" x86_host False x86_host "\<lambda>i. 0" "[]"]
      sys_core_cpu_machine[of "[1, 2, 3, 4]"] by auto
  ultimately show ?thesis by (intro exI[of _ "t @ [0]"]) (auto simp: sends_def)
qed

end
