(* ===== verification/Gdb_Memory.thy ===== *)
theory Gdb_Memory
  imports Gdb_Packets
begin

text \<open>
  The commands \<open>m\<close> and \<open>X\<close> of \<^verbatim>\<open>gdb_protocol.c\<close>: numbers in hexadecimal, the answer to a memory read with
  the sizes that fit the packet buffer, and binary writes with their escapes.
\<close>

section \<open>Numbers in hexadecimal\<close>

fun hex_digits :: "nat \<Rightarrow> u8 list" where
  "hex_digits n = (if n < 16 then [hex_digit n] else hex_digits (n div 16) @ [hex_digit (n mod 16)])"

declare hex_digits.simps [simp del]

lemma digits_value_snoc:
  "digit_value c = Some d \<Longrightarrow> digits_value b (ds @ [c]) = digits_value b ds * b + d"
  by (simp add: digits_value_def)

lemma digits_value_hex: "digits_value 16 (hex_digits n) = n"
proof (induction n rule: hex_digits.induct)
  case (1 n)
  show ?case
  proof (cases "n < 16")
    case True
    then show ?thesis
      by (simp add: hex_digits.simps[of n] digits_value_def digit_value_hex_digit)
  next
    case False
    then show ?thesis
      using 1 by (simp add: hex_digits.simps[of n] digits_value_snoc[OF digit_value_hex_digit])
  qed
qed

text \<open>A character that \<^verbatim>\<open>%x\<close> reads as a digit and as nothing else.\<close>

definition plain_digit :: "u8 \<Rightarrow> bool" where
  "plain_digit c \<longleftrightarrow> digit_value c \<noteq> None \<and> \<not> is_space c \<and> c \<noteq> 45 \<and> c \<noteq> 43 \<and> c \<noteq> 120 \<and> c \<noteq> 88 \<and> c \<noteq> 0"

lemma plain_hex_digit: "n < 16 \<Longrightarrow> plain_digit (hex_digit n)"
  using hex_digit_plain digit_value_hex_digit by (simp add: plain_digit_def)

lemma hex_digits_plain: "hex_digits n \<noteq> [] \<and> (\<forall>c \<in> set (hex_digits n). plain_digit c)"
proof (induction n rule: hex_digits.induct)
  case (1 n)
  then show ?case by (cases "n < 16") (auto simp: hex_digits.simps[of n] plain_hex_digit)
qed

lemma hex_digits_nonzero: "0 \<notin> set (hex_digits n)"
  using hex_digits_plain[of n] by (auto simp: plain_digit_def)

text \<open>Reading a number that ends at a character that is no digit and no \<open>x\<close>.\<close>

lemma sscanf_digits:
  assumes "ds \<noteq> []" "\<forall>c \<in> set ds. plain_digit c" "length (ds @ r) \<le> w"
    and "r = [] \<or> digit_value (hd r) = None \<and> hd r \<noteq> 120 \<and> hd r \<noteq> 88"
  shows "sscanf_x w (ds @ r) = Some (to_u32 False (digits_value 16 ds), r)"
proof -
  obtain d ds' where ds: "ds = d # ds'" using assms(1) by (cases ds) auto
  have d: "plain_digit d" using assms(2) by (simp add: ds)
  have "dropWhile is_space (ds @ r) = ds @ r" using d by (simp add: ds plain_digit_def)
  moreover have "take w (ds @ r) = ds @ r" using assms(3) by simp
  moreover have "split_sign (ds @ r) = (False, ds @ r)" using d by (simp add: ds plain_digit_def split_sign_def)
  moreover have "skip_0x (ds @ r) = ds @ r"
    using assms(2,4) by (cases ds'; cases r) (auto simp: ds plain_digit_def skip_0x_def)
  moreover have "takeWhile (\<lambda>c. digit_value c \<noteq> None) (ds @ r) = ds"
    using assms(2,4) by (cases r) (auto simp: takeWhile_append2 plain_digit_def)
  ultimately show ?thesis using assms(1) by (simp add: sscanf_x_def)
qed

lemma to_u32_small: "n < 2 ^ 32 \<Longrightarrow> to_u32 False n = of_nat n"
  by (simp add: to_u32_def min_def)

lemma sscanf_hex:
  assumes "n < 2 ^ 32" "length (hex_digits n @ r) \<le> w"
    and "r = [] \<or> digit_value (hd r) = None \<and> hd r \<noteq> 120 \<and> hd r \<noteq> 88"
  shows "sscanf_x w (hex_digits n @ r) = Some (of_nat n, r)"
  using sscanf_digits[of "hex_digits n" r w] hex_digits_plain[of n] assms
  by (simp add: digits_value_hex to_u32_small)

lemma scan_x_hex:
  assumes "n < 2 ^ 32" "r = [] \<or> digit_value (hd r) = None \<and> hd r \<noteq> 120 \<and> hd r \<noteq> 88"
  shows "scan_x junk (hex_digits n @ r) = of_nat n"
  using sscanf_hex[OF assms(1) order_refl assms(2)] by (simp add: scan_x_def)

text \<open>The arguments of a memory command: address, comma, count.\<close>

definition mem_args :: "nat \<Rightarrow> nat \<Rightarrow> u8 list" where
  "mem_args a n = hex_digits a @ ascii '','' @ hex_digits n"

lemma mem_args_nonzero: "0 \<notin> set (mem_args a n)"
  using hex_digits_nonzero by (simp add: mem_args_def ascii_def)

lemma scan_mem_args:
  assumes "a < 2 ^ 32" "n < 2 ^ 32" "r = [] \<or> digit_value (hd r) = None \<and> hd r \<noteq> 120 \<and> hd r \<noteq> 88"
  shows "scan_x_x junk (mem_args a n @ r) = (of_nat a, of_nat n)"
proof -
  have comma: "digit_value 44 = None" by code_simp
  have "sscanf_x (length (mem_args a n @ r)) (hex_digits a @ 44 # hex_digits n @ r) = Some (of_nat a, 44 # hex_digits n @ r)"
    by (rule sscanf_hex[OF assms(1)]) (simp_all add: mem_args_def ascii_def comma)
  then show ?thesis
    using scan_x_hex[OF assms(2,3)] by (simp add: scan_x_x_def mem_args_def ascii_def)
qed

section \<open>Reading memory\<close>

lemma holds0_length: "holds0 g0 s g \<Longrightarrow> length s \<le> 1022"
  by (auto simp: holds0_def)

lemma put_overflows:
  assumes "holds g0 s g" "k = length s" "MAX_PACKET_SIZE < length s + length t + 2"
  shows "buffer_put g k t = Inl Out_Of_Bounds"
proof -
  obtain c r where pk: "packet g = c # s @ r" and "length (packet g) = MAX_PACKET_SIZE"
    using assms(1) unfolding holds_def by blast
  then have "\<not> length t < length r" using assms(3) by simp
  then show ?thesis using buffer_put_eq[OF pk assms(2), of t] by simp
qed

definition hex_text :: "u8 list \<Rightarrow> u8 list" where
  "hex_text bs = concat (map hex2 bs)"

lemma length_hex_text [simp]: "length (hex_text bs) = 2 * length bs"
  by (induction bs) (simp_all add: hex_text_def)

lemma hex_text_nonzero: "0 \<notin> set (hex_text bs)"
  using hex2_nonzero by (auto simp: hex_text_def)

lemma hex_text_Cons: "hex_text (b # bs) = hex2 b @ hex_text bs"
  by (simp add: hex_text_def)

lemma take_Suc_drop: "a < length bs \<Longrightarrow> take (Suc n) (drop a bs) = bs ! a # take n (drop (Suc a) bs)"
  by (simp flip: Cons_nth_drop_Suc)

lemma read_memory_loop_holds:
  assumes "holds0 g0 s g" "wf_memory (mem (gdb_arm g0))" "unat (mem_size (mem (gdb_arm g0))) < 2 ^ 32"
    and "a < 2 ^ 32" "bs = mem_bytes (mem (gdb_arm g0))"
  shows "if length s + 2 * length (take n (drop a bs)) \<le> 1022
    then returns (read_memory_loop n g (of_nat a) (length s)) (holds0 g0 (s @ hex_text (take n (drop a bs))))
    else read_memory_loop n g (of_nat a) (length s) = Inl Out_Of_Bounds"
  using assms(1,4)
proof (induction n arbitrary: s g a)
  case 0
  then show ?case using holds0_length[OF 0(1)] by (simp add: hex_text_def)
next
  case (Suc n)
  let ?m = "mem (gdb_arm g0)"
  have arm: "gdb_arm g = gdb_arm g0" by (rule holds_arm[OF holds0_holds[OF Suc.prems(1)]])
  have len: "length bs = unat (mem_size ?m)" using assms(2) by (simp add: wf_memory_def assms(5))
  have ua: "unat (of_nat a :: u32) = a" using Suc.prems(2) by (simp add: unsigned_of_nat take_bit_nat_eq_self)
  show ?case
  proof (cases "a < length bs")
    case False
    then have "byte_at ?m (of_nat a) = None" by (simp add: byte_at_def ua len)
    then show ?thesis
      using False Suc.prems(1) holds0_length[OF Suc.prems(1)] assms(2)
      by (simp add: arm memory_read_byte_eq hex_text_def)
  next
    case True
    then have byte: "byte_at ?m (of_nat a) = Some (bs ! a)" using len by (simp add: byte_at_def ua assms(5))
    have a: "Suc a < 2 ^ 32" using True len assms(3) by simp
    have next_a: "(of_nat a + 1 :: u32) = of_nat (Suc a)" by simp
    have loop: "read_memory_loop (Suc n) g (of_nat a) (length s) =
        bnd (buffer_put g (length s) (hex2 (bs ! a))) (\<lambda>g. read_memory_loop n g (of_nat (Suc a)) (length s + 2))"
      using assms(2) by (simp add: arm memory_read_byte_eq byte del: of_nat_Suc flip: next_a)
    show ?thesis
    proof (cases "length s + 2 \<le> 1022")
      case fits: True
      obtain g' where g': "buffer_put g (length s) (hex2 (bs ! a)) = Inr g'" "holds0 g0 (s @ hex2 (bs ! a)) g'"
        using put_holds[OF holds0_holds[OF Suc.prems(1)] refl, of "hex2 (bs ! a)"] fits by (auto simp: returns_def)
      show ?thesis
        using Suc.IH[OF g'(2) a] unfolding loop g'(1) bnd_Inr take_Suc_drop[OF True] hex_text_Cons
        by (simp add: add.assoc del: of_nat_Suc split: if_splits)
    next
      case overflow: False
      then have "buffer_put g (length s) (hex2 (bs ! a)) = Inl Out_Of_Bounds"
        by (intro put_overflows[OF holds0_holds[OF Suc.prems(1)] refl]) simp
      then show ?thesis using overflow unfolding loop take_Suc_drop[OF True] by simp
    qed
  qed
qed

lemma read_memory_eq:
  assumes "length (packet g) = MAX_PACKET_SIZE" "wf_memory (mem (gdb_arm g))" "unat (mem_size (mem (gdb_arm g))) < 2 ^ 32"
    and "a < 2 ^ 32" "n < 2 ^ 32" "bs = take n (drop a (mem_bytes (mem (gdb_arm g))))"
  shows "if length bs \<le> 509
    then sends g (read_memory junk g (mem_args a n @ 0 # z)) (frame (hex_text bs))
      (\<lambda>g1. gdb_arm g1 = gdb_arm g \<and> target_exception g1 = target_exception g \<and> length (packet g1) = MAX_PACKET_SIZE)
    else read_memory junk g (mem_args a n @ 0 # z) = Inl Out_Of_Bounds"
proof -
  obtain c r where pk: "packet g = c # r" and r: "length r = 1023" using assms(1) by (cases "packet g") auto
  let ?g = "g\<lparr>packet := c # 0 # drop 1 r\<rparr>"
  have store: "store_bytes (packet g) 1 [0] = Inr (c # 0 # drop 1 r)"
    using store_bytes_at[of "[c]" r "[0]"] r by (simp add: pk)
  have g: "holds0 g [] ?g" using r by (simp add: holds0_def)
  have "scan_x_x junk (cstr (mem_args a n @ 0 # z)) = (of_nat a, of_nat n)"
    using scan_mem_args[OF assms(4,5), of "[]"] by (simp add: cstr_append mem_args_nonzero)
  moreover have "unat (of_nat n :: u32) = n" using assms(5) by (simp add: unsigned_of_nat take_bit_nat_eq_self)
  ultimately have read: "read_memory junk g (mem_args a n @ 0 # z)
      = bnd (read_memory_loop n ?g (of_nat a) 0) gdb_send_buffer"
    by (simp add: read_memory_def store[unfolded One_nat_def] Let_def)
  note loop = read_memory_loop_holds[OF g assms(2-4) refl, of n, folded assms(6)]
  show ?thesis
  proof (cases "length bs \<le> 511")
    case True
    then obtain g' where g': "read_memory_loop n ?g (of_nat a) 0 = Inr g'" "holds0 g (hex_text bs) g'"
      using loop by (auto simp: returns_def)
    have "length (hex_text bs) \<le> 1019 \<longleftrightarrow> length bs \<le> 509" unfolding length_hex_text by presburger
    then show ?thesis
      using send_holds[OF g'(2) hex_text_nonzero] unfolding read g'(1) bnd_Inr by (simp split: if_splits)
  next
    case False
    then show ?thesis using loop by (simp add: read)
  qed
qed

section \<open>Writing memory\<close>

text \<open>The client escapes a byte by \<open>}\<close> and the byte with bit 5 flipped; \<open>}\<close> itself has to be escaped, and it
  may escape any other byte.\<close>

definition escape :: "u8 set \<Rightarrow> u8 list \<Rightarrow> u8 list" where
  "escape special vs = concat (map (\<lambda>v. if v \<in> special then [0x7d, v XOR 0x20] else [v]) vs)"

lemma escape_Cons: "escape sp (v # vs) = (if v \<in> sp then [0x7d, v XOR 0x20] else [v]) @ escape sp vs"
  by (simp add: escape_def)

text \<open>The bytes that fit are written; the loop succeeds if they all do.\<close>

lemma splice_snoc:
  "a + 1 + length vs \<le> length bs \<Longrightarrow> splice (splice bs a [v]) (Suc a) vs = splice bs a (v # vs)"
  by (simp add: splice_def min_def drop_Suc add.commute flip: tl_drop)

lemma splice_Nil [simp]: "splice bs a [] = bs"
  by (simp add: splice_def)

lemma write_loop_eq:
  assumes "wf_memory (mem p)" "unat (mem_size (mem p)) < 2 ^ 32" "a \<le> unat (mem_size (mem p))" "0x7d \<in> special"
    and "bs = mem_bytes (mem p)"
  shows "write_loop (length vs) p (of_nat a) (escape special vs @ z)
    = Inr (a + length vs \<le> length bs, p\<lparr>mem := (mem p)\<lparr>mem_bytes := splice bs a (take (length bs - a) vs)\<rparr>\<rparr>)"
  using assms(1-3,5)
proof (induction vs arbitrary: p a bs)
  case Nil
  then show ?case by (simp add: wf_memory_def)
next
  case (Cons v vs)
  have len: "length bs = unat (mem_size (mem p))" using Cons.prems(1,4) by (simp add: wf_memory_def)
  have ua: "unat (of_nat a :: u32) = a"
    using Cons.prems(2,3) by (simp add: unsigned_of_nat take_bit_nat_eq_self)
  have flip: "(v XOR 0x20) XOR 0x20 = v" by (simp add: xor.assoc)
  have loop: "write_loop (length (v # vs)) p (of_nat a) (escape special (v # vs) @ z) =
      (case put_byte (mem p) (of_nat a) v of None \<Rightarrow> Inr (False, p)
       | Some m \<Rightarrow> write_loop (length vs) (p\<lparr>mem := m\<rparr>) (of_nat (Suc a)) (escape special vs @ z))"
    using Cons.prems(1) assms(4)
    by (auto simp: escape_Cons memory_write_byte_eq flip add.commute split: option.splits)
  show ?case
  proof (cases "a < length bs")
    case False
    then have "a = length bs" using Cons.prems(3) len by simp
    moreover have "put_byte (mem p) (of_nat a) v = None" using False by (simp add: put_byte_def ua len)
    ultimately show ?thesis unfolding loop by (simp add: Cons.prems(4))
  next
    case True
    let ?m = "(mem p)\<lparr>mem_bytes := splice bs a [v]\<rparr>"
    have put: "put_byte (mem p) (of_nat a) v = Some ?m"
      using True len by (simp add: put_byte_def ua Cons.prems(4))
    have wf: "wf_memory ?m" using put_keeps(1)[of "mem p" "of_nat a" v ?m] put Cons.prems(1) by blast
    have "write_loop (length vs) (p\<lparr>mem := ?m\<rparr>) (of_nat (Suc a)) (escape special vs @ z)
        = Inr (Suc a + length vs \<le> length (splice bs a [v]), p\<lparr>mem := ?m, mem := ?m
            \<lparr>mem_bytes := splice (splice bs a [v]) (Suc a) (take (length (splice bs a [v]) - Suc a) vs)\<rparr>\<rparr>)"
      using Cons.IH[of "p\<lparr>mem := ?m\<rparr>" "Suc a" "splice bs a [v]"] wf Cons.prems(2,3) True len by simp
    moreover have "splice (splice bs a [v]) (Suc a) (take (length bs - Suc a) vs) = splice bs a (take (length bs - a) (v # vs))"
    proof -
      have "take (length bs - a) (v # vs) = v # take (length bs - Suc a) vs"
        using True by (simp add: take_Cons' )
      then show ?thesis using True splice_snoc[of a "take (length bs - Suc a) vs" bs v] by simp
    qed
    ultimately show ?thesis using True unfolding loop put by simp
  qed
qed

lemma mem_args_no_colon: "0x3a \<notin> set (mem_args a n)"
proof -
  have "digit_value 0x3a = None" by code_simp
  then have "0x3a \<notin> set (hex_digits k)" for k using hex_digits_plain[of k] by (metis plain_digit_def)
  then show ?thesis by (simp add: mem_args_def ascii_def)
qed

lemma write_memory_binary_eq:
  assumes "wf_memory (mem (gdb_arm g))" "unat (mem_size (mem (gdb_arm g))) < 2 ^ 32" "0x7d \<in> special"
    and "a < 2 ^ 32" "length vs < 2 ^ 32" "bs = mem_bytes (mem (gdb_arm g))"
  shows "write_memory_binary junk g (mem_args a (length vs) @ 0x3a # escape special vs @ z) =
    gdb_send_data (g\<lparr>gdb_arm := (gdb_arm g)\<lparr>mem := (mem (gdb_arm g))
        \<lparr>mem_bytes := if a < length bs then splice bs a (take (length bs - a) vs) else bs\<rparr>\<rparr>\<rparr>)
      (if a < length bs \<and> a + length vs \<le> length bs then ''OK'' else ''E02'')"
proof -
  let ?data = "mem_args a (length vs) @ 0x3a # escape special vs @ z"
  have len: "length bs = unat (mem_size (mem (gdb_arm g)))" using assms(1,6) by (simp add: wf_memory_def)
  have un: "unat (of_nat (length vs) :: u32) = length vs" "unat (of_nat a :: u32) = a"
    using assms(4,5) by (simp_all add: unsigned_of_nat take_bit_nat_eq_self)
  have cstr: "cstr ?data = mem_args a (length vs) @ 0x3a # cstr (escape special vs @ z)"
    by (simp add: cstr_append mem_args_nonzero)
  have colon: "digit_value 0x3a = None" by code_simp
  then have scan: "scan_x_x junk (cstr ?data) = (of_nat a, of_nat (length vs))"
    unfolding cstr by (intro scan_mem_args[OF assms(4,5)]) simp
  have "\<forall>c \<in> set (mem_args a (length vs)). c \<noteq> 0x3a" using mem_args_no_colon by metis
  then have content: "tl (dropWhile (\<lambda>c. c \<noteq> 0x3a) ?data) = escape special vs @ z"
    by (simp add: dropWhile_append2)
  have guard: "ucast (of_nat a :: u32) < memory_get_size (mem (gdb_arm g)) \<longleftrightarrow> a < length bs"
    by (simp add: memory_get_size_def word_less_nat_alt un len)
  have found: "0x3a \<in> set (cstr ?data)" by (simp add: cstr)
  show ?thesis
  proof (cases "a < length bs")
    case True
    then show ?thesis
      using write_loop_eq[OF assms(1,2) _ assms(3,6), of a vs z] len
      by (simp add: write_memory_binary_def scan content guard un found Let_def)
  next
    case False
    then show ?thesis
      by (simp add: write_memory_binary_def scan guard Let_def assms(6))
  qed
qed

section \<open>Properties\<close>

text \<open>C34: the command \<open>m\<close> with address \<open>a\<close> and count \<open>n\<close> in hexadecimal answers with the \<open>n\<close> bytes from \<open>a\<close>, cut at the
  end of the memory, two digits each, and changes neither processor nor memory.  It does so for
  at most 509 bytes; from 510 bytes on the answer leaves the packet buffer, although the answer to
  \<open>qSupported\<close> announces packets of 1024 bytes.  If the connection is gone, the answer ends the process.\<close>

theorem read_memory_correct:
  assumes "length (packet g) = MAX_PACKET_SIZE" and "sys_core (gdb_arm g)"
    and "unat (mem_size (mem (gdb_arm g))) < 2 ^ 32" and "a < 2 ^ 32" and "n < 2 ^ 32"
  shows "let bs = take n (drop a (mem_bytes (mem (gdb_arm g)))) in
    if length bs \<le> 509
    then sends g (read_memory junk g (mem_args a n @ 0 # z)) (frame (hex_text bs)) (\<lambda>g'. gdb_arm g' = gdb_arm g)
    else read_memory junk g (mem_args a n @ 0 # z) = Inl Out_Of_Bounds"
proof -
  have "wf_memory (mem (gdb_arm g))" using assms(2) by (simp add: sys_core_def wf_core_def)
  from read_memory_eq[OF assms(1) this assms(3-5) refl, of junk z]
  show ?thesis unfolding Let_def by (auto split: if_splits elim: sends_mono)
qed

theorem read_memory_correct_witness:
  "(\<exists>g'. read_memory (0, 0) (gdb_machine [0x12, 0xAB, 0x34, 0x56]) (ascii ''1,20'' @ [0]) = Inr g'
      \<and> sent g' = ascii ''$ab3456#'' @ hex2 0x95)
   \<and> read_memory (0, 0) (gdb_machine (replicate 1000 0)) (ascii ''0,1fe'' @ [0]) = Inl Out_Of_Bounds"
proof -
  have args: "mem_args 1 32 = ascii ''1,20''" "mem_args 0 510 = ascii ''0,1fe''" by code_simp+
  have bytes: "mem_bytes (mem (cpu_machine img)) = img" "unat (mem_size (mem (cpu_machine img))) = length img"
    if "length img < 2 ^ 32" for img
    using that by (simp_all add: cpu_machine_def machine_def memory_create_def unsigned_of_nat take_bit_nat_eq_self)
  have "frame (hex_text (take 32 (drop 1 [0x12, 0xAB, 0x34, 0x56]))) = ascii ''$ab3456#'' @ hex2 0x95" by code_simp
  then show ?thesis
    using read_memory_correct[of "gdb_machine [0x12, 0xAB, 0x34, 0x56]" 1 32 "(0, 0)" "[]"]
      read_memory_correct[of "gdb_machine (replicate 1000 0)" 0 510 "(0, 0)" "[]"]
      sys_core_cpu_machine[of "[0x12, 0xAB, 0x34, 0x56]"] sys_core_cpu_machine[of "replicate 1000 0"]
    by (auto simp: args[unfolded One_nat_def] bytes Let_def sends_def)
qed

text \<open>C35: binary writes.  The command \<open>X\<close> with the bytes \<open>vs\<close>, in which \<open>}\<close> and any other bytes are escaped,
  writes them from \<open>a\<close> on as far as they fit, keeps all other bytes and the registers, and answers
  \<open>OK\<close> if all of them fit and \<open>E02\<close> if not; after \<open>OK\<close> and for at most 509 bytes, \<open>m\<close> gives them back.  An answer to a
  connection that is gone ends the process.\<close>

theorem memory_commands_roundtrip:
  assumes "length (packet g) = MAX_PACKET_SIZE" and "sys_core (gdb_arm g)"
    and "unat (mem_size (mem (gdb_arm g))) < 2 ^ 32" and "a < unat (mem_size (mem (gdb_arm g)))"
    and "length vs < 2 ^ 32" and "0x7d \<in> special"
  shows "sends g (write_memory_binary junk g (mem_args a (length vs) @ 0x3a # escape special vs @ z))
    (frame (ascii (if a + length vs \<le> unat (mem_size (mem (gdb_arm g))) then ''OK'' else ''E02''))) (\<lambda>g1.
      mem_size (mem (gdb_arm g1)) = mem_size (mem (gdb_arm g))
    \<and> (\<forall>i < unat (mem_size (mem (gdb_arm g))). mem_bytes (mem (gdb_arm g1)) ! i =
        (if a \<le> i \<and> i < a + length vs then vs ! (i - a) else mem_bytes (mem (gdb_arm g)) ! i))
    \<and> (\<forall>r < 17. rget (gdb_arm g1) r = rget (gdb_arm g) r)
    \<and> (a + length vs \<le> unat (mem_size (mem (gdb_arm g))) \<and> length vs \<le> 509 \<longrightarrow>
        sends g1 (read_memory junk' g1 (mem_args a (length vs) @ 0 # z')) (frame (hex_text vs)) (\<lambda>g2. gdb_arm g2 = gdb_arm g1)))"
proof -
  let ?m = "mem (gdb_arm g)"
  let ?bs = "splice (mem_bytes ?m) a (take (length (mem_bytes ?m) - a) vs)"
  let ?q = "(gdb_arm g)\<lparr>mem := ?m\<lparr>mem_bytes := ?bs\<rparr>\<rparr>"
  have wf: "wf_memory ?m" using assms(2) by (simp add: sys_core_def wf_core_def)
  have len: "length (mem_bytes ?m) = unat (mem_size ?m)" using wf by (simp add: wf_memory_def)
  have a: "a < 2 ^ 32" using assms(3,4) by simp
  define answer where "answer = (if a + length vs \<le> unat (mem_size ?m) then ''OK'' else ''E02'')"
  have wr: "write_memory_binary junk g (mem_args a (length vs) @ 0x3a # escape special vs @ z)
      = gdb_send_data (g\<lparr>gdb_arm := ?q\<rparr>) answer"
    using write_memory_binary_eq[OF wf assms(3,6) a assms(5) refl, of junk z] assms(4) by (simp add: len answer_def)
  have answer: "0 \<notin> set (ascii answer)" "length answer \<le> 1019" by (simp_all add: answer_def ascii_def)
  have sent: "sends g (gdb_send_data (g\<lparr>gdb_arm := ?q\<rparr>) answer) (frame (ascii answer))
      (\<lambda>g1. gdb_arm g1 = ?q \<and> length (packet g1) = MAX_PACKET_SIZE)"
    using send_short[OF _ answer, of "g\<lparr>gdb_arm := ?q\<rparr>"] assms(1)
    by (intro sends_from[of "g\<lparr>gdb_arm := ?q\<rparr>" g]) (auto elim: sends_mono)
  have fits: "a + length (take (length (mem_bytes ?m) - a) vs) \<le> length (mem_bytes ?m)"
    using assms(4) len by simp
  have bytes: "\<forall>i < length ?bs. ?bs ! i = (if a \<le> i \<and> i < a + length vs then vs ! (i - a) else mem_bytes ?m ! i)"
    using nth_splice[OF fits] length_splice[OF fits] by auto
  have read: "sends g1 (read_memory junk' g1 (mem_args a (length vs) @ 0 # z')) (frame (hex_text vs)) (\<lambda>g2. gdb_arm g2 = gdb_arm g1)"
    if "a + length vs \<le> unat (mem_size ?m)" "length vs \<le> 509" and g1: "gdb_arm g1 = ?q" "length (packet g1) = MAX_PACKET_SIZE" for g1
  proof -
    have "wf_memory (mem (gdb_arm g1))" using wf fits by (simp add: g1(1) wf_memory_def)
    moreover have "take (length vs) (drop a ?bs) = vs"
      using that(1) slice_splice_same[of a vs "mem_bytes ?m"] by (simp add: len)
    ultimately show ?thesis
      using read_memory_eq[OF g1(2) _ _ a assms(5) refl, of junk' z'] assms(3) that(2) g1(1) by (auto elim: sends_mono)
  qed
  show ?thesis
    unfolding wr answer_def[symmetric]
    by (rule sends_mono[OF sent]) (use bytes read length_splice[OF fits] len in auto)
qed

theorem memory_commands_roundtrip_witness:
  "\<exists>g1. write_memory_binary (0, 0) (gdb_machine [0, 0, 0, 0]) (ascii ''1,2:}]#'' @ [0]) = Inr g1
     \<and> sent g1 = frame (ascii ''OK'') \<and> mem_bytes (mem (gdb_arm g1)) ! 1 = 0x7d \<and> mem_bytes (mem (gdb_arm g1)) ! 2 = 0x23"
proof -
  let ?g = "gdb_machine [0, 0, 0, 0]"
  have "sys_core (cpu_machine [0, 0, 0, 0])" by (rule sys_core_cpu_machine) simp_all
  moreover have "unat (mem_size (mem (cpu_machine [0, 0, 0, 0]))) = 4" by code_simp
  moreover have data: "mem_args 1 (length [0x7d, 0x23]) @ 0x3a # escape {0x7d} [0x7d, 0x23] @ [0] = ascii ''1,2:}]#'' @ [0]"
    by code_simp
  ultimately show ?thesis
    using memory_commands_roundtrip[of ?g 1 "[0x7d, 0x23]" "{0x7d}" "(0, 0)" "[0]" "(0, 0)" "[]", unfolded data]
    by (auto simp: sends_def)
qed

end
