(* ===== verification/Gdb_Control.thy ===== *)
theory Gdb_Control
  imports Gdb_Memory
begin

text \<open>
  What the commands of \<^verbatim>\<open>gdb_protocol.c\<close> keep, the reasons given for a stop, the commands on single
  registers, and the command \<open>c\<close>, whose loop ends at a breakpoint.
\<close>

section \<open>What every command keeps\<close>

text \<open>The invariant of the protocol state, and a call that only answers.\<close>

definition gdb_inv :: "u64 \<Rightarrow> gdb_protocol_data \<Rightarrow> bool" where
  "gdb_inv n g \<longleftrightarrow> sys_core (gdb_arm g) \<and> mem_size (mem (gdb_arm g)) = n \<and> length (packet g) = MAX_PACKET_SIZE"

definition answers :: "gdb_protocol_data \<Rightarrow> gdb_protocol_data \<Rightarrow> bool" where
  "answers g g' \<longleftrightarrow> gdb_arm g' = gdb_arm g \<and> length (packet g') = length (packet g)
     \<and> target_exception g' = target_exception g \<and> (\<exists>x. sent g' = sent g @ x)"

lemma answers_refl [simp]: "answers g g"
  by (simp add: answers_def)

lemma answers_trans [trans]: "answers g g' \<Longrightarrow> answers g' g'' \<Longrightarrow> answers g g''"
  by (auto simp: answers_def)

lemma answers_inv: "answers g g' \<Longrightarrow> gdb_inv n g \<Longrightarrow> gdb_inv n g'"
  by (simp add: answers_def gdb_inv_def)

lemma store_bytes_length: "store_bytes bs a vs = Inr bs' \<Longrightarrow> length bs' = length bs"
  by (auto simp: store_bytes_def split: if_splits)

text \<open>An outcome that, if it is a value, only answers; the rules follow the shape of the commands.\<close>

definition ans :: "gdb_protocol_data \<Rightarrow> gdb_protocol_data outcome \<Rightarrow> bool" where
  "ans g m \<longleftrightarrow> (\<forall>g'. m = Inr g' \<longrightarrow> answers g g')"

lemma ans_Inl: "ans g (Inl e)"
  by (simp add: ans_def)

lemma ans_Inr: "answers g g' \<Longrightarrow> ans g (Inr g')"
  by (simp add: ans_def)

lemma ans_bnd: "ans g m \<Longrightarrow> (\<And>g'. ans g' (f g')) \<Longrightarrow> ans g (bnd m f)"
  by (auto simp: ans_def bnd_eq_Inr_iff intro: answers_trans)

lemma ans_bnd_value: "(\<And>v. ans g (f v)) \<Longrightarrow> ans g (bnd m f)"
  by (auto simp: ans_def bnd_eq_Inr_iff)

lemma ans_if: "ans g m \<Longrightarrow> ans g m' \<Longrightarrow> ans g (if b then m else m')"
  by simp

lemma ans_put: "ans g (buffer_put g k s)"
  by (auto simp: ans_def buffer_put_def bnd_eq_Inr_iff answers_def dest: store_bytes_length)

lemma ans_send: "ans g (gdb_send_buffer g)"
  by (auto simp: ans_def gdb_send_buffer_def bnd_eq_Inr_iff answers_def gdb_transmit_packet_def fd_writen_def Let_def
      split: if_splits option.splits dest!: store_bytes_length)

lemma ans_data: "ans g (gdb_send_data g s)"
  unfolding gdb_send_data_def by (intro ans_bnd ans_put ans_send)

lemma ans_for_out:
  assumes "\<And>i g. ans g (body i g)"
  shows "ans g (for_out is body g)"
proof (induction "is" arbitrary: g)
  case (Cons i "is")
  then show ?case using assms by (simp add: ans_bnd)
qed (simp add: ans_def)

lemmas ans_rules = ans_Inl ans_if ans_put ans_send ans_data ans_for_out ans_bnd ans_bnd_value

text \<open>The commands that only answer.\<close>

lemma ans_read_memory_loop: "ans g (read_memory_loop n g a k)"
proof (induction n arbitrary: g a k)
  case (Suc n)
  show ?case
    unfolding read_memory_loop.simps
    by (intro ans_bnd_value) (auto split: option.split intro!: ans_Inr ans_bnd[OF ans_put] Suc.IH)
qed (simp add: ans_def)

lemma ans_commands:
  "ans g (gdb_send_stop_reason g)" "ans g (query g data)" "ans g (set_thread g data)"
  "ans g (gdb_read_register h be g data)" "ans g (read_general_registers h be g)"
  unfolding gdb_send_stop_reason_def query_def set_thread_def gdb_read_register_def read_general_registers_def Let_def
  by (intro ans_rules)+

lemma ans_read_memory: "ans g (read_memory junk g data)"
proof -
  have "ans g (bnd (Inr (g\<lparr>packet := pk\<rparr>)) (\<lambda>g. bnd (read_memory_loop n g a 0) gdb_send_buffer))"
    if "store_bytes (packet g) 1 [0] = Inr pk" for pk n a
    using store_bytes_length[OF that]
    by (intro ans_bnd ans_read_memory_loop ans_send ans_Inr) (simp add: answers_def)
  then show ?thesis by (cases "store_bytes (packet g) 1 [0]") (simp_all add: read_memory_def ans_def split: prod.split)
qed

text \<open>The commands that change the processor.\<close>

definition gdb_keeps :: "gdb_protocol_data \<Rightarrow> gdb_protocol_data \<Rightarrow> bool" where
  "gdb_keeps g g' \<longleftrightarrow> (\<forall>n. gdb_inv n g \<longrightarrow> gdb_inv n g') \<and> (\<exists>x. sent g' = sent g @ x)"

lemma gdb_keeps_refl [simp]: "gdb_keeps g g"
  by (simp add: gdb_keeps_def)

lemma gdb_keeps_trans: "gdb_keeps g g' \<Longrightarrow> gdb_keeps g' g'' \<Longrightarrow> gdb_keeps g g''"
  by (fastforce simp: gdb_keeps_def)

lemma answers_keeps: "answers g g' \<Longrightarrow> gdb_keeps g g'"
  by (auto simp: gdb_keeps_def answers_def gdb_inv_def)

lemma ans_keeps: "ans g m \<Longrightarrow> m = Inr g' \<Longrightarrow> gdb_keeps g g'"
  by (simp add: ans_def answers_keeps)

lemma set_arm_keeps:
  "(sys_core (gdb_arm g) \<Longrightarrow> sys_core p \<and> mem_size (mem p) = mem_size (mem (gdb_arm g)))
     \<Longrightarrow> gdb_keeps g (g\<lparr>gdb_arm := p\<rparr>)"
  by (auto simp: gdb_keeps_def gdb_inv_def)

lemma step_keeps:
  "arm_step h (gdb_arm g) = Inr (code, p) \<Longrightarrow> gdb_keeps g (g\<lparr>gdb_arm := p, target_exception := e\<rparr>)"
  using event_step_inv[of "gdb_arm g" h Step p] by (auto simp: gdb_keeps_def gdb_inv_def event_step_def)

lemma gdb_step_keeps: "gdb_step h g = Inr g' \<Longrightarrow> gdb_keeps g g'"
  by (auto simp: gdb_step_def bnd_eq_Inr_iff intro: gdb_keeps_trans[OF step_keeps ans_keeps[OF ans_commands(1)]])

lemma cont_loop_keeps:
  assumes "cont_loop h g ins = Some r" "r = Inr g'"
  shows "gdb_keeps g g'"
proof -
  have "\<forall>g'. r = Inr g' \<longrightarrow> gdb_keeps g g'"
  proof (rule cont_loop.raw_induct[where P = "\<lambda>h g ins r. \<forall>g'. r = Inr g' \<longrightarrow> gdb_keeps g g'", OF _ assms(1)])
    fix f h g ins r
    assume IH: "\<And>h g ins r. f h g ins = Some r \<Longrightarrow> \<forall>g'. r = Inr g' \<longrightarrow> gdb_keeps g g'"
      and eq: "(case arm_read_register (gdb_arm g) 15 of
        Inl e \<Rightarrow> Some (Inl e)
      | Inr r15 \<Rightarrow>
     (case arm_read_word h (gdb_arm g) (r15 - 4) of
        Inl e \<Rightarrow> Some (Inl e)
      | Inr r \<Rightarrow>
     (if (case r of None \<Rightarrow> ins | Some v \<Rightarrow> v) AND 0xFFF000F0 = 0xE7F000F0 then Some (Inr g)
      else case arm_step h (gdb_arm g) of
          Inl e \<Rightarrow> Some (Inl e)
        | Inr (result, p) \<Rightarrow>
            f h (g\<lparr>gdb_arm := p, target_exception := result\<rparr>)
              (case r of None \<Rightarrow> ins | Some v \<Rightarrow> v)))) = Some r"
    from eq show "\<forall>g'. r = Inr g' \<longrightarrow> gdb_keeps g g'"
      by (auto split: sum.splits if_splits prod.splits dest!: IH intro: gdb_keeps_trans[OF step_keeps])
  qed
  with assms(2) show ?thesis by blast
qed

lemma cont_keeps: "cont h junk g = Some (Inr g') \<Longrightarrow> gdb_keeps g g'"
  by (auto simp: cont_def bnd_eq_Inr_iff split: option.splits
      intro: gdb_keeps_trans[OF cont_loop_keeps[OF _ refl] ans_keeps[OF ans_commands(1)]])

lemma write_loop_keeps:
  "write_loop n p a content = Inr (ok, p') \<Longrightarrow> sys_core p \<Longrightarrow> sys_core p' \<and> mem_size (mem p') = mem_size (mem p)"
proof (induction n arbitrary: p a content)
  case (Suc n)
  have byte: "memory_write_byte (mem p) a v = Inr (put_byte (mem p) a v)" for v
    using Suc.prems(2) by (simp add: memory_write_byte_eq sys_core_def wf_core_def)
  have put: "sys_core (p\<lparr>mem := m\<rparr>) \<and> mem_size m = mem_size (mem p)" if "put_byte (mem p) a v = Some m" for v m
    using core_put(2)[of p a v m] put_keeps(2)[of "mem p" a v m] that Suc.prems(2) by (simp add: sys_core_def wf_core_def)
  from Suc.prems(1) show ?case
    using put Suc.prems(2)
    by (auto simp: byte bnd_eq_Inr_iff split: list.splits if_splits option.splits dest!: Suc.IH)
qed auto

lemma write_memory_keeps:
  assumes "write_memory_binary junk g data = Inr g'"
  shows "gdb_keeps g g'"
proof -
  obtain g1 s where "gdb_send_data g1 s = Inr g'" "gdb_keeps g g1"
    using assms
    by (auto simp: write_memory_binary_def Let_def bnd_eq_Inr_iff split: prod.splits if_splits
        intro: set_arm_keeps dest: write_loop_keeps)
  then show ?thesis by (blast intro: gdb_keeps_trans ans_keeps[OF ans_data])
qed

lemma set_register_keeps:
  "arm_write_register (gdb_arm g) r v = Inr p \<Longrightarrow> unat r < 17 \<Longrightarrow> gdb_keeps g (g\<lparr>gdb_arm := p\<rparr>)"
  by (intro set_arm_keeps) (auto simp: core_eqs)

lemma write_register_keeps:
  assumes "gdb_write_register h be junk junk' g data = Inr g'"
  shows "gdb_keeps g g'"
proof -
  obtain r v p where p: "\<not> r \<ge> 16" "arm_write_register (gdb_arm g) (ucast (r :: u32)) v = Inr p"
      "gdb_send_data (g\<lparr>gdb_arm := p\<rparr>) ''OK'' = Inr g'"
    using assms by (auto simp: gdb_write_register_def Let_def bnd_eq_Inr_iff not_le split: if_splits)
  have "unat r < 16" using p(1) by (simp add: word_le_nat_alt not_le)
  then have "unat (ucast r :: u8) < 17" by (simp add: unsigned_ucast_eq take_bit_eq_mod)
  with p show ?thesis by (blast intro: gdb_keeps_trans set_register_keeps ans_keeps[OF ans_data])
qed

lemma write_registers_keeps:
  assumes "write_general_registers h be junk g data = Inr g'"
  shows "gdb_keeps g g'"
proof -
  obtain g1 g2 v p where g1: "for_out [0..<16] (\<lambda>i g. bnd (read_uint32 h be (junk i) data (8 * i)) (\<lambda>v.
        bnd (arm_write_register (gdb_arm g) (of_nat i) v) (\<lambda>p. Inr (g\<lparr>gdb_arm := p\<rparr>)))) g = Inr g1"
    and g2: "for_out [0..<24] (\<lambda>i g. bnd (read_uint32 h be (junk (16 + i)) data (8 * (16 + i))) (\<lambda>v. Inr g)) g1 = Inr g2"
    and p: "arm_write_cpsr (gdb_arm g2) v = Inr p" "gdb_send_data (g2\<lparr>gdb_arm := p\<rparr>) ''OK'' = Inr g'"
    using assms by (auto simp: write_general_registers_def bnd_eq_Inr_iff)
  have "gdb_keeps g g1"
    by (rule for_out_invariant[OF g1, where P = "gdb_keeps g"])
      (auto simp: bnd_eq_Inr_iff unsigned_of_nat take_bit_nat_eq_self intro: gdb_keeps_trans[OF _ set_register_keeps])
  moreover have "g2 = g1"
    by (rule for_out_invariant[OF g2, where P = "\<lambda>g. g = g1"]) (auto simp: bnd_eq_Inr_iff)
  moreover have "gdb_keeps g2 (g2\<lparr>gdb_arm := p\<rparr>)" using p(1) by (intro set_arm_keeps) (auto simp: core_eqs)
  ultimately show ?thesis using ans_keeps[OF ans_data p(2)] by (blast intro: gdb_keeps_trans)
qed

lemma kill_keeps: "gdb_keeps g (kill_request g)"
  by (simp add: gdb_keeps_def gdb_inv_def kill_request_def)

lemma call_handler_keeps:
  assumes "call_handler h be junk f g data = Some (Inr g')"
  shows "gdb_keeps g g'"
  using assms
  by (cases f) (auto simp: call_handler_def reason_def kill_keeps
      intro: cont_keeps ans_keeps[OF ans_commands(1)] ans_keeps[OF ans_commands(2)] ans_keeps[OF ans_commands(3)]
        ans_keeps[OF ans_commands(4)] ans_keeps[OF ans_commands(5)] ans_keeps[OF ans_read_memory]
        gdb_step_keeps write_registers_keeps write_memory_keeps write_register_keeps)

lemma writen_keeps: "fd_writen g bs = Inr g' \<Longrightarrow> gdb_keeps g g'"
  by (auto simp: fd_writen_def gdb_keeps_def gdb_inv_def split: if_splits option.splits)

lemma packet_analysis_keeps:
  assumes "gdb_packet_analysis h be junk g pkt = Some (Inr g')"
  shows "gdb_keeps g g'"
proof -
  have ack: "gdb_send_ack g = Inr g1 \<Longrightarrow> gdb_keeps g g1" "gdb_require_retransmission g = Inr g1 \<Longrightarrow> gdb_keeps g g1" for g1
    by (auto simp: gdb_send_ack_def gdb_require_retransmission_def intro: writen_keeps)
  show ?thesis
    using assms
    by (auto simp: gdb_packet_analysis_def Let_def split: if_splits option.splits sum.splits
        intro: ack(2) gdb_keeps_trans[OF ack(1) call_handler_keeps] gdb_keeps_trans[OF ack(1) ans_keeps[OF ans_data]])
qed

section \<open>Stop reasons\<close>

definition stop_answer :: "int \<Rightarrow> string" where
  "stop_answer e = (if e = UNDEFINED_INSTRUCTION then ''S04''
     else if e = PREFETCH_ABORT \<or> e = DATA_ABORT then ''S10'' else ''S05'')"

lemma stop_reason_sends:
  assumes "length (packet g) = MAX_PACKET_SIZE"
  shows "sends g (gdb_send_stop_reason g) (frame (ascii (stop_answer (target_exception g))))
    (\<lambda>g'. gdb_arm g' = gdb_arm g \<and> target_exception g' = target_exception g \<and> length (packet g') = MAX_PACKET_SIZE)"
proof -
  have "gdb_send_stop_reason g = gdb_send_data g (stop_answer (target_exception g))"
    by (simp add: gdb_send_stop_reason_def stop_answer_def)
  moreover have "0 \<notin> set (ascii (stop_answer e))" "length (stop_answer e) \<le> 1019" for e
    by (simp_all add: stop_answer_def ascii_def)
  ultimately show ?thesis using send_short[OF assms] by simp
qed

lemma stop_reason_after:
  assumes "length (packet g) = MAX_PACKET_SIZE"
  shows "sends g (gdb_send_stop_reason (g\<lparr>gdb_arm := p, target_exception := e\<rparr>)) (frame (ascii (stop_answer e)))
    (\<lambda>g'. gdb_arm g' = p \<and> target_exception g' = e)"
  using stop_reason_sends[of "g\<lparr>gdb_arm := p, target_exception := e\<rparr>"] assms
  by (intro sends_from[of "g\<lparr>gdb_arm := p, target_exception := e\<rparr>" g]) (auto elim: sends_mono)

section \<open>Running to a breakpoint\<close>

text \<open>The instruction word that gdb plants as a breakpoint.\<close>

definition is_breakpoint :: "u32 \<Rightarrow> bool" where
  "is_breakpoint v \<longleftrightarrow> v AND 0xFFF000F0 = 0xE7F000F0"

definition at_breakpoint :: "cpu \<Rightarrow> bool" where
  "at_breakpoint p \<longleftrightarrow> (case word_at (mem p) (fetch_addr p) of None \<Rightarrow> False | Some v \<Rightarrow> is_breakpoint v)"

definition next_ins :: "cpu \<Rightarrow> u32 \<Rightarrow> u32" where
  "next_ins p ins = (case word_at (mem p) (fetch_addr p) of None \<Rightarrow> ins | Some v \<Rightarrow> v)"

lemma next_ins_breakpoint: "\<not> is_breakpoint ins \<or> word_at (mem p) (fetch_addr p) \<noteq> None \<Longrightarrow>
    is_breakpoint (next_ins p ins) \<longleftrightarrow> at_breakpoint p"
  by (auto simp: next_ins_def at_breakpoint_def split: option.splits)

lemma cont_loop_eq:
  assumes "sys_core (gdb_arm g)"
  shows "cont_loop h g ins = (if is_breakpoint (next_ins (gdb_arm g) ins) then Some (Inr g)
    else case arm_step h (gdb_arm g) of Inl e \<Rightarrow> Some (Inl e)
      | Inr (result, p) \<Rightarrow> cont_loop h (g\<lparr>gdb_arm := p, target_exception := result\<rparr>) (next_ins (gdb_arm g) ins))"
  unfolding next_ins_def is_breakpoint_def using assms
  by (subst cont_loop.simps) (simp add: core_eqs rview_def flip: fetch_addr_def)

lemma exec_Step_Suc: "exec h p (replicate (Suc k) Step) = bnd (arm_step h p) (\<lambda>(c, q). exec h q (replicate k Step))"
  by (simp add: event_step_def bnd_assoc case_prod_beta')

lemma arm_step_sys: "sys_core p \<Longrightarrow> arm_step h p = Inr (c, q) \<Longrightarrow> sys_core q"
  using event_step_inv(1)[of p h Step q] by (simp add: event_step_def)

text \<open>If the first breakpoint is \<open>k\<close> steps away, the loop stops there.\<close>

lemma cont_loop_reaches:
  assumes "sys_core (gdb_arm g)" "exec h (gdb_arm g) (replicate k Step) = Inr q" "at_breakpoint q"
    and "\<And>i p. i < k \<Longrightarrow> exec h (gdb_arm g) (replicate i Step) = Inr p \<Longrightarrow> \<not> at_breakpoint p"
    and "\<not> is_breakpoint ins \<or> word_at (mem (gdb_arm g)) (fetch_addr (gdb_arm g)) \<noteq> None"
  shows "\<exists>e. cont_loop h g ins = Some (Inr (g\<lparr>gdb_arm := q, target_exception := e\<rparr>))"
  using assms
proof (induction k arbitrary: g ins)
  case 0
  then have "cont_loop h g ins = Some (Inr (g\<lparr>gdb_arm := q, target_exception := target_exception g\<rparr>))"
    by (simp add: cont_loop_eq next_ins_breakpoint)
  then show ?case by blast
next
  case (Suc k)
  from Suc.prems(2) obtain c p where p: "arm_step h (gdb_arm g) = Inr (c, p)" "exec h p (replicate k Step) = Inr q"
    unfolding exec_Step_Suc by (auto simp: bnd_eq_Inr_iff)
  have no: "\<not> is_breakpoint (next_ins (gdb_arm g) ins)"
    using Suc.prems(4)[of 0 "gdb_arm g"] next_ins_breakpoint[OF Suc.prems(5)] by simp
  let ?g = "g\<lparr>gdb_arm := p, target_exception := c\<rparr>"
  have "\<exists>e. cont_loop h ?g (next_ins (gdb_arm g) ins) = Some (Inr (?g\<lparr>gdb_arm := q, target_exception := e\<rparr>))"
  proof (rule Suc.IH)
    show "\<not> at_breakpoint p'" if "i < k" "exec h (gdb_arm ?g) (replicate i Step) = Inr p'" for i p'
      using that Suc.prems(4)[of "Suc i" p'] p(1) unfolding exec_Step_Suc by simp
  qed (use p Suc.prems(1,3) no arm_step_sys in auto)
  then show ?case using Suc.prems(1) no p(1) by (simp add: cont_loop_eq)
qed

text \<open>And it stops nowhere else.\<close>

lemma cont_loop_stops:
  assumes "cont_loop h g ins = Some (Inr g')" "sys_core (gdb_arm g)"
    and "\<not> is_breakpoint ins \<or> word_at (mem (gdb_arm g)) (fetch_addr (gdb_arm g)) \<noteq> None"
  shows "at_breakpoint (gdb_arm g') \<and> (\<exists>k. exec h (gdb_arm g) (replicate k Step) = Inr (gdb_arm g'))"
proof -
  define P where "P = (\<lambda>h (g :: gdb_protocol_data) ins (r :: gdb_protocol_data outcome). \<forall>g'. r = Inr g' \<longrightarrow> sys_core (gdb_arm g) \<longrightarrow>
    (\<not> is_breakpoint ins \<or> word_at (mem (gdb_arm g)) (fetch_addr (gdb_arm g)) \<noteq> None) \<longrightarrow>
    at_breakpoint (gdb_arm g') \<and> (\<exists>k. exec h (gdb_arm g) (replicate k Step) = Inr (gdb_arm g')))"
  have "P h g ins (Inr g')"
  proof (rule cont_loop.raw_induct[OF _ assms(1)])
    fix f h g ins r
    assume IH: "\<And>h g ins r. f h g ins = Some r \<Longrightarrow> P h g ins r"
      and eq: "(case arm_read_register (gdb_arm g) 15 of
        Inl e \<Rightarrow> Some (Inl e)
      | Inr r15 \<Rightarrow>
     (case arm_read_word h (gdb_arm g) (r15 - 4) of
        Inl e \<Rightarrow> Some (Inl e)
      | Inr r \<Rightarrow>
     (if (case r of None \<Rightarrow> ins | Some v \<Rightarrow> v) AND 0xFFF000F0 = 0xE7F000F0 then Some (Inr g)
      else case arm_step h (gdb_arm g) of
          Inl e \<Rightarrow> Some (Inl e)
        | Inr (result, p) \<Rightarrow>
            f h (g\<lparr>gdb_arm := p, target_exception := result\<rparr>)
              (case r of None \<Rightarrow> ins | Some v \<Rightarrow> v)))) = Some r"
    show "P h g ins r"
      unfolding P_def
    proof (intro allI impI)
      fix g'
      assume r: "r = Inr g'" and sys: "sys_core (gdb_arm g)"
        and ins: "\<not> is_breakpoint ins \<or> word_at (mem (gdb_arm g)) (fetch_addr (gdb_arm g)) \<noteq> None"
      have eq': "(if is_breakpoint (next_ins (gdb_arm g) ins) then Some (Inr g)
        else case arm_step h (gdb_arm g) of Inl e \<Rightarrow> Some (Inl e)
          | Inr (result, p) \<Rightarrow> f h (g\<lparr>gdb_arm := p, target_exception := result\<rparr>) (next_ins (gdb_arm g) ins)) = Some (Inr g')"
        unfolding next_ins_def is_breakpoint_def using eq sys
        by (simp add: core_eqs rview_def r flip: fetch_addr_def)
      show "at_breakpoint (gdb_arm g') \<and> (\<exists>k. exec h (gdb_arm g) (replicate k Step) = Inr (gdb_arm g'))"
      proof (cases "is_breakpoint (next_ins (gdb_arm g) ins)")
        case True
        then show ?thesis using eq' next_ins_breakpoint[OF ins] by (auto intro!: exI[of _ 0])
      next
        case False
        then obtain c p where p: "arm_step h (gdb_arm g) = Inr (c, p)"
            "f h (g\<lparr>gdb_arm := p, target_exception := c\<rparr>) (next_ins (gdb_arm g) ins) = Some (Inr g')"
          using eq' by (auto split: sum.splits)
        from IH[OF p(2)] False arm_step_sys[OF sys p(1)] obtain k where
          "at_breakpoint (gdb_arm g')" "exec h p (replicate k Step) = Inr (gdb_arm g')"
          by (auto simp: P_def)
        then show ?thesis using p(1) exec_Step_Suc[of h "gdb_arm g" k] by (auto intro!: exI[of _ "Suc k"])
      qed
    qed
  qed
  then show ?thesis using assms(2,3) by (simp add: P_def)
qed

section \<open>Single registers\<close>

lemma scan_equals:
  assumes "r < 2 ^ 32"
  shows "scan_x junk (cstr (hex_digits r @ 0x3d # z)) = of_nat r" "0x3d \<in> set (cstr (hex_digits r @ 0x3d # z))"
    "tl (dropWhile (\<lambda>c. c \<noteq> 0x3d) (hex_digits r @ 0x3d # z)) = z"
proof -
  have eq: "digit_value 0x3d = None" by code_simp
  have cstr: "cstr (hex_digits r @ 0x3d # z) = hex_digits r @ 0x3d # cstr z"
    by (simp add: cstr_append hex_digits_nonzero)
  show "scan_x junk (cstr (hex_digits r @ 0x3d # z)) = of_nat r"
    unfolding cstr by (rule scan_x_hex[OF assms]) (simp add: eq)
  show "0x3d \<in> set (cstr (hex_digits r @ 0x3d # z))" by (simp add: cstr)
  have "\<forall>c \<in> set (hex_digits r). c \<noteq> 0x3d" using hex_digits_plain[of r] eq by (metis plain_digit_def)
  then show "tl (dropWhile (\<lambda>c. c \<noteq> 0x3d) (hex_digits r @ 0x3d # z)) = z" by (simp add: dropWhile_append2)
qed

lemma gdb_write_register_eq:
  assumes "sys_core (gdb_arm g)" "r < 2 ^ 32"
  shows "gdb_write_register h be junk junk' g (hex_digits r @ 0x3d # word_text be v @ z) =
    (if r < 16 then gdb_send_data (g\<lparr>gdb_arm := rset (gdb_arm g) r v\<rparr>) ''OK'' else Inl Abort)"
proof -
  have read: "read_uint32 h be junk' (word_text be v @ z) 0 = Inr v"
    using read_uint32_word_text[of h be junk' "[]" v z] by simp
  have "(of_nat r :: u32) < 16 \<longleftrightarrow> r < 16"
    using assms(2) by (simp add: word_less_nat_alt unsigned_of_nat take_bit_nat_eq_self)
  moreover have "unat (ucast (of_nat r :: u32) :: u8) = r" if "r < 16"
    using that by (simp add: unsigned_ucast_eq unsigned_of_nat take_bit_nat_eq_self)
  ultimately show ?thesis
    using assms(1) scan_equals[OF assms(2), where z = "word_text be v @ z"]
    by (simp add: gdb_write_register_def read Let_def core_eqs)
qed

text \<open>\<^verbatim>\<open>atoi\<close> stops at the first letter.\<close>

definition decimal_part :: "u8 list \<Rightarrow> bool \<times> nat" where
  "decimal_part s = (let (neg, s) = split_sign (dropWhile is_space s)
     in (neg, digits_value 10 (takeWhile (\<lambda>c. 48 \<le> c \<and> c \<le> 57) s)))"

lemma atoi_decimal: "decimal_part s = (False, n) \<Longrightarrow> n < 2 ^ 32 \<Longrightarrow> atoi s = of_nat n"
  by (auto simp: atoi_def decimal_part_def strtol_value_def min_def split: prod.splits)

lemma decimal_part_hex:
  "\<forall>r \<in> set [0..<16]. decimal_part (hex_digits r) = (False, if r < 10 then r else 0)"
  "decimal_part (hex_digits 25) = (False, 19)"
  by code_simp+

lemma atoi_hex: "r < 16 \<Longrightarrow> atoi (hex_digits r) = of_nat (if r < 10 then r else 0)"
  using decimal_part_hex(1) by (intro atoi_decimal) simp_all

lemma atoi_cpsr: "atoi (hex_digits 25) = 19"
  using atoi_decimal[OF decimal_part_hex(2)] by simp

lemma gdb_read_register_eq:
  assumes "sys_core (gdb_arm g)" "length (packet g) = MAX_PACKET_SIZE" "r < 16"
  shows "sends g (gdb_read_register h be g (hex_digits r @ 0 # z))
    (frame (word_text be (rget (gdb_arm g) (if r < 10 then r else 0)))) (\<lambda>g'. gdb_arm g' = gdb_arm g)"
proof -
  let ?r = "if r < 10 then r else 0" and ?w = "word_text be (rget (gdb_arm g) (if r < 10 then r else 0))"
  have "atoi (cstr (hex_digits r @ 0 # z)) = of_nat ?r"
    using atoi_hex[OF assms(3)] by (simp add: cstr_append hex_digits_nonzero)
  moreover have "(of_nat ?r :: u32) < 16" "(of_nat ?r :: u32) \<noteq> 15" "unat (ucast (of_nat ?r :: u32) :: u8) = ?r"
    by (simp_all add: word_less_nat_alt word_unat_eq_iff unsigned_ucast_eq unsigned_of_nat take_bit_nat_eq_self)
  ultimately have read: "gdb_read_register h be g (hex_digits r @ 0 # z) = bnd (buffer_put g 0 ?w) gdb_send_buffer"
    using assms(1) by (simp add: gdb_read_register_def Let_def core_eqs rview_def write_uint32_eq)
  obtain g1 where g1: "buffer_put g 0 ?w = Inr g1" "holds0 g ?w g1"
    using put_holds[OF holds_init[OF assms(2)], of 0 ?w] by (auto simp: returns_def)
  then show ?thesis using send_holds[OF g1(2) word_text_nonzero] unfolding read by (auto elim: sends_mono)
qed

section \<open>Properties\<close>

text \<open>C15: the command \<open>c\<close> comes back exactly when the processor, stepping from the current state, reaches a
  breakpoint, and if it does, it comes back at the first one, with one of the three stop answers;
  so it does come back when there is a breakpoint ahead, and otherwise it runs forever or until a
  step stops the process.  There is one exception: when the PC is outside the memory, the loop tests an uninitialised
  variable, and if that happens to hold a breakpoint, \<open>c\<close> comes back at once, without one.  An answer to a connection that
  is gone ends the process.\<close>

theorem cont_stops_at_breakpoint:
  assumes "gdb_inv n g"
  shows "if word_at (mem (gdb_arm g)) (fetch_addr (gdb_arm g)) = None \<and> is_breakpoint junk
    then \<exists>m. cont h junk g = Some m
      \<and> sends g m (frame (ascii (stop_answer (target_exception g)))) (\<lambda>g'. gdb_arm g' = gdb_arm g)
    else ((\<exists>g'. cont h junk g = Some (Inr g')) \<longleftrightarrow>
        hangup g = None \<and> (\<exists>k q. exec h (gdb_arm g) (replicate k Step) = Inr q \<and> at_breakpoint q))
      \<and> (\<forall>k q. exec h (gdb_arm g) (replicate k Step) = Inr q \<and> at_breakpoint q
          \<and> (\<forall>i < k. \<forall>p. exec h (gdb_arm g) (replicate i Step) = Inr p \<longrightarrow> \<not> at_breakpoint p) \<longrightarrow>
          (\<exists>m s. cont h junk g = Some m \<and> s \<in> {''S04'', ''S05'', ''S10''}
            \<and> sends g m (frame (ascii s)) (\<lambda>g'. gdb_arm g' = q)))"
proof (cases "word_at (mem (gdb_arm g)) (fetch_addr (gdb_arm g)) = None \<and> is_breakpoint junk")
  case True
  have "cont_loop h g junk = Some (Inr g)" using assms True by (simp add: cont_loop_eq gdb_inv_def next_ins_def)
  then show ?thesis
    using True stop_reason_sends[of g] assms by (auto simp: cont_def gdb_inv_def elim: sends_mono)
next
  case False
  then have start: "\<not> is_breakpoint junk \<or> word_at (mem (gdb_arm g)) (fetch_addr (gdb_arm g)) \<noteq> None" by auto
  have sys: "sys_core (gdb_arm g)" and len: "length (packet g) = MAX_PACKET_SIZE" using assms by (simp_all add: gdb_inv_def)
  let ?run = "\<lambda>k q. exec h (gdb_arm g) (replicate k Step) = Inr q"
  have first: "\<exists>m s. cont h junk g = Some m \<and> s \<in> {''S04'', ''S05'', ''S10''} \<and> sends g m (frame (ascii s)) (\<lambda>g'. gdb_arm g' = q)"
    if k: "?run k q" "at_breakpoint q" "\<forall>i < k. \<forall>p. ?run i p \<longrightarrow> \<not> at_breakpoint p" for k q
  proof -
    obtain e where "cont_loop h g junk = Some (Inr (g\<lparr>gdb_arm := q, target_exception := e\<rparr>))"
      using cont_loop_reaches[OF sys k(1,2) _ start] k(3) by blast
    moreover have "stop_answer e \<in> {''S04'', ''S05'', ''S10''}" by (simp add: stop_answer_def)
    moreover have "sends g (gdb_send_stop_reason (g\<lparr>gdb_arm := q, target_exception := e\<rparr>)) (frame (ascii (stop_answer e))) (\<lambda>g'. gdb_arm g' = q)"
      using stop_reason_after[OF len, of e q] by (auto elim: sends_mono)
    ultimately show ?thesis by (intro exI[of _ "stop_answer e"] exI) (auto simp: cont_def)
  qed
  have ahead: "\<exists>m s. cont h junk g = Some m \<and> sends g m (frame (ascii s)) (\<lambda>g'. True)" if kq: "?run k q" "at_breakpoint q" for k q
  proof -
    let ?Q = "\<lambda>k. \<exists>q. ?run k q \<and> at_breakpoint q"
    have "?Q k" using kq by blast
    then obtain q' where "?run (LEAST k. ?Q k) q'" "at_breakpoint q'" using LeastI[of ?Q k] by blast
    moreover have "\<forall>i < (LEAST k. ?Q k). \<forall>p. ?run i p \<longrightarrow> \<not> at_breakpoint p"
      using not_less_Least[where P = ?Q] by blast
    ultimately obtain m s where "cont h junk g = Some m" "sends g m (frame (ascii s)) (\<lambda>g'. gdb_arm g' = q')"
      using first by meson
    then show ?thesis by (auto elim: sends_mono)
  qed
  have reached: "\<exists>k q. ?run k q \<and> at_breakpoint q" if c: "cont h junk g = Some (Inr g')" for g'
  proof -
    obtain g1 where "cont_loop h g junk = Some (Inr g1)"
      using c by (auto simp: cont_def bnd_eq_Inr_iff split: option.splits)
    then show ?thesis using cont_loop_stops[OF _ sys start] by blast
  qed
  have "(\<exists>g'. cont h junk g = Some (Inr g')) \<longleftrightarrow> hangup g = None \<and> (\<exists>k q. ?run k q \<and> at_breakpoint q)"
  proof
    assume "\<exists>g'. cont h junk g = Some (Inr g')"
    then obtain g' where c: "cont h junk g = Some (Inr g')" by blast
    from reached[OF this] obtain k q where kq: "?run k q" "at_breakpoint q" by blast
    from ahead[OF this] c have "hangup g = None" by (auto simp: sends_def split: option.splits)
    then show "hangup g = None \<and> (\<exists>k q. ?run k q \<and> at_breakpoint q)" using kq by blast
  next
    assume "hangup g = None \<and> (\<exists>k q. ?run k q \<and> at_breakpoint q)"
    then show "\<exists>g'. cont h junk g = Some (Inr g')" using ahead by (fastforce simp: sends_def)
  qed
  then show ?thesis using False first by auto
qed

theorem cont_stops_at_breakpoint_witness:
  "\<exists>g' s. cont x86_host 0 (gdb_machine [0xF0, 0x01, 0xF0, 0xE7]) = Some (Inr g')
     \<and> s \<in> {''S04'', ''S05'', ''S10''} \<and> sent g' = frame (ascii s)"
proof -
  let ?img = "[0xF0, 0x01, 0xF0, 0xE7]"
  have "gdb_inv 4 (gdb_machine ?img)"
    by (simp add: gdb_inv_def sys_core_cpu_machine) (simp add: cpu_machine_def machine_def memory_create_def)
  moreover have "\<not> is_breakpoint 0" "at_breakpoint (cpu_machine ?img)" by code_simp+
  ultimately have "\<exists>m s. cont x86_host 0 (gdb_machine ?img) = Some m \<and> s \<in> {''S04'', ''S05'', ''S10''}
      \<and> sends (gdb_machine ?img) m (frame (ascii s)) (\<lambda>g'. gdb_arm g' = cpu_machine ?img)"
    using cont_stops_at_breakpoint[of 4 "gdb_machine ?img" 0 x86_host] by (fastforce dest: spec[of _ "0 :: nat"])
  then show ?thesis by (fastforce simp: sends_def)
qed

text \<open>C37: the command \<open>s\<close> executes one step and answers \<open>S04\<close> after an undefined instruction, \<open>S10\<close> after a data
  abort, and \<open>S05\<close> in every other case, also when the PC is outside the memory: the code of a
  prefetch abort, for which the source has a case, does not occur.  If the step stops the process,
  so does the command, and an answer to a connection that is gone ends it.\<close>

theorem step_command_answer:
  assumes "gdb_inv n g"
  shows "(\<forall>e. arm_step h (gdb_arm g) = Inl e \<longrightarrow> gdb_step h g = Inl e)
    \<and> (\<forall>code p. arm_step h (gdb_arm g) = Inr (code, p) \<longrightarrow>
        sends g (gdb_step h g) (frame (ascii (if code = UNDEFINED_INSTRUCTION then ''S04''
              else if code = DATA_ABORT then ''S10'' else ''S05''))) (\<lambda>g'. gdb_arm g' = p \<and> target_exception g' = code))
    \<and> (word_at (mem (gdb_arm g)) (fetch_addr (gdb_arm g)) = None \<longrightarrow>
        sends g (gdb_step h g) (frame (ascii ''S05'')) (\<lambda>g'. target_exception g' = - 1))"
proof -
  have sys: "sys_core (gdb_arm g)" and len: "length (packet g) = MAX_PACKET_SIZE" using assms by (simp_all add: gdb_inv_def)
  have run: "sends g (gdb_step h g) (frame (ascii (stop_answer code))) (\<lambda>g'. gdb_arm g' = p \<and> target_exception g' = code)"
    if "arm_step h (gdb_arm g) = Inr (code, p)" for code p
    using stop_reason_after[OF len, of code p] that by (simp add: gdb_step_def)
  have code: "code \<noteq> PREFETCH_ABORT" if "arm_step h (gdb_arm g) = Inr (code, p)" for code p
    using arm_step_eq(2,3)[OF sys, where h = h] that by (cases "step_stop (gdb_arm g)") (auto simp: keeps_def codes_def)
  have "\<exists>p. arm_step h (gdb_arm g) = Inr (- 1, p)" if "word_at (mem (gdb_arm g)) (fetch_addr (gdb_arm g)) = None"
    using that sys by (auto simp: arm_step_eq(1) arm_execute_instruction_eq)
  then have "sends g (gdb_step h g) (frame (ascii ''S05'')) (\<lambda>g'. target_exception g' = - 1)"
    if "word_at (mem (gdb_arm g)) (fetch_addr (gdb_arm g)) = None"
    using that run[of "- 1"] by (auto simp: stop_answer_def elim: sends_mono)
  moreover have "stop_answer c = (if c = UNDEFINED_INSTRUCTION then ''S04'' else if c = DATA_ABORT then ''S10'' else ''S05'')"
    if "arm_step h (gdb_arm g) = Inr (c, p)" for c p
    using code that by (simp add: stop_answer_def)
  ultimately show ?thesis using run by (auto simp: gdb_step_def)
qed

theorem step_command_answer_witness:
  "\<exists>g'. gdb_step x86_host ((gdb_machine [0, 0, 0, 0])\<lparr>gdb_arm := rset (cpu_machine [0, 0, 0, 0]) 15 64\<rparr>) = Inr g'
     \<and> sent g' = frame (ascii ''S05'')"
proof -
  let ?g = "(gdb_machine [0, 0, 0, 0])\<lparr>gdb_arm := rset (cpu_machine [0, 0, 0, 0]) 15 64\<rparr>"
  have "gdb_inv (mem_size (mem (gdb_arm ?g))) ?g" by (simp add: gdb_inv_def sys_core_cpu_machine)
  moreover have "word_at (mem (gdb_arm ?g)) (fetch_addr (gdb_arm ?g)) = None"
    by (simp add: word_at_def fetch_addr_def rget_rset sys_core_cpu_machine)
      (simp add: cpu_machine_def machine_def memory_create_def)
  ultimately have "sends ?g (gdb_step x86_host ?g) (frame (ascii ''S05'')) (\<lambda>g'. target_exception g' = - 1)"
    using step_command_answer[of _ ?g x86_host] by blast
  then show ?thesis by (auto simp: sends_def)
qed

text \<open>C36: single registers.  The command \<open>P\<close> writes register \<open>r\<close> for \<open>r < 16\<close> and keeps the others, and ends the
  process by an assertion for any other number, such as that of the CPSR.  The command \<open>p\<close>
  reads its number in decimal although gdb sends it in hexadecimal: r0 to r9 are answered, for r10
  to r15 the answer is r0, and the CPSR (\<^verbatim>\<open>0x19\<close>) ends the process.  An answer to a connection that is gone ends it too.\<close>

theorem register_commands:
  assumes "gdb_inv n g"
  shows "(r < 16 \<longrightarrow> sends g (gdb_write_register h be junk junk' g (hex_digits r @ 0x3d # word_text be v @ z)) (frame (ascii ''OK''))
        (\<lambda>g'. \<forall>k < 17. rget (gdb_arm g') k = (if k = r then v else rget (gdb_arm g) k)))
    \<and> (16 \<le> r \<and> r < 2 ^ 32 \<longrightarrow>
        gdb_write_register h be junk junk' g (hex_digits r @ 0x3d # word_text be v @ z) = Inl Abort)
    \<and> (r < 16 \<longrightarrow> sends g (gdb_read_register h be g (hex_digits r @ 0 # z))
        (frame (word_text be (rget (gdb_arm g) (if r < 10 then r else 0)))) (\<lambda>g'. gdb_arm g' = gdb_arm g))
    \<and> gdb_read_register h be g (hex_digits 25 @ 0 # z) = Inl Abort"
proof -
  have sys: "sys_core (gdb_arm g)" and len: "length (packet g) = MAX_PACKET_SIZE" using assms by (simp_all add: gdb_inv_def)
  have "sends g (gdb_write_register h be junk junk' g (hex_digits r @ 0x3d # word_text be v @ z)) (frame (ascii ''OK''))
      (\<lambda>g'. \<forall>k < 17. rget (gdb_arm g') k = (if k = r then v else rget (gdb_arm g) k))"
    if "r < 16"
  proof -
    let ?g = "g\<lparr>gdb_arm := rset (gdb_arm g) r v\<rparr>"
    have "0 \<notin> set (ascii ''OK'')" by (simp add: ascii_def)
    then have "sends g (gdb_send_data ?g ''OK'') (frame (ascii ''OK'')) (\<lambda>g'. gdb_arm g' = rset (gdb_arm g) r v)"
      using send_short[of ?g "''OK''"] len by (intro sends_from[of ?g g]) (auto elim: sends_mono)
    then show ?thesis
      using gdb_write_register_eq[OF sys, of r] that sys by (auto simp: rget_rset elim: sends_mono)
  qed
  moreover have "gdb_read_register h be g (hex_digits 25 @ 0 # z) = Inl Abort"
    by (simp add: gdb_read_register_def cstr_append hex_digits_nonzero atoi_cpsr)
  moreover have "gdb_write_register h be junk junk' g (hex_digits r @ 0x3d # word_text be v @ z) = Inl Abort"
    if "16 \<le> r" "r < 2 ^ 32"
    using gdb_write_register_eq[OF sys that(2), of h be junk junk' v z] that(1) by simp
  ultimately show ?thesis
    using gdb_read_register_eq[OF sys len, of r h be z] by blast
qed

theorem register_commands_witness:
  "(\<exists>g'. gdb_read_register x86_host False ((gdb_machine [0, 0, 0, 0])\<lparr>gdb_arm := rset (cpu_machine [0, 0, 0, 0]) 15 64\<rparr>)
        (ascii ''f'' @ [0]) = Inr g' \<and> sent g' = frame (ascii ''00000000''))
   \<and> gdb_read_register x86_host False (gdb_machine [0, 0, 0, 0]) (ascii ''19'' @ [0]) = Inl Abort"
proof -
  let ?g = "(gdb_machine [0, 0, 0, 0])\<lparr>gdb_arm := rset (cpu_machine [0, 0, 0, 0]) 15 64\<rparr>"
  have "gdb_inv (mem_size (mem (gdb_arm ?g))) ?g" "gdb_inv (mem_size (mem (cpu_machine [0, 0, 0, 0]))) (gdb_machine [0, 0, 0, 0])"
    by (simp_all add: gdb_inv_def sys_core_cpu_machine)
  moreover have "rget (gdb_arm ?g) 0 = 0" by (simp add: rget_rset sys_core_cpu_machine rget_cpu_machine)
  moreover have "hex_digits 15 = ascii ''f''" "hex_digits 25 = ascii ''19''" "word_text False 0 = ascii ''00000000''" by code_simp+
  moreover from calculation have "sends ?g (gdb_read_register x86_host False ?g (hex_digits 15 @ [0]))
      (frame (word_text False (rget (gdb_arm ?g) 0))) (\<lambda>g'. gdb_arm g' = gdb_arm ?g)"
    using register_commands[of _ ?g 15 x86_host False 0 0 0 "[]"] by fastforce
  ultimately show ?thesis
    using register_commands[of _ "gdb_machine [0, 0, 0, 0]" 15 x86_host False 0 0 0 "[]"]
    by (fastforce simp: sends_def)
qed

end
