(* ===== verification/Scanner.thy ===== *)
theory Scanner
  imports Gdb_Control
begin

text \<open>
  The packet scanner, \<^verbatim>\<open>scanner.l\<close>.  Its rules are taken with the documented meaning of flex: the
  longest match wins, and the first rule among equals; a byte that no rule matches (a newline
  outside a packet) is echoed.  What the rules call in \<^verbatim>\<open>gdb_protocol.h\<close> is an argument of the scanner, and
  the locale \<open>packet_sink\<close> states what the scanner relies on; \<^verbatim>\<open>gdb_scanner\<close> puts in the functions of
  \<open>Gdb_Protocol\<close>, behind the pointer that \<^verbatim>\<open>gdb_init_data\<close> returns, which may be null.  Messages to the debug module are left out.

  The call of the analysis may not come back (\<open>None\<close>); it also gets the number of bytes that are
  left, which tells apart the uninitialised variables of different calls.
\<close>

section \<open>Rules\<close>

datatype token =
    Ack
  | Nak
  | Packet "u8 list"
  | Other u8
  | Echo u8

definition is_hex :: "u8 \<Rightarrow> bool" where
  "is_hex c \<longleftrightarrow> digit_value c \<noteq> None"

text \<open>A packet at the start of the input: \<^verbatim>\<open>"$"[^$#]*"#"{HEX}{HEX}\<close>, behind the \<open>$\<close>.\<close>

definition packet_rest :: "u8 list \<Rightarrow> (u8 list \<times> u8 list) option" where
  "packet_rest input =
    (let plain = \<lambda>c. c \<noteq> of_char CHR ''$'' \<and> c \<noteq> of_char CHR ''#'';
         body = takeWhile plain input
     in case dropWhile plain input of
          c # a # b # rest \<Rightarrow>
            if c = of_char CHR ''#'' \<and> is_hex a \<and> is_hex b then Some (body @ [c, a, b], rest) else None
        | _ \<Rightarrow> None)"

definition next_token :: "u8 \<Rightarrow> u8 list \<Rightarrow> token \<times> u8 list" where
  "next_token c input =
     (if c = of_char CHR ''+'' then (Ack, input)
      else if c = of_char CHR ''-'' then (Nak, input)
      else if c = of_char CHR ''$'' then
        (case packet_rest input of Some (p, rest) \<Rightarrow> (Packet (c # p), rest) | None \<Rightarrow> (Other c, input))
      else if c = 10 then (Echo c, input)
      else (Other c, input))"

lemma packet_rest_shorter: "packet_rest input = Some (p, rest) \<Longrightarrow> length rest < length input"
proof -
  assume "packet_rest input = Some (p, rest)"
  then obtain c a b where "dropWhile (\<lambda>c. c \<noteq> of_char CHR ''$'' \<and> c \<noteq> of_char CHR ''#'') input = c # a # b # rest"
    by (auto simp: packet_rest_def Let_def split: list.splits if_splits)
  then show ?thesis
    using length_dropWhile_le[of "\<lambda>c. c \<noteq> of_char CHR ''$'' \<and> c \<noteq> of_char CHR ''#''" input] by simp
qed

lemma next_token_shorter: "length (snd (next_token c input)) \<le> length input"
  by (auto simp: next_token_def split: option.splits dest: packet_rest_shorter)

section \<open>Actions\<close>

abbreviation (input) MAX_ERROR_SIZE :: nat where "MAX_ERROR_SIZE \<equiv> 1024"

record 'g parser_data =
  parser_gdb :: 'g
  err_buffer :: "u8 list"
  err_len :: nat

definition handle_error :: "('g \<Rightarrow> 'g outcome) \<Rightarrow> 'g parser_data \<Rightarrow> 'g parser_data outcome" where
  "handle_error retransmission data =
     (if err_len data \<noteq> 0 then
        bnd (store_bytes (err_buffer data) (err_len data) [0]) (\<lambda>b.
        bnd (retransmission (parser_gdb data)) (\<lambda>g.
        Inr (data\<lparr>err_buffer := b, parser_gdb := g, err_len := 0\<rparr>)))
      else Inr data)"

definition add_character_to_error :: "('g \<Rightarrow> 'g outcome) \<Rightarrow> 'g parser_data \<Rightarrow> u8 \<Rightarrow> 'g parser_data outcome" where
  "add_character_to_error retransmission data c =
     bnd (if err_len data > MAX_ERROR_SIZE - 2 then handle_error retransmission data else Inr data) (\<lambda>data.
     bnd (store_bytes (err_buffer data) (err_len data) [c]) (\<lambda>b.
     Inr (data\<lparr>err_buffer := b, err_len := err_len data + 1\<rparr>)))"

definition token_action ::
    "('g \<Rightarrow> u8 list \<Rightarrow> 'g outcome option) \<Rightarrow> ('g \<Rightarrow> 'g outcome) \<Rightarrow> ('g \<Rightarrow> 'g outcome) \<Rightarrow> 'g parser_data \<Rightarrow> token
     \<Rightarrow> 'g parser_data outcome option" where
  "token_action analysis retransmission transmit data tok =
     (case tok of
        Ack \<Rightarrow> Some (handle_error retransmission data)
      | Nak \<Rightarrow> Some (bnd (handle_error retransmission data) (\<lambda>data.
          bnd (transmit (parser_gdb data)) (\<lambda>g. Inr (data\<lparr>parser_gdb := g\<rparr>))))
      | Packet p \<Rightarrow>
          (case handle_error retransmission data of
             Inl e \<Rightarrow> Some (Inl e)
           | Inr data \<Rightarrow>
               (case analysis (parser_gdb data) (p @ [0]) of
                  None \<Rightarrow> None
                | Some r \<Rightarrow> Some (bnd r (\<lambda>g. Inr (data\<lparr>parser_gdb := g\<rparr>)))))
      | Other c \<Rightarrow> Some (add_character_to_error retransmission data c)
      | Echo c \<Rightarrow> Some (Inr data))"

function yylex ::
    "(nat \<Rightarrow> 'g \<Rightarrow> u8 list \<Rightarrow> 'g outcome option) \<Rightarrow> ('g \<Rightarrow> 'g outcome) \<Rightarrow> ('g \<Rightarrow> 'g outcome) \<Rightarrow> 'g parser_data \<Rightarrow> u8 list
     \<Rightarrow> 'g parser_data outcome option" where
  "yylex analysis retransmission transmit data [] = Some (handle_error retransmission data)"
| "yylex analysis retransmission transmit data (c # input) =
     (case token_action (analysis (length input)) retransmission transmit data (fst (next_token c input)) of
        None \<Rightarrow> None
      | Some (Inl e) \<Rightarrow> Some (Inl e)
      | Some (Inr data) \<Rightarrow> yylex analysis retransmission transmit data (snd (next_token c input)))"
  by pat_completeness auto
termination
  by (relation "measure (\<lambda>(a, r, t, data, input). length input)") (auto simp: less_Suc_eq_le next_token_shorter)

text \<open>The functions of the protocol on a pointer: each of them looks at \<^verbatim>\<open>gdb->fd\<close> first.\<close>

definition at_session :: "(gdb_protocol_data \<Rightarrow> gdb_protocol_data outcome) \<Rightarrow> gdb_protocol_data option \<Rightarrow> gdb_protocol_data option outcome" where
  "at_session f gdb = (case gdb of None \<Rightarrow> Inl Null_Deref | Some g \<Rightarrow> bnd (f g) (\<lambda>g. Inr (Some g)))"

definition analysis_at ::
    "(gdb_protocol_data \<Rightarrow> u8 list \<Rightarrow> gdb_protocol_data outcome option) \<Rightarrow> gdb_protocol_data option \<Rightarrow> u8 list
     \<Rightarrow> gdb_protocol_data option outcome option" where
  "analysis_at f gdb pkt =
     (case gdb of
        None \<Rightarrow> Some (Inl Null_Deref)
      | Some g \<Rightarrow> (case f g pkt of None \<Rightarrow> None | Some r \<Rightarrow> Some (bnd r (\<lambda>g. Inr (Some g)))))"

text \<open>\<open>m\<close> is the result of the \<^verbatim>\<open>malloc\<close> in \<^verbatim>\<open>gdb_init_data\<close>, \<open>err\<close> the contents of the error buffer, \<open>f\<close> the stream that \<^verbatim>\<open>fdopen\<close>
  gives, with the bytes that arrive on it, or none; without it the session ends at once.\<close>

definition gdb_scanner ::
    "host \<Rightarrow> bool \<Rightarrow> (nat \<Rightarrow> nat \<Rightarrow> u32) \<Rightarrow> cpu \<Rightarrow> (nat \<Rightarrow> link) \<Rightarrow> u8 list option \<Rightarrow> u8 list \<Rightarrow> u8 list option
     \<Rightarrow> gdb_protocol_data option parser_data outcome option" where
  "gdb_scanner h be junk arm out m err f =
    (let data = \<lparr>parser_gdb = gdb_init_data arm out m, err_buffer = err, err_len = 0\<rparr>
     in case f of
          None \<Rightarrow> Some (Inr data)
        | Some input \<Rightarrow>
            yylex (\<lambda>n. analysis_at (gdb_packet_analysis h be (junk n))) (at_session gdb_require_retransmission)
              (at_session gdb_transmit_packet) data input)"

section \<open>What the scanner relies on\<close>

text \<open>A sink of packets: a relation that its three operations keep, reflexive and transitive.\<close>

locale packet_sink =
  fixes analysis :: "nat \<Rightarrow> 'g \<Rightarrow> u8 list \<Rightarrow> 'g outcome option"
    and retransmission :: "'g \<Rightarrow> 'g outcome"
    and transmit :: "'g \<Rightarrow> 'g outcome"
    and kept :: "'g \<Rightarrow> 'g \<Rightarrow> bool"
  assumes kept_refl: "kept g g"
    and kept_trans: "kept g g' \<Longrightarrow> kept g' g'' \<Longrightarrow> kept g g''"
    and analysis_kept: "analysis n g p = Some (Inr g') \<Longrightarrow> kept g g'"
    and retransmission_kept: "retransmission g = Inr g' \<Longrightarrow> kept g g'"
    and transmit_kept: "transmit g = Inr g' \<Longrightarrow> kept g g'"
begin

text \<open>The scanner state: the error text fits its buffer; and an end of the process by a write of the scanner itself.\<close>

definition scan_ok :: "'g \<Rightarrow> 'g parser_data \<Rightarrow> bool" where
  "scan_ok g d \<longleftrightarrow> length (err_buffer d) = MAX_ERROR_SIZE \<and> err_len d < MAX_ERROR_SIZE \<and> kept g (parser_gdb d)"

definition write_stops :: "'g \<Rightarrow> stop \<Rightarrow> bool" where
  "write_stops g e \<longleftrightarrow> (\<exists>g'. kept g g' \<and> (retransmission g' = Inl e \<or> transmit g' = Inl e))"

definition safe :: "'g \<Rightarrow> ('g parser_data \<Rightarrow> bool) \<Rightarrow> 'g parser_data outcome \<Rightarrow> bool" where
  "safe g Q m \<longleftrightarrow> (case m of Inl e \<Rightarrow> write_stops g e | Inr d \<Rightarrow> Q d)"

lemma safe_bnd: "safe g Q m \<Longrightarrow> (\<And>d. Q d \<Longrightarrow> safe g R (f d)) \<Longrightarrow> safe g R (bnd m f)"
  by (cases m) (simp_all add: safe_def)

lemma handle_error_ok: "scan_ok g d \<Longrightarrow> safe g (\<lambda>d'. scan_ok g d' \<and> err_len d' = 0) (handle_error retransmission d)"
  using kept_trans[OF _ retransmission_kept]
  by (cases "retransmission (parser_gdb d)") (auto simp: scan_ok_def handle_error_def store_bytes_def safe_def write_stops_def)

lemma add_character_ok: "scan_ok g d \<Longrightarrow> safe g (scan_ok g) (add_character_to_error retransmission d c)"
proof -
  assume d: "scan_ok g d"
  have put: "safe g (scan_ok g) (bnd (store_bytes (err_buffer d) (err_len d) [c]) (\<lambda>b.
      Inr (d\<lparr>err_buffer := b, err_len := err_len d + 1\<rparr>)))" if "scan_ok g d \<and> err_len d \<le> 1022" for d
    using that by (simp add: scan_ok_def store_bytes_def safe_def)
  have "safe g (\<lambda>d. scan_ok g d \<and> err_len d \<le> 1022) (if err_len d > MAX_ERROR_SIZE - 2 then handle_error retransmission d else Inr d)"
    using d handle_error_ok[OF d] by (auto simp: safe_def split: sum.splits)
  then show ?thesis unfolding add_character_to_error_def by (rule safe_bnd) (rule put)
qed

lemma transmit_ok:
  "scan_ok g d \<Longrightarrow> safe g (scan_ok g) (bnd (transmit (parser_gdb d)) (\<lambda>g'. Inr (d\<lparr>parser_gdb := g'\<rparr>)))"
  using kept_trans[OF _ transmit_kept]
  by (cases "transmit (parser_gdb d)") (auto simp: scan_ok_def safe_def write_stops_def)

text \<open>What a token can do: the scanner itself only stops the process when a write does.\<close>

lemma token_ok:
  assumes "scan_ok g d" "token_action (analysis n) retransmission transmit d tok = Some r"
  shows "safe g (scan_ok g) r \<or> (\<exists>e g' p. r = Inl e \<and> kept g g' \<and> analysis n g' (p @ [0]) = Some (Inl e))"
proof (cases tok)
  case (Packet p)
  show ?thesis
  proof (cases "handle_error retransmission d")
    case (Inl e)
    then have "r = Inl e" using assms(2) Packet by (simp add: token_action_def)
    then show ?thesis using handle_error_ok[OF assms(1)] Inl by (simp add: safe_def)
  next
    case (Inr d1)
    then have d1: "scan_ok g d1" using handle_error_ok[OF assms(1)] by (simp add: safe_def)
    then obtain r1 where r1: "analysis n (parser_gdb d1) (p @ [0]) = Some r1" "r = bnd r1 (\<lambda>g. Inr (d1\<lparr>parser_gdb := g\<rparr>))"
      using assms(2) Packet Inr by (auto simp: token_action_def split: option.splits)
    show ?thesis
    proof (cases r1)
      case (Inl e)
      then show ?thesis using r1 d1 by (auto simp: scan_ok_def)
    next
      case (Inr g')
      then show ?thesis using r1 d1 kept_trans[OF _ analysis_kept] by (auto simp: scan_ok_def safe_def)
    qed
  qed
next
  case Nak
  then have "r = bnd (handle_error retransmission d) (\<lambda>d. bnd (transmit (parser_gdb d)) (\<lambda>g'. Inr (d\<lparr>parser_gdb := g'\<rparr>)))"
    using assms(2) by (simp add: token_action_def)
  then show ?thesis using safe_bnd[OF handle_error_ok[OF assms(1)]] transmit_ok by auto
next
  case (Other c)
  then show ?thesis using assms(2) add_character_ok[OF assms(1), of c] by (auto simp: token_action_def)
qed (use assms handle_error_ok[OF assms(1)] in \<open>auto simp: token_action_def safe_def split: sum.splits\<close>)

lemma token_returns:
  assumes "\<And>n g' p. kept g g' \<Longrightarrow> analysis n g' p \<noteq> None" "scan_ok g d"
  shows "token_action (analysis n) retransmission transmit d tok \<noteq> None"
proof (cases "handle_error retransmission d")
  case (Inl e)
  then show ?thesis by (auto simp: token_action_def split: token.split)
next
  case (Inr d1)
  then have "kept g (parser_gdb d1)" using handle_error_ok[OF assms(2)] by (simp add: safe_def scan_ok_def)
  then have "analysis n (parser_gdb d1) p = Some (the (analysis n (parser_gdb d1) p))" for p using assms(1) by simp
  from this[of "_ @ [0]"] show ?thesis using Inr by (cases tok) (auto simp: token_action_def split: option.split)
qed

text \<open>A whole scan: it keeps the relation, or an analysis or a write has stopped the process.\<close>

lemma yylex_ok:
  "scan_ok g d \<Longrightarrow> yylex analysis retransmission transmit d input = Some r \<Longrightarrow>
     safe g (\<lambda>d'. scan_ok g d' \<and> err_len d' = 0) r
     \<or> (\<exists>e n g' p. r = Inl e \<and> kept g g' \<and> analysis n g' (p @ [0]) = Some (Inl e))"
proof (induction "length input" arbitrary: d input rule: less_induct)
  case less
  show ?case
  proof (cases input)
    case Nil
    then show ?thesis using less.prems handle_error_ok[OF less.prems(1)] by auto
  next
    case (Cons c inp)
    have len: "length (snd (next_token c inp)) < length input"
      using next_token_shorter[of c inp] by (simp add: Cons)
    obtain r1 where r1: "token_action (analysis (length inp)) retransmission transmit d (fst (next_token c inp)) = Some r1"
      using less.prems(2) by (auto simp: Cons split: option.splits)
    show ?thesis
    proof (cases r1)
      case (Inl e)
      then show ?thesis using token_ok[OF less.prems(1) r1] r1 less.prems(2) by (auto simp: Cons safe_def)
    next
      case (Inr d1)
      then have "scan_ok g d1" using token_ok[OF less.prems(1) r1] by (simp add: safe_def)
      then show ?thesis using less.hyps[OF len] less.prems(2) r1 Inr by (simp add: Cons)
    qed
  qed
qed

lemma yylex_returns:
  assumes "\<And>n g' p. kept g g' \<Longrightarrow> analysis n g' p \<noteq> None"
  shows "scan_ok g d \<Longrightarrow> \<exists>r. yylex analysis retransmission transmit d input = Some r"
proof (induction "length input" arbitrary: d input rule: less_induct)
  case less
  show ?case
  proof (cases input)
    case Nil
    then show ?thesis by simp
  next
    case (Cons c inp)
    have len: "length (snd (next_token c inp)) < length input"
      using next_token_shorter[of c inp] by (simp add: Cons)
    obtain r where r: "token_action (analysis (length inp)) retransmission transmit d (fst (next_token c inp)) = Some r"
      using token_returns[OF assms less.prems] by blast
    show ?thesis
    proof (cases r)
      case (Inl e)
      then show ?thesis using r by (simp add: Cons)
    next
      case (Inr d1)
      then have "scan_ok g d1" using token_ok[OF less.prems r] by (simp add: safe_def)
      then show ?thesis using less.hyps[OF len] r Inr by (simp add: Cons)
    qed
  qed
qed

end

lemma at_session_eq: "at_session f g = Inr g' \<longleftrightarrow> (\<exists>x y. g = Some x \<and> g' = Some y \<and> f x = Inr y)"
  by (auto simp: at_session_def bnd_eq_Inr_iff split: option.splits)

interpretation gdb_sink: packet_sink "\<lambda>n. analysis_at (gdb_packet_analysis h be (junk n))"
    "at_session gdb_require_retransmission" "at_session gdb_transmit_packet" "rel_option gdb_keeps" for h be junk
proof unfold_locales
  show "rel_option gdb_keeps g g" for g by (cases g) simp_all
  show "rel_option gdb_keeps g g''" if "rel_option gdb_keeps g g'" "rel_option gdb_keeps g' g''" for g g' g''
    using that by (cases g; cases g'; cases g'') (auto intro: gdb_keeps_trans)
  show "rel_option gdb_keeps g g'" if "analysis_at (gdb_packet_analysis h be (junk n)) g p = Some (Inr g')" for n g p g'
    using that packet_analysis_keeps by (auto simp: analysis_at_def bnd_eq_Inr_iff split: option.splits)
  show "rel_option gdb_keeps g g'" if "at_session gdb_require_retransmission g = Inr g'" for g g'
    using that writen_keeps by (auto simp: at_session_eq gdb_require_retransmission_def)
  show "rel_option gdb_keeps g g'" if "at_session gdb_transmit_packet g = Inr g'" for g g'
    using that writen_keeps by (auto simp: at_session_eq gdb_transmit_packet_def)
qed

text \<open>What a session leaves, and why it may stop the process.\<close>

lemma writen_stops: "fd_writen g bs = Inl e \<Longrightarrow> hangup g = Some e"
  by (auto simp: fd_writen_def split: if_splits option.splits)

lemma session_ok:
  assumes "sys_core arm" "length raw = MAX_PACKET_SIZE" "length err = MAX_ERROR_SIZE"
    and "gdb_scanner h be junk arm out (Some raw) err f = Some r"
  shows "(\<exists>d g. r = Inr d \<and> parser_gdb d = Some g \<and> gdb_inv (mem_size (mem arm)) g \<and> err_len d = 0 \<and> length (err_buffer d) = MAX_ERROR_SIZE)
    \<or> (\<exists>e g. r = Inl e \<and> gdb_inv (mem_size (mem arm)) g
        \<and> (hangup g = Some e \<or> (\<exists>n p. gdb_packet_analysis h be (junk n) g (p @ [0]) = Some (Inl e))))"
proof -
  obtain g0 where g0: "gdb_init_data arm out (Some raw) = Some g0" "gdb_inv (mem_size (mem arm)) g0"
    using assms(1,2) by (simp add: gdb_inv_def gdb_init_data_def)
  let ?d = "\<lparr>parser_gdb = Some g0, err_buffer = err, err_len = 0\<rparr>"
  have ok: "gdb_sink.scan_ok (Some g0) ?d" using assms(3) by (simp add: gdb_sink.scan_ok_def)
  have kept: "\<exists>x. g = Some x \<and> gdb_inv (mem_size (mem arm)) x" if "rel_option gdb_keeps (Some g0) g" for g
    using that g0(2) by (cases g) (auto simp: gdb_keeps_def)
  show ?thesis
  proof (cases f)
    case None
    then show ?thesis using assms(3,4) g0 by (auto simp: gdb_scanner_def)
  next
    case (Some input)
    then have "gdb_sink.safe (Some g0) (\<lambda>d'. gdb_sink.scan_ok (Some g0) d' \<and> err_len d' = 0) r
        \<or> (\<exists>e n g' p. r = Inl e \<and> rel_option gdb_keeps (Some g0) g'
            \<and> analysis_at (gdb_packet_analysis h be (junk n)) g' (p @ [0]) = Some (Inl e))"
      using gdb_sink.yylex_ok[OF ok, of h be junk input r] assms(4) g0(1) by (simp add: gdb_scanner_def)
    then show ?thesis
    proof (elim disjE exE conjE)
      assume "gdb_sink.safe (Some g0) (\<lambda>d'. gdb_sink.scan_ok (Some g0) d' \<and> err_len d' = 0) r"
      then show ?thesis
        by (cases r) (auto simp: gdb_sink.safe_def gdb_sink.scan_ok_def gdb_sink.write_stops_def at_session_def bnd_eq_Inl_iff
            gdb_require_retransmission_def gdb_transmit_packet_def dest!: kept writen_stops)
    next
      fix e n g' p
      assume a: "r = Inl e" "rel_option gdb_keeps (Some g0) g'" "analysis_at (gdb_packet_analysis h be (junk n)) g' (p @ [0]) = Some (Inl e)"
      obtain x where x: "g' = Some x" "gdb_inv (mem_size (mem arm)) x" using kept[OF a(2)] by blast
      then have "gdb_packet_analysis h be (junk n) x (p @ [0]) = Some (Inl e)"
        using a(3) by (auto simp: analysis_at_def bnd_eq_Inl_iff split: option.splits)
      then show ?thesis using a(1) x(2) by blast
    qed
  qed
qed

lemma null_session:
  assumes "length err = MAX_ERROR_SIZE"
  shows "\<exists>r. gdb_scanner h be junk arm out None err f = Some r \<and> (r = Inl Null_Deref \<or> (\<exists>d. r = Inr d \<and> parser_gdb d = None))"
proof (cases f)
  case None
  then show ?thesis by (simp add: gdb_scanner_def gdb_init_data_def)
next
  case (Some input)
  let ?d = "\<lparr>parser_gdb = None, err_buffer = err, err_len = 0\<rparr>"
  have ok: "gdb_sink.scan_ok None ?d" using assms by (simp add: gdb_sink.scan_ok_def)
  have null: "rel_option gdb_keeps None g \<longleftrightarrow> g = None" for g by (cases g) simp_all
  have none: "analysis_at a g p = Some (Inl Null_Deref)" if "rel_option gdb_keeps None g" for a g p
    using that by (cases g) (simp_all add: analysis_at_def)
  then obtain r where r: "gdb_scanner h be junk arm out None err f = Some r"
    using gdb_sink.yylex_returns[OF _ ok, of h be junk input] Some by (auto simp: gdb_scanner_def gdb_init_data_def)
  then have "gdb_sink.safe None (\<lambda>d'. gdb_sink.scan_ok None d' \<and> err_len d' = 0) r \<or> r = Inl Null_Deref"
    using gdb_sink.yylex_ok[OF ok, of h be junk input r] Some none by (auto simp: gdb_scanner_def gdb_init_data_def)
  then have "r = Inl Null_Deref \<or> (\<exists>d. r = Inr d \<and> parser_gdb d = None)"
    by (cases r) (auto simp: gdb_sink.safe_def gdb_sink.scan_ok_def gdb_sink.write_stops_def at_session_def null)
  then show ?thesis using r by blast
qed

section \<open>Scanning a packet\<close>

lemma is_hex_hex2: "hex2 v = [a, b] \<Longrightarrow> is_hex a \<and> is_hex b"
  using digit_value_hex_digit[OF hex2_nibbles(1)[of v]] digit_value_hex_digit[OF hex2_nibbles(2)[of v]]
  by (auto simp: hex2_def is_hex_def)

definition plain_text :: "u8 list \<Rightarrow> bool" where
  "plain_text t \<longleftrightarrow> of_char CHR ''$'' \<notin> set t \<and> of_char CHR ''#'' \<notin> set t"

lemma next_token_packet:
  assumes "plain_text t"
  shows "next_token 0x24 (t @ ascii ''#'' @ hex2 v @ rest) = (Packet (ascii ''$'' @ t @ ascii ''#'' @ hex2 v), rest)"
proof -
  obtain a b where ab: "hex2 v = [a, b]" by (simp add: hex2_def)
  let ?plain = "\<lambda>c :: u8. c \<noteq> 0x24 \<and> c \<noteq> 0x23"
  have "\<forall>c \<in> set t. ?plain c" using assms by (auto simp: plain_text_def)
  then have "takeWhile ?plain (t @ 0x23 # a # b # rest) = t" "dropWhile ?plain (t @ 0x23 # a # b # rest) = 0x23 # a # b # rest"
    by (simp_all add: takeWhile_append2 dropWhile_append2)
  then show ?thesis
    using is_hex_hex2[OF ab] by (simp add: next_token_def packet_rest_def ab ascii_def Let_def)
qed

lemma yylex_packet:
  assumes "plain_text t" "err_len d = 0"
  shows "yylex A R T d (ascii ''$'' @ t @ ascii ''#'' @ hex2 v @ rest) =
    (case A (length (t @ ascii ''#'' @ hex2 v @ rest)) (parser_gdb d) (ascii ''$'' @ t @ ascii ''#'' @ hex2 v @ [0]) of
       None \<Rightarrow> None | Some (Inl e) \<Rightarrow> Some (Inl e) | Some (Inr g) \<Rightarrow> yylex A R T (d\<lparr>parser_gdb := g\<rparr>) rest)"
proof -
  have "ascii ''$'' @ t @ ascii ''#'' @ hex2 v @ rest = 0x24 # (t @ ascii ''#'' @ hex2 v @ rest)" by (simp add: ascii_def)
  moreover have "handle_error R d = Inr d" using assms(2) by (simp add: handle_error_def)
  ultimately show ?thesis
    using next_token_packet[OF assms(1), of v rest]
    by (simp add: token_action_def split: option.splits sum.splits)
qed

lemma yylex_ack: "err_len d = 0 \<Longrightarrow> yylex A R T d (ascii ''+'' @ rest) = yylex A R T d rest"
  by (simp add: ascii_def next_token_def token_action_def handle_error_def)

lemma yylex_end: "err_len d = 0 \<Longrightarrow> yylex A R T d [] = Some (Inr d)"
  by (simp add: handle_error_def)

lemma yylex_command:
  assumes "plain_text t" "t \<noteq> []" "err_len d = 0" "gdb_init ! unat (hd t) = Some f" "n = length (frame t @ rest) - 1"
    "parser_gdb d = Some g" "hangup g = None"
  shows "yylex (\<lambda>n. analysis_at (gdb_packet_analysis h be (junk n))) R T d (frame t @ rest) =
    (case call_handler h be (junk n) f (g\<lparr>sent := sent g @ ascii ''+''\<rparr>) (tl t @ 0 # hex2 (sum_list t) @ [0]) of
       None \<Rightarrow> None | Some (Inl e) \<Rightarrow> Some (Inl e)
     | Some (Inr g) \<Rightarrow> yylex (\<lambda>n. analysis_at (gdb_packet_analysis h be (junk n))) R T (d\<lparr>parser_gdb := Some g\<rparr>) rest)"
proof -
  have "n = length (t @ ascii ''#'' @ hex2 (sum_list t) @ rest)" by (simp add: assms(5))
  then have "yylex (\<lambda>n. analysis_at (gdb_packet_analysis h be (junk n))) R T d (frame t @ rest) =
    (case analysis_at (gdb_packet_analysis h be (junk n)) (Some g) (ascii ''$'' @ t @ ascii ''#'' @ hex2 (sum_list t) @ [0]) of
       None \<Rightarrow> None | Some (Inl e) \<Rightarrow> Some (Inl e)
     | Some (Inr g) \<Rightarrow> yylex (\<lambda>n. analysis_at (gdb_packet_analysis h be (junk n))) R T (d\<lparr>parser_gdb := g\<rparr>) rest)"
    using yylex_packet[OF assms(1,3), of "\<lambda>n. analysis_at (gdb_packet_analysis h be (junk n))" R T "sum_list t" rest]
    by (simp add: frame_def assms(6))
  moreover have "gdb_packet_analysis h be (junk n) g (ascii ''$'' @ t @ ascii ''#'' @ hex2 (sum_list t) @ [0])
    = call_handler h be (junk n) f (g\<lparr>sent := sent g @ ascii ''+''\<rparr>) (tl t @ 0 # hex2 (sum_list t) @ [0])" (is "_ = ?c")
    using packet_analysis_eq[OF assms(2)] assms(4,7) by simp
  ultimately show ?thesis
    by (cases ?c; cases "the ?c") (simp_all add: analysis_at_def)
qed

lemma plain_text_append: "plain_text (s @ t) \<longleftrightarrow> plain_text s \<and> plain_text t"
  by (auto simp: plain_text_def)

lemma of_char_dollar: "of_char CHR ''$'' = (0x24 :: u8)" and of_char_hash: "of_char CHR ''#'' = (0x23 :: u8)"
  by simp_all

lemma plain_mem_args: "plain_text (mem_args a n)"
proof -
  have "digit_value 0x24 = None" "digit_value 0x23 = None" by code_simp+
  then have "plain_text (hex_digits k)" for k
    using hex_digits_plain[of k] by (metis plain_digit_def plain_text_def of_char_dollar of_char_hash)
  then show ?thesis by (simp add: mem_args_def plain_text_append) (simp add: plain_text_def ascii_def)
qed

lemma plain_escape: "plain_text (escape {0x23, 0x24, 0x7d} vs)"
proof (induction vs)
  case (Cons v vs)
  then show ?case by (auto simp: escape_Cons plain_text_def)
qed (simp add: escape_def plain_text_def)

text \<open>The packets \<open>X\<close> and \<open>m\<close> in front of further input, with the answers they get.\<close>

lemma yylex_write:
  assumes "wf_memory (mem (gdb_arm g))" "length (packet g) = MAX_PACKET_SIZE" "unat (mem_size (mem (gdb_arm g))) < 2 ^ 32"
    and "vs \<noteq> []" "a + length vs \<le> unat (mem_size (mem (gdb_arm g)))" "parser_gdb d = Some g" "err_len d = 0" "connected g"
  shows "\<exists>g1. yylex (\<lambda>n. analysis_at (gdb_packet_analysis h be (junk n))) R T d
      (frame (ascii ''X'' @ mem_args a (length vs) @ ascii '':'' @ escape {0x23, 0x24, 0x7d} vs) @ rest)
      = yylex (\<lambda>n. analysis_at (gdb_packet_analysis h be (junk n))) R T (d\<lparr>parser_gdb := Some g1\<rparr>) rest
    \<and> sent g1 = sent g @ ascii ''+'' @ frame (ascii ''OK'') \<and> length (packet g1) = MAX_PACKET_SIZE \<and> connected g1
    \<and> gdb_arm g1 = (gdb_arm g)\<lparr>mem := (mem (gdb_arm g))\<lparr>mem_bytes := splice (mem_bytes (mem (gdb_arm g))) a vs\<rparr>\<rparr>"
proof -
  let ?x = "ascii ''X'' @ mem_args a (length vs) @ ascii '':'' @ escape {0x23, 0x24, 0x7d} vs"
  let ?m = "mem (gdb_arm g)"
  let ?p = "(gdb_arm g)\<lparr>mem := ?m\<lparr>mem_bytes := splice (mem_bytes ?m) a vs\<rparr>\<rparr>"
  let ?g0 = "g\<lparr>sent := sent g @ ascii ''+''\<rparr>"
  have len: "length (mem_bytes ?m) = unat (mem_size ?m)" using assms(1) by (simp add: wf_memory_def)
  have a: "a < 2 ^ 32" "length vs < 2 ^ 32" "a < length (mem_bytes ?m)"
    using assms(3-5) len by (cases vs; simp)+
  have plain: "plain_text ?x"
    using plain_mem_args plain_escape by (simp add: plain_text_append) (simp add: plain_text_def ascii_def)
  have tab: "gdb_init ! unat (of_char CHR ''X'' :: u8) = Some Write_Memory_Binary" by code_simp
  have hd: "hd ?x = of_char CHR ''X''" "?x \<noteq> []" "tl ?x = mem_args a (length vs) @ 0x3a # escape {0x23, 0x24, 0x7d} vs"
    by (simp_all add: ascii_def)
  have "0 \<notin> set (ascii ''OK'')" by (simp add: ascii_def)
  then obtain g1 where g1: "gdb_send_data (?g0\<lparr>gdb_arm := ?p\<rparr>) ''OK'' = Inr g1" "gdb_arm g1 = ?p"
      "sent g1 = sent g @ ascii ''+'' @ frame (ascii ''OK'')" "length (packet g1) = MAX_PACKET_SIZE" "connected g1"
    using sends_connected[OF send_short[of "?g0\<lparr>gdb_arm := ?p\<rparr>" "''OK''"]] assms(2,8) by auto
  have x: "write_memory_binary j ?g0 (tl ?x @ z) = Inr g1" for j z
    using write_memory_binary_eq[of ?g0 "{0x23, 0x24, 0x7d}" a vs, OF _ _ _ a(1,2) refl] assms(1,3,5) a(3) len g1(1)
    by (simp add: hd(3))
  then show ?thesis
    using yylex_command[OF plain hd(2) assms(7) _ refl assms(6) connected_hangup[OF assms(8)], where f = Write_Memory_Binary and rest = rest and h = h and be = be and junk = junk and R = R and T = T] tab g1(2-5)
    by (intro exI[of _ g1]) (simp add: hd(1) call_handler_def)
qed

lemma yylex_read:
  assumes "wf_memory (mem (gdb_arm g))" "length (packet g) = MAX_PACKET_SIZE" "unat (mem_size (mem (gdb_arm g))) < 2 ^ 32"
    and "n \<le> 509" "a < 2 ^ 32" "parser_gdb d = Some g" "err_len d = 0" "connected g"
  shows "\<exists>g1. yylex (\<lambda>n. analysis_at (gdb_packet_analysis h be (junk n))) R T d (frame (ascii ''m'' @ mem_args a n) @ rest)
      = yylex (\<lambda>n. analysis_at (gdb_packet_analysis h be (junk n))) R T (d\<lparr>parser_gdb := Some g1\<rparr>) rest
    \<and> sent g1 = sent g @ ascii ''+'' @ frame (hex_text (take n (drop a (mem_bytes (mem (gdb_arm g)))))) \<and> gdb_arm g1 = gdb_arm g"
proof -
  let ?m = "ascii ''m'' @ mem_args a n"
  let ?g = "g\<lparr>sent := sent g @ ascii ''+''\<rparr>"
  have plain: "plain_text ?m" using plain_mem_args by (simp add: plain_text_append) (simp add: plain_text_def ascii_def)
  have tab: "gdb_init ! unat (of_char CHR ''m'' :: u8) = Some Read_Memory" by code_simp
  have hd: "hd ?m = of_char CHR ''m''" "?m \<noteq> []" "tl ?m = mem_args a n" by (simp_all add: ascii_def)
  define k where "k = length (frame ?m @ rest) - 1"
  have n: "n < 2 ^ 32" using assms(4) by simp
  obtain g1 where g1: "read_memory (junk k 0, junk k 1) ?g (tl ?m @ 0 # hex2 (sum_list ?m) @ [0]) = Inr g1"
      "gdb_arm g1 = gdb_arm g" "sent g1 = sent ?g @ frame (hex_text (take n (drop a (mem_bytes (mem (gdb_arm g))))))"
    using sends_connected[of ?g] read_memory_eq[of ?g a n, OF _ _ _ assms(5) n refl, of "(junk k 0, junk k 1)" "hex2 (sum_list ?m) @ [0]"]
      assms(1-3,8) min.coboundedI2[OF assms(4)] unfolding hd(3) by fastforce
  then show ?thesis
    using yylex_command[OF plain hd(2) assms(7) _ k_def assms(6) connected_hangup[OF assms(8)], where f = Read_Memory and h = h and be = be and junk = junk and R = R and T = T] tab
    by (intro exI[of _ g1]) (simp add: hd(1) call_handler_def)
qed

lemmas scanner_computes = gdb_scanner_def gdb_init_data_def ascii_def next_token_def packet_rest_def token_action_def handle_error_def
  add_character_to_error_def store_bytes_def splice_def at_session_def gdb_require_retransmission_def fd_writen_def hangup_def

section \<open>Properties\<close>



text \<open>C9: a whole session, from the bytes the client sends to the bytes it gets.  The client writes \<open>vs\<close> to memory
  with an \<open>X\<close> packet, acknowledges the answer, and reads the same range with an \<open>m\<close> packet: it gets an
  acknowledgement and \<open>OK\<close>, an acknowledgement and \<open>vs\<close> in hexadecimal, each answer with its checksum,
  whatever bytes \<open>vs\<close> holds, as long as it keeps the connection.\<close>

theorem memory_session:
  assumes "sys_core arm" and "length raw = MAX_PACKET_SIZE" and "unat (mem_size (mem arm)) < 2 ^ 32"
    and "vs \<noteq> []" and "length vs \<le> 509" and "a + length vs \<le> unat (mem_size (mem arm))" and "\<forall>n. out n = Link_Up"
  shows "\<exists>d g. gdb_scanner h be junk arm out (Some raw) err
      (Some (frame (ascii ''X'' @ mem_args a (length vs) @ ascii '':'' @ escape {0x23, 0x24, 0x7d} vs)
        @ ascii ''+'' @ frame (ascii ''m'' @ mem_args a (length vs)))) = Some (Inr d) \<and> parser_gdb d = Some g
    \<and> sent g = ascii ''+'' @ frame (ascii ''OK'') @ ascii ''+'' @ frame (hex_text vs)
    \<and> mem_bytes (mem (gdb_arm g)) = splice (mem_bytes (mem arm)) a vs"
proof -
  let ?x = "ascii ''X'' @ mem_args a (length vs) @ ascii '':'' @ escape {0x23, 0x24, 0x7d} vs"
  let ?m = "ascii ''m'' @ mem_args a (length vs)"
  let ?Y = "yylex (\<lambda>n. analysis_at (gdb_packet_analysis h be (junk n))) (at_session gdb_require_retransmission) (at_session gdb_transmit_packet)"
  let ?bs = "splice (mem_bytes (mem arm)) a vs"
  have wf: "wf_memory (mem arm)" using assms(1) by (simp add: sys_core_def wf_core_def)
  then have len: "length (mem_bytes (mem arm)) = unat (mem_size (mem arm))" by (simp add: wf_memory_def)
  obtain g0 where init: "gdb_init_data arm out (Some raw) = Some g0" "gdb_arm g0 = arm" "sent g0 = []" "packet g0 = raw" "connected g0"
    using assms(7) by (simp add: gdb_init_data_def connected_def)
  let ?d = "\<lparr>parser_gdb = Some g0, err_buffer = err, err_len = 0\<rparr>"
  obtain g1 where g1: "?Y ?d (frame ?x @ ascii ''+'' @ frame ?m) = ?Y (?d\<lparr>parser_gdb := Some g1\<rparr>) (ascii ''+'' @ frame ?m)"
      "sent g1 = ascii ''+'' @ frame (ascii ''OK'')" "length (packet g1) = MAX_PACKET_SIZE"
      "gdb_arm g1 = arm\<lparr>mem := (mem arm)\<lparr>mem_bytes := ?bs\<rparr>\<rparr>" "connected g1"
    using yylex_write[of g0 vs a ?d h be junk _ _ "ascii ''+'' @ frame ?m"] wf assms(2-4,6) init by fastforce
  have "length ?bs = length (mem_bytes (mem arm))" "take (length vs) (drop a ?bs) = vs"
    using assms(6) len slice_splice_same[of a vs "mem_bytes (mem arm)"] by simp_all
  moreover from this have "wf_memory (mem (gdb_arm g1))" using wf by (simp add: g1(4) wf_memory_def)
  moreover have "a < 2 ^ 32" using assms(3,6) by simp
  ultimately obtain g2 where "?Y (?d\<lparr>parser_gdb := Some g1\<rparr>) (frame ?m @ []) = ?Y (?d\<lparr>parser_gdb := Some g2\<rparr>) []"
      "sent g2 = sent g1 @ ascii ''+'' @ frame (hex_text vs)" "gdb_arm g2 = gdb_arm g1"
    using yylex_read[of g1 "length vs" a "?d\<lparr>parser_gdb := Some g1\<rparr>" h be junk _ _ "[]"] assms(3,5) g1(3-5) by fastforce
  then show ?thesis
    using g1 init yylex_ack[of "?d\<lparr>parser_gdb := Some g1\<rparr>"] yylex_end[of "?d\<lparr>parser_gdb := Some g2\<rparr>"] by (simp add: gdb_scanner_def)
qed

theorem memory_session_witness:
  "\<exists>d g. gdb_scanner x86_host False (\<lambda>n i. 0) (cpu_machine [0, 0, 0, 0]) (\<lambda>n. Link_Up) (Some (replicate 1024 0)) []
      (Some (ascii ''$X1,1:}'' @ 4 # ascii ''#a1+$m1,1#fb'')) = Some (Inr d)
    \<and> parser_gdb d = Some g \<and> sent g = ascii ''+$OK#9a+$24#66''"
proof -
  have "frame (ascii ''X'' @ mem_args 1 (length [0x24]) @ ascii '':'' @ escape {0x23, 0x24, 0x7d} [0x24])
      @ ascii ''+'' @ frame (ascii ''m'' @ mem_args 1 (length [0x24])) = ascii ''$X1,1:}'' @ 4 # ascii ''#a1+$m1,1#fb''"
    "ascii ''+'' @ frame (ascii ''OK'') @ ascii ''+'' @ frame (hex_text [0x24]) = ascii ''+$OK#9a+$24#66''" by code_simp+
  moreover have "sys_core (cpu_machine [0, 0, 0, 0])" "unat (mem_size (mem (cpu_machine [0, 0, 0, 0]))) = 4"
    by (simp add: sys_core_cpu_machine) code_simp
  ultimately show ?thesis
    using memory_session[of "cpu_machine [0, 0, 0, 0]" "replicate 1024 0" "[0x24]" 1 "\<lambda>n. Link_Up" x86_host False "\<lambda>n i. 0" "[]"]
    by (simp only: length_replicate) auto
qed

end
