(* ===== verification/Debug.thy ===== *)
theory Debug
  imports C_Strings "HOL-Library.List_Lexorder"
begin

text \<open>
  \<^verbatim>\<open>debug.c\<close>: the sorted array of at most 64 source file names for which debug messages are printed,
  with insertion and binary search.  Names are C strings without their final zero byte; an entry
  that was never set is a null pointer.  The locale \<open>name_set\<close> states what the users of the module
  rely on, a set of names with an insertion that can fail.
\<close>

section \<open>State and operations\<close>

abbreviation (input) MAX_FILES_NUMBER :: nat where "MAX_FILES_NUMBER \<equiv> 64"

type_synonym name = "u8 list"

record debug_data =
  debugged_files :: "name option list"
  nb_debugged_files :: nat

definition debug_start :: debug_data where
  "debug_start = \<lparr>debugged_files = replicate MAX_FILES_NUMBER None, nb_debugged_files = 0\<rparr>"

text \<open>The sign of \<^verbatim>\<open>strcmp\<close>; bytes are compared as unsigned characters.\<close>

fun strcmp :: "name \<Rightarrow> name \<Rightarrow> int" where
  "strcmp [] [] = 0"
| "strcmp [] (b # t) = - 1"
| "strcmp (a # s) [] = 1"
| "strcmp (a # s) (b # t) = (if a = b then strcmp s t else if a < b then - 1 else 1)"

text \<open>An entry of the array as an argument of \<^verbatim>\<open>strcmp\<close>, and an assignment to it.\<close>

definition file_at :: "name option list \<Rightarrow> nat \<Rightarrow> name outcome" where
  "file_at fs i = (if i < length fs then case fs ! i of None \<Rightarrow> Inl Null_Deref | Some s \<Rightarrow> Inr s
     else Inl Out_Of_Bounds)"

definition set_file :: "name option list \<Rightarrow> nat \<Rightarrow> name option \<Rightarrow> name option list outcome" where
  "set_file fs i v = (if i < length fs then Inr (fs[i := v]) else Inl Out_Of_Bounds)"

function find_place :: "debug_data \<Rightarrow> name \<Rightarrow> nat \<Rightarrow> nat outcome" where
  "find_place d name i =
     (if i < nb_debugged_files d \<and> i < MAX_FILES_NUMBER then
        bnd (file_at (debugged_files d) i) (\<lambda>s.
          if strcmp s name < 0 then find_place d name (i + 1) else Inr i)
      else Inr i)"
  by pat_completeness auto
termination
  by (relation "measure (\<lambda>(d, name, i). MAX_FILES_NUMBER - i)") auto

declare find_place.simps [simp del]

text \<open>The loop \<^verbatim>\<open>for (j=nb_debugged_files; j>i; j--)\<close>.\<close>

definition shift_files :: "name option list \<Rightarrow> nat \<Rightarrow> nat \<Rightarrow> name option list outcome" where
  "shift_files fs i nb = for_out (rev [Suc i..<Suc nb]) (\<lambda>j fs. set_file fs j (fs ! (j - 1))) fs"

definition add_debug_to :: "debug_data \<Rightarrow> name \<Rightarrow> debug_data outcome" where
  "add_debug_to d name =
     bnd (find_place d name 0) (\<lambda>i.
       if i \<ge> MAX_FILES_NUMBER then Inr d
       else bnd (shift_files (debugged_files d) i (nb_debugged_files d)) (\<lambda>fs.
            bnd (set_file fs i (Some name)) (\<lambda>fs.
            Inr (d\<lparr>debugged_files := fs, nb_debugged_files := nb_debugged_files d + 1\<rparr>))))"

text \<open>The binary search; \<open>from\<close> and \<open>to\<close> are \<^verbatim>\<open>int\<close>, and \<open>to\<close> starts at \<open>-1\<close> for an empty array.\<close>

function search_files :: "debug_data \<Rightarrow> name \<Rightarrow> int \<Rightarrow> int \<Rightarrow> bool outcome" where
  "search_files d name from to =
     (if from < to then
        let middle = (from + to) div 2
        in bnd (file_at (debugged_files d) (nat middle)) (\<lambda>s.
             if strcmp s name < 0 then search_files d name (middle + 1) to
             else if strcmp s name > 0 then search_files d name from (middle - 1)
             else Inr True)
      else if from = to then
        bnd (file_at (debugged_files d) (nat from)) (\<lambda>s. Inr (strcmp s name = 0))
      else Inr False)"
  by pat_completeness auto
termination
  by (relation "measure (\<lambda>(d, name, from, to). nat (to - from))") auto

declare search_files.simps [simp del]

definition is_debugged :: "debug_data \<Rightarrow> name \<Rightarrow> bool outcome" where
  "is_debugged d name = search_files d name 0 (int (nb_debugged_files d) - 1)"

text \<open>The text that \<^verbatim>\<open>__debug_raw_binary\<close> prints.\<close>

definition isprint :: "u8 \<Rightarrow> bool" where
  "isprint c \<longleftrightarrow> 32 \<le> c \<and> c \<le> 126"

fun debug_raw_binary :: "u8 list \<Rightarrow> nat \<Rightarrow> u8 list outcome" where
  "debug_raw_binary data 0 = Inr []"
| "debug_raw_binary data (Suc len) =
     (case data of [] \<Rightarrow> Inl Out_Of_Bounds
      | c # cs \<Rightarrow> bnd (debug_raw_binary cs len) (\<lambda>out. Inr ((if isprint c then c else of_char CHR ''.'') # out)))"

text \<open>The macros of \<^verbatim>\<open>debug.h\<close>.  With \<^verbatim>\<open>CACHE_DEBUG_FLAG\<close> each source file keeps the answer for its own name; \<open>msg\<close> is
  the text that \<^verbatim>\<open>fprintf\<close> makes of the format.\<close>

record debug_cache =
  is_debugged_first :: bool
  is_debugged_result :: bool

definition cache_start :: debug_cache where
  "cache_start = \<lparr>is_debugged_first = True, is_debugged_result = False\<rparr>"

definition is_debugged_cached :: "debug_data \<Rightarrow> debug_cache \<Rightarrow> name \<Rightarrow> (bool \<times> debug_cache) outcome" where
  "is_debugged_cached d c x =
     bnd (if is_debugged_first c
          then bnd (is_debugged d x) (\<lambda>r. Inr (r, \<lparr>is_debugged_first = False, is_debugged_result = r\<rparr>))
          else Inr (False, c)) (\<lambda>(r, c).
     Inr (r \<or> is_debugged_result c, c))"

definition debug_raw :: "debug_data \<Rightarrow> name \<Rightarrow> u8 list \<Rightarrow> u8 list outcome" where
  "debug_raw d file msg = bnd (is_debugged d file) (\<lambda>b. Inr (if b then msg else []))"

definition debug_raw_binary_in :: "debug_data \<Rightarrow> name \<Rightarrow> u8 list \<Rightarrow> nat \<Rightarrow> u8 list outcome" where
  "debug_raw_binary_in d file data len = bnd (is_debugged d file) (\<lambda>b. if b then debug_raw_binary data len else Inr [])"

section \<open>The order of names\<close>

lemma strcmp_order: "strcmp s t = (if s < t then - 1 else if s = t then 0 else 1)"
  by (induction s t rule: strcmp.induct) auto

section \<open>The array as a sorted list\<close>

definition names :: "debug_data \<Rightarrow> name list" where
  "names d = map the (take (nb_debugged_files d) (debugged_files d))"

definition wf_debug :: "debug_data \<Rightarrow> bool" where
  "wf_debug d \<longleftrightarrow> length (debugged_files d) = MAX_FILES_NUMBER \<and> nb_debugged_files d \<le> MAX_FILES_NUMBER
     \<and> (\<forall>i < nb_debugged_files d. debugged_files d ! i \<noteq> None) \<and> sorted (names d)"

lemma wf_debug_start: "wf_debug debug_start"
  by (simp add: wf_debug_def debug_start_def names_def)

lemma length_names: "wf_debug d \<Longrightarrow> length (names d) = nb_debugged_files d"
  by (simp add: wf_debug_def names_def)

lemma file_at_names: "wf_debug d \<Longrightarrow> i < nb_debugged_files d \<Longrightarrow> file_at (debugged_files d) i = Inr (names d ! i)"
  by (auto simp: wf_debug_def names_def file_at_def split: option.splits)

text \<open>The place found is the number of smaller names.\<close>

lemma find_place_eq:
  assumes "wf_debug d" "i \<le> nb_debugged_files d" "\<forall>j < i. names d ! j < name"
  shows "\<exists>k. find_place d name i = Inr k \<and> k \<le> nb_debugged_files d
    \<and> (\<forall>j < k. names d ! j < name) \<and> (k < nb_debugged_files d \<longrightarrow> name \<le> names d ! k)"
  using assms
proof (induction "nb_debugged_files d - i" arbitrary: i)
  case 0
  then show ?case by (subst find_place.simps) auto
next
  case (Suc n)
  then have i: "i < nb_debugged_files d" "i < MAX_FILES_NUMBER" by (auto simp: wf_debug_def)
  show ?case
  proof (cases "names d ! i < name")
    case True
    have "n = nb_debugged_files d - Suc i" "Suc i \<le> nb_debugged_files d" "\<forall>j < Suc i. names d ! j < name"
      using Suc True i by (auto simp: less_Suc_eq)
    then show ?thesis
      using Suc.hyps(1)[of "Suc i"] Suc.prems(1) i True
      by (subst find_place.simps) (simp add: file_at_names strcmp_order)
  next
    case False
    then show ?thesis
      using Suc.prems i by (subst find_place.simps) (auto simp: file_at_names strcmp_order)
  qed
qed

lemma shift_files_eq:
  assumes "nb < length fs" "i \<le> nb"
  shows "\<exists>fs'. shift_files fs i nb = Inr fs' \<and> length fs' = length fs
    \<and> (\<forall>k < length fs. fs' ! k = (if i < k \<and> k \<le> nb then fs ! (k - 1) else fs ! k))"
  using assms
proof (induction nb arbitrary: fs)
  case 0
  then show ?case by (simp add: shift_files_def)
next
  case (Suc nb)
  show ?case
  proof (cases "i \<le> nb")
    case True
    then have "shift_files fs i (Suc nb) = shift_files (fs[Suc nb := fs ! nb]) i nb"
      using Suc.prems(1) by (simp add: shift_files_def set_file_def)
    moreover obtain fs' where "shift_files (fs[Suc nb := fs ! nb]) i nb = Inr fs'" "length fs' = length fs"
        "\<forall>k < length fs. fs' ! k = (if i < k \<and> k \<le> nb then fs[Suc nb := fs ! nb] ! (k - 1) else fs[Suc nb := fs ! nb] ! k)"
      using Suc.IH[of "fs[Suc nb := fs ! nb]"] Suc.prems(1) True by auto
    ultimately show ?thesis using Suc.prems True by (auto simp: nth_list_update le_Suc_eq)
  next
    case False
    then show ?thesis using Suc.prems by (auto simp: shift_files_def)
  qed
qed

lemma shift_files_overflow: "i < length fs \<Longrightarrow> shift_files fs i (length fs) = Inl Out_Of_Bounds"
  by (simp add: shift_files_def set_file_def)

lemma sorted_insert_at:
  fixes xs :: "'a :: linorder list"
  assumes "sorted xs" "k \<le> length xs" "\<forall>j < k. xs ! j < x" "k < length xs \<longrightarrow> x \<le> xs ! k"
  shows "sorted (take k xs @ x # drop k xs)"
proof -
  have low: "a < x" if "a \<in> set (take k xs)" for a
    using that assms(2,3) by (auto simp: set_conv_nth)
  have high: "x \<le> b" if b: "b \<in> set (drop k xs)" for b
  proof -
    obtain j where j: "j < length xs - k" "b = xs ! (k + j)" using b assms(2) by (auto simp: set_conv_nth)
    then have "xs ! k \<le> b" using assms(1) by (simp add: sorted_nth_mono)
    moreover have "x \<le> xs ! k" using j(1) assms(4) by simp
    ultimately show ?thesis by (rule order_trans[rotated])
  qed
  show ?thesis
    using assms(1) low high by (auto simp: sorted_append sorted_wrt_take sorted_wrt_drop intro: less_imp_le less_le_trans)
qed

text \<open>Insertion into the array is insertion into the sorted list.\<close>

lemma add_debug_eq:
  assumes "wf_debug d"
  shows "if nb_debugged_files d < MAX_FILES_NUMBER
    then \<exists>d' k. add_debug_to d name = Inr d' \<and> wf_debug d' \<and> k \<le> length (names d)
      \<and> names d' = take k (names d) @ name # drop k (names d)
    else add_debug_to d name = (if \<forall>s \<in> set (names d). s < name then Inr d else Inl Out_Of_Bounds)"
proof -
  let ?fs = "debugged_files d" and ?nb = "nb_debugged_files d"
  have len: "length ?fs = MAX_FILES_NUMBER" "?nb \<le> MAX_FILES_NUMBER" "length (names d) = ?nb"
    using assms by (simp_all add: wf_debug_def names_def)
  obtain k where k: "find_place d name 0 = Inr k" "k \<le> ?nb" "\<forall>j < k. names d ! j < name"
      "k < ?nb \<longrightarrow> name \<le> names d ! k"
    using find_place_eq[OF assms, of 0 name] by auto
  show ?thesis
  proof (cases "?nb < MAX_FILES_NUMBER")
    case True
    obtain fs where fs: "shift_files ?fs k ?nb = Inr fs" "length fs = MAX_FILES_NUMBER"
        "\<forall>i < MAX_FILES_NUMBER. fs ! i = (if k < i \<and> i \<le> ?nb then ?fs ! (i - 1) else ?fs ! i)"
      using shift_files_eq[of ?nb ?fs k] k(2) len True by auto
    let ?d = "d\<lparr>debugged_files := fs[k := Some name], nb_debugged_files := ?nb + 1\<rparr>"
    have add: "add_debug_to d name = Inr ?d"
      using k(1,2) True fs by (simp add: add_debug_to_def set_file_def)
    have names: "names ?d = take k (names d) @ name # drop k (names d)"
    proof (rule nth_equalityI)
      show "length (names ?d) = length (take k (names d) @ name # drop k (names d))"
        using fs(2) True k(2) len(3) by (simp add: names_def)
      fix i assume "i < length (names ?d)"
      then have "i \<le> ?nb" using fs(2) by (simp add: names_def)
      then show "names ?d ! i = (take k (names d) @ name # drop k (names d)) ! i"
        using fs(2,3) True k(2) len by (auto simp: names_def nth_append nth_Cons' nth_list_update min_def)
    qed
    have "sorted (names d)" using assms by (simp add: wf_debug_def)
    then have "sorted (names ?d)"
      using k(2-4) len(3) unfolding names by (intro sorted_insert_at) auto
    moreover have "fs[k := Some name] ! i \<noteq> None" if "i \<le> ?nb" for i
      using assms fs(2,3) True that k(2) by (cases "i = k"; cases "k < i") (auto simp: wf_debug_def)
    ultimately have "wf_debug ?d" using fs(2) True by (simp add: wf_debug_def less_Suc_eq_le)
    then show ?thesis using add names k(2) len(3) True by auto
  next
    case False
    then have nb: "?nb = MAX_FILES_NUMBER" using len(2) by simp
    show ?thesis
    proof (cases "k < MAX_FILES_NUMBER")
      case True
      then have "\<not> (\<forall>s \<in> set (names d). s < name)" using k(4) nb len(3) by (metis nth_mem not_less)
      then show ?thesis using k(1) nb shift_files_overflow[of k ?fs] True len(1) by (simp add: add_debug_to_def)
    next
      case False
      then have "\<forall>s \<in> set (names d). s < name" using k(2,3) nb len(3) by (auto simp: set_conv_nth)
      then show ?thesis using k(1) nb False by (simp add: add_debug_to_def)
    qed
  qed
qed

text \<open>The binary search decides membership.\<close>

lemma search_files_eq:
  assumes "wf_debug d" "0 \<le> from" "to < int (nb_debugged_files d)"
    and "\<forall>i < nat from. i < nb_debugged_files d \<longrightarrow> names d ! i < name"
    and "\<forall>i < nb_debugged_files d. to < int i \<longrightarrow> name < names d ! i"
  shows "search_files d name from to = Inr (name \<in> set (names d))"
  using assms
proof (induction d name "from" "to" rule: search_files.induct)
  case (1 d name "from" "to")
  let ?nb = "nb_debugged_files d"
  have mem: "name \<in> set (names d) \<longleftrightarrow> (\<exists>i < ?nb. names d ! i = name)"
    using length_names[OF "1.prems"(1)] by (metis in_set_conv_nth)
  have mono: "names d ! i \<le> names d ! j" if "i \<le> j" "j < ?nb" for i j
    using "1.prems"(1) that length_names[OF "1.prems"(1)] by (simp add: wf_debug_def sorted_nth_mono)
  consider "from < to" | "from = to" | "to < from" by linarith
  then show ?case
  proof cases
    case lt: 1
    define m where "m = ((from :: int) + to) div 2"
    have m: "from \<le> m" "m < to" "0 \<le> m" "nat m < ?nb" using lt "1.prems"(2,3) by (auto simp: m_def)
    have at: "file_at (debugged_files d) (nat m) = Inr (names d ! nat m)" by (rule file_at_names[OF "1.prems"(1) m(4)])
    have low: "search_files d name (m + 1) to = Inr (name \<in> set (names d))" if s: "names d ! nat m < name"
    proof (rule "1.IH"(1)[OF lt m_def, of "names d ! nat m"])
      show "\<forall>i < nat (m + 1). i < ?nb \<longrightarrow> names d ! i < name"
        using mono[of _ "nat m"] m s by (metis int_eq_iff le_less_trans less_Suc_eq_le nat_add_distrib nat_one_as_int Suc_eq_plus1 zero_le_one)
    qed (use s m at "1.prems" in \<open>simp_all add: strcmp_order\<close>)
    have high: "search_files d name from (m - 1) = Inr (name \<in> set (names d))" if s: "name < names d ! nat m"
    proof (rule "1.IH"(2)[OF lt m_def, of "names d ! nat m"])
      show "\<forall>i < ?nb. m - 1 < int i \<longrightarrow> name < names d ! i"
        using mono[of "nat m"] m s by (meson less_le_trans nat_le_iff zle_diff1_eq not_le linorder_not_less)
    qed (use s m at "1.prems" in \<open>auto simp: strcmp_order\<close>)
    have "search_files d name from to = (if names d ! nat m < name then search_files d name (m + 1) to
        else if name < names d ! nat m then search_files d name from (m - 1) else Inr True)"
      using lt at by (subst search_files.simps) (auto simp: m_def Let_def strcmp_order not_less)
    then show ?thesis using low high mem m(4) by (auto simp: not_less)
  next
    case eq: 2
    then have "search_files d name from to = Inr (names d ! nat from = name)"
      using file_at_names[OF "1.prems"(1), of "nat from"] "1.prems"(2,3)
      by (subst search_files.simps) (simp add: strcmp_order)
    moreover have "(\<exists>i < ?nb. names d ! i = name) \<longleftrightarrow> names d ! nat from = name"
    proof -
      have "i = nat from" if "i < ?nb" "names d ! i = name" for i
        using "1.prems"(4,5)[rule_format, of i] "1.prems"(2) eq that
        by (cases i "nat from" rule: linorder_cases) (auto simp: nat_less_iff)
      moreover have "nat from < ?nb" using "1.prems"(2,3) eq by (simp add: nat_less_iff)
      ultimately show ?thesis by blast
    qed
    ultimately show ?thesis using mem by simp
  next
    case 3
    then have "search_files d name from to = Inr False" by (subst search_files.simps) simp
    moreover have "names d ! i \<noteq> name" if "i < ?nb" for i
    proof -
      have "i < nat from \<or> to < int i" using 3 "1.prems"(2) by linarith
      then show ?thesis using "1.prems"(4,5) that by auto
    qed
    ultimately show ?thesis using mem by auto
  qed
qed

section \<open>The contract: a set of names\<close>

text \<open>Adding a list of names one by one, as the option loop of \<^verbatim>\<open>main\<close> does.\<close>

fun add_all :: "('d \<Rightarrow> 'n \<Rightarrow> 'd outcome) \<Rightarrow> 'd \<Rightarrow> 'n list \<Rightarrow> 'd outcome" where
  "add_all add d [] = Inr d"
| "add_all add d (n # ns) = bnd (add d n) (\<lambda>d. add_all add d ns)"

locale name_set =
  fixes add :: "'d \<Rightarrow> 'n \<Rightarrow> 'd outcome"
    and member :: "'d \<Rightarrow> 'n \<Rightarrow> bool outcome"
    and ok :: "'d \<Rightarrow> bool"
    and elems :: "'d \<Rightarrow> 'n set"
    and used :: "'d \<Rightarrow> nat"
    and limit :: nat
  assumes add_elem: "ok d \<Longrightarrow> used d < limit \<Longrightarrow>
      returns (add d n) (\<lambda>d'. ok d' \<and> elems d' = insert n (elems d) \<and> used d' = used d + 1)"
    and member_elem: "ok d \<Longrightarrow> member d n = Inr (n \<in> elems d)"
begin

lemma add_all_elems:
  "ok d \<Longrightarrow> used d + length ns \<le> limit \<Longrightarrow>
     returns (add_all add d ns) (\<lambda>d'. ok d' \<and> elems d' = set ns \<union> elems d \<and> used d' = used d + length ns)"
proof (induction ns arbitrary: d)
  case (Cons n ns)
  then obtain d1 where d1: "add d n = Inr d1" "ok d1" "elems d1 = insert n (elems d)" "used d1 = used d + 1"
    using add_elem[of d n] by (auto simp: returns_def)
  show ?case using Cons.IH[of d1] Cons.prems(2) d1 by simp
qed simp

end

interpretation debug_set: name_set add_debug_to is_debugged wf_debug "\<lambda>d. set (names d)" nb_debugged_files MAX_FILES_NUMBER
proof unfold_locales
  fix d name
  assume wf: "wf_debug d"
  show "is_debugged d name = Inr (name \<in> set (names d))"
    unfolding is_debugged_def by (rule search_files_eq[OF wf]) auto
  assume "nb_debugged_files d < MAX_FILES_NUMBER"
  then obtain d' k where d': "add_debug_to d name = Inr d'" "wf_debug d'" "k \<le> length (names d)"
      "names d' = take k (names d) @ name # drop k (names d)"
    using add_debug_eq[OF wf, of name] by auto
  have "set (take k (names d)) \<union> set (drop k (names d)) = set (names d)"
    by (metis append_take_drop_id set_append)
  moreover have "nb_debugged_files d' = nb_debugged_files d + 1"
    using length_names[OF wf] length_names[OF d'(2)] d'(3,4) by simp
  ultimately show "returns (add_debug_to d name)
      (\<lambda>d'. wf_debug d' \<and> set (names d') = insert name (set (names d)) \<and> nb_debugged_files d' = nb_debugged_files d + 1)"
    using d' by auto
qed

lemma cached_answer:
  assumes "is_debugged d x = Inr r"
  shows "\<exists>c. is_debugged_cached d cache_start x = Inr (r, c) \<and> (\<forall>d' x'. is_debugged_cached d' c x' = Inr (r, c))"
  using assms by (simp add: is_debugged_cached_def cache_start_def)

section \<open>Properties\<close>

text \<open>C27: the module of debug messages implements a set of names: after any sequence of at most 64 insertions,
  in any order and with repetitions, the binary search finds a name exactly if it was inserted, and
  the messages of a file are printed exactly then; the cached flag of a file gives the answer of
  its first use, also when names are added later.\<close>

theorem debug_refines_set:
  assumes "length ns \<le> MAX_FILES_NUMBER"
  shows "\<exists>d. add_all add_debug_to debug_start ns = Inr d \<and> sorted (names d) \<and> nb_debugged_files d = length ns
    \<and> (\<forall>name. is_debugged d name = Inr (name \<in> set ns))
    \<and> (\<forall>file msg. debug_raw d file msg = Inr (if file \<in> set ns then msg else []))
    \<and> (\<forall>file. \<exists>c. is_debugged_cached d cache_start file = Inr (file \<in> set ns, c)
        \<and> (\<forall>d' file'. is_debugged_cached d' c file' = Inr (file \<in> set ns, c)))"
proof -
  have start: "nb_debugged_files debug_start = 0" "names debug_start = []" by (simp_all add: debug_start_def names_def)
  then obtain d where d: "add_all add_debug_to debug_start ns = Inr d" "wf_debug d" "set (names d) = set ns" "nb_debugged_files d = length ns"
    using debug_set.add_all_elems[OF wf_debug_start, of ns] assms by (auto simp: returns_def)
  then have "is_debugged d name = Inr (name \<in> set ns)" for name using debug_set.member_elem[of d] by simp
  then show ?thesis using d cached_answer[of d] by (auto simp: wf_debug_def debug_raw_def)
qed

theorem debug_refines_set_witness:
  "\<exists>d. add_all add_debug_to debug_start [ascii ''trace.c'', ascii ''memory.c''] = Inr d
     \<and> is_debugged d (ascii ''memory.c'') = Inr True \<and> is_debugged d (ascii ''util.c'') = Inr False"
proof -
  have "ascii ''util.c'' \<notin> set [ascii ''trace.c'', ascii ''memory.c'']" by (simp add: ascii_def)
  then show ?thesis using debug_refines_set[of "[ascii ''trace.c'', ascii ''memory.c'']"] by auto
qed

text \<open>A full array.  With 64 names, a further name that is greater than all of them is ignored, and any other
  one makes the insertion write behind the array: the guard tests the place of the name and not
  the number of names.\<close>

theorem debug_overflow:
  assumes "length ns = MAX_FILES_NUMBER" and "add_all add_debug_to debug_start ns = Inr d"
  shows "add_debug_to d name = (if \<forall>s \<in> set ns. s < name then Inr d else Inl Out_Of_Bounds)"
proof -
  have start: "nb_debugged_files debug_start = 0" "names debug_start = []" by (simp_all add: debug_start_def names_def)
  then have "wf_debug d" "set (names d) = set ns" "nb_debugged_files d = MAX_FILES_NUMBER"
    using debug_set.add_all_elems[OF wf_debug_start, of ns] assms by (auto simp: returns_def)
  then show ?thesis using add_debug_eq[of d name] by simp
qed

theorem debug_overflow_witness:
  "\<exists>d. add_all add_debug_to debug_start (replicate 64 (ascii ''b.c'')) = Inr d
     \<and> add_debug_to d (ascii ''a.c'') = Inl Out_Of_Bounds \<and> add_debug_to d (ascii ''c.c'') = Inr d"
proof -
  obtain d where d: "add_all add_debug_to debug_start (replicate 64 (ascii ''b.c'')) = Inr d"
    using debug_set.add_all_elems[OF wf_debug_start, of "replicate 64 (ascii ''b.c'')"]
    by (auto simp: returns_def debug_start_def)
  have "\<not> ascii ''b.c'' < ascii ''a.c''" "ascii ''b.c'' < ascii ''c.c''" by (simp_all add: ascii_def)
  then show ?thesis
    using d debug_overflow[OF _ d, of "ascii ''a.c''"] debug_overflow[OF _ d, of "ascii ''c.c''"] by simp
qed

end
