(* ===== verification/Trace.thy ===== *)
theory Trace
  imports Arm_Core Arm_Constants
begin

text \<open>
  \<^verbatim>\<open>trace.c\<close>, the macros of \<^verbatim>\<open>trace_location.h\<close>, and the accesses of \<^verbatim>\<open>arm_core.c\<close> with their trace calls, which
  \<open>Arm_Core\<close> leaves out.  \<open>out\<close> is the text written so far to the trace file; \<open>fmt\<close> says whether
  \<^verbatim>\<open>ARM_TRACE_FORMAT\<close> is defined.
\<close>

section \<open>Formatted output\<close>

text \<open>\<^verbatim>\<open>%08X\<close>, \<^verbatim>\<open>%d\<close> and \<^verbatim>\<open>%3s\<close>.\<close>

definition upper_digit :: "nat \<Rightarrow> char" where
  "upper_digit n = (if n < 10 then char_of (48 + n) else char_of (55 + n))"

definition fmt_08X :: "u32 \<Rightarrow> string" where
  "fmt_08X v = map (\<lambda>i. upper_digit (unat (take_bit 4 (drop_bit (4 * i) v)))) [7, 6, 5, 4, 3, 2, 1, 0]"

fun dec_digits :: "nat \<Rightarrow> string" where
  "dec_digits n = (if n < 10 then [upper_digit n] else dec_digits (n div 10) @ [upper_digit (n mod 10)])"

declare dec_digits.simps [simp del]

definition fmt_d :: "int \<Rightarrow> string" where
  "fmt_d i = (if i < 0 then ''-'' @ dec_digits (nat (- i)) else dec_digits (nat i))"

definition fmt_3s :: "string \<Rightarrow> string" where
  "fmt_3s s = replicate (3 - length s) CHR '' '' @ s"

section \<open>State and operations\<close>

abbreviation (input) CPSR :: u8 where "CPSR \<equiv> 16"
abbreviation (input) SPSR :: u8 where "SPSR \<equiv> 17"
abbreviation (input) OTHER_ACCESS :: u8 where "OTHER_ACCESS \<equiv> 0"
abbreviation (input) OPCODE_FETCH :: u8 where "OPCODE_FETCH \<equiv> 1"
abbreviation (input) TWRITE :: u8 where "TWRITE \<equiv> 0"
abbreviation (input) TREAD :: u8 where "TREAD \<equiv> 1"
abbreviation (input) MEMORY :: u32 where "MEMORY \<equiv> 1"
abbreviation (input) REGISTERS :: u32 where "REGISTERS \<equiv> 2"
abbreviation (input) STATE :: u32 where "STATE \<equiv> 4"
abbreviation (input) POSITION :: u32 where "POSITION \<equiv> 8"

record trace_data =
  out :: string
  last_address :: u32
  trace_on :: bool
  location_file_stack :: "string option list"
  location_line_stack :: "int list"
  location_stack_top :: int
  trace_flags :: u32

definition trace_start :: trace_data where
  "trace_start = \<lparr>out = '''', last_address = 0x12345678, trace_on = True,
     location_file_stack = replicate 128 None, location_line_stack = replicate 128 0,
     location_stack_top = - 1, trace_flags = 0\<rparr>"

text \<open>The argument of \<^verbatim>\<open>set_trace_file\<close> is the text that the stream already holds.\<close>

definition set_trace_file :: "trace_data \<Rightarrow> string \<Rightarrow> trace_data" where
  "set_trace_file t f = t\<lparr>out := f\<rparr>"

definition put_text :: "trace_data \<Rightarrow> string \<Rightarrow> trace_data" where
  "put_text t s = t\<lparr>out := out t @ s\<rparr>"

definition trace_memory_seq :: "bool \<Rightarrow> string list" where
  "trace_memory_seq fmt = (if fmt then [''N'', ''S''] else ['''', ''''])"

definition trace_memory_cause :: "bool \<Rightarrow> string list" where
  "trace_memory_cause fmt = (if fmt then [''_'', ''O''] else ['''', '', fetch''])"

definition trace_memory_type :: "bool \<Rightarrow> string list" where
  "trace_memory_type fmt = (if fmt then [''W'', ''R''] else [''write'', ''read''])"

definition trace_register_type :: "bool \<Rightarrow> string list" where
  "trace_register_type fmt = (if fmt then [''W'', ''R''] else [''write'', ''read''])"

text \<open>An index of a C array of 128 entries.\<close>

definition stack_index :: "int \<Rightarrow> nat outcome" where
  "stack_index i = (if 0 \<le> i \<and> i < 128 then Inr (nat i) else Inl Out_Of_Bounds)"

definition trace_start_location :: "trace_data \<Rightarrow> string \<Rightarrow> int \<Rightarrow> trace_data outcome" where
  "trace_start_location t file line =
     (if trace_on t then
        let t = t\<lparr>location_stack_top := location_stack_top t + 1\<rparr>
        in bnd (stack_index (location_stack_top t)) (\<lambda>i.
           Inr (t\<lparr>location_file_stack := (location_file_stack t)[i := Some file],
                  location_line_stack := (location_line_stack t)[i := line]\<rparr>))
      else Inr t)"

definition trace_end_location :: "trace_data \<Rightarrow> trace_data" where
  "trace_end_location t = (if trace_on t then t\<lparr>location_stack_top := location_stack_top t - 1\<rparr> else t)"

definition trace_print_location :: "trace_data \<Rightarrow> trace_data outcome" where
  "trace_print_location t =
     (if trace_on t \<and> trace_flags t AND POSITION \<noteq> 0 then
        if location_stack_top t \<ge> 0 then
          bnd (stack_index (location_stack_top t)) (\<lambda>i.
            case location_file_stack t ! i of
              None \<Rightarrow> Inl Null_Deref
            | Some file \<Rightarrow> Inr (put_text t (file @ '', '' @ fmt_d (location_line_stack t ! i) @ '': '')))
        else Inr t
      else Inr t)"

definition trace_memory ::
    "bool \<Rightarrow> trace_data \<Rightarrow> u32 \<Rightarrow> u8 \<Rightarrow> u8 \<Rightarrow> u8 \<Rightarrow> u32 \<Rightarrow> u32 \<Rightarrow> trace_data outcome" where
  "trace_memory fmt t cycle type sz cause address value =
     (if trace_on t \<and> trace_flags t AND MEMORY \<noteq> 0 then
        let seq = (if address = last_address t + 4 then 1 else 0);
            t = t\<lparr>last_address := address\<rparr>
        in bnd (if fmt then Inr t else trace_print_location t) (\<lambda>t.
           bnd (table_entry (trace_memory_seq fmt) seq) (\<lambda>seq.
           bnd (table_entry (trace_memory_type fmt) (unat type)) (\<lambda>type.
           bnd (table_entry (trace_memory_cause fmt) (unat cause)) (\<lambda>cause.
           Inr (put_text t
             (if fmt then ''M'' @ seq @ type @ fmt_d (uint sz) @ cause @ ''__ '' @ fmt_08X address @ '' ''
                @ fmt_08X value @ [CHR 0x0A]
              else ''Cycle '' @ fmt_d (sint cycle) @ '', Mem '' @ seq @ type @ '' ('' @ fmt_d (uint sz) @ '' bytes''
                @ cause @ '') addr: '' @ fmt_08X address @ '', val: '' @ fmt_08X value @ [CHR 0x0A]))))))
      else Inr t)"

text \<open>The name of the mode is copied to an array of 5 characters behind an underscore.\<close>

definition trace_register ::
    "bool \<Rightarrow> trace_data \<Rightarrow> u32 \<Rightarrow> u8 \<Rightarrow> u8 \<Rightarrow> u8 \<Rightarrow> u32 \<Rightarrow> trace_data outcome" where
  "trace_register fmt t cycle type r md value =
     (if trace_on t \<and> trace_flags t AND REGISTERS \<noteq> 0 then
        bnd (arm_get_mode_name md) (\<lambda>m.
        bnd (case m of None \<Rightarrow> Inr '''' | Some s \<Rightarrow> if 1 + length s < 5 then Inr (''_'' @ s) else Inl Out_Of_Bounds) (\<lambda>mode_name.
        bnd (if fmt then Inr t else trace_print_location t) (\<lambda>t.
        bnd (table_entry (trace_register_type fmt) (unat type)) (\<lambda>type.
        bnd (arm_get_register_name r) (\<lambda>name.
        Inr (put_text t
          (if fmt then ''R'' @ type @ '' '' @ name @ mode_name @ '' '' @ fmt_08X value @ [CHR 0x0A]
           else ''Cycle '' @ fmt_d (sint cycle) @ '', Register '' @ type @ '', '' @ name @ mode_name @ '', val: ''
             @ fmt_08X value @ [CHR 0x0A])))))))
      else Inr t)"

definition trace_disable :: "trace_data \<Rightarrow> trace_data" where
  "trace_disable t = t\<lparr>trace_on := False\<rparr>"

definition trace_enable :: "trace_data \<Rightarrow> trace_data" where
  "trace_enable t = t\<lparr>trace_on := True\<rparr>"

definition trace_add :: "trace_data \<Rightarrow> u32 \<Rightarrow> trace_data" where
  "trace_add t flags = t\<lparr>trace_flags := trace_flags t OR flags\<rparr>"

section \<open>Accesses with their trace\<close>

text \<open>\<open>junk\<close> is the variable of the caller that a failed read leaves alone and the trace prints.\<close>

definition traced_read_register :: "bool \<Rightarrow> 'a arm_core_data_scheme \<Rightarrow> u8 \<Rightarrow> trace_data \<Rightarrow> (u32 \<times> trace_data) outcome" where
  "traced_read_register fmt p r t =
     bnd (arm_read_register p r) (\<lambda>value.
     bnd (trace_register fmt t (cycle_count p) TREAD r (get_mode (reg p)) value) (\<lambda>t. Inr (value, t)))"

definition traced_read_usr_register :: "bool \<Rightarrow> 'a arm_core_data_scheme \<Rightarrow> u8 \<Rightarrow> trace_data \<Rightarrow> (u32 \<times> trace_data) outcome" where
  "traced_read_usr_register fmt p r t =
     bnd (arm_read_usr_register p r) (\<lambda>value.
     bnd (trace_register fmt t (cycle_count p) TREAD r USR value) (\<lambda>t. Inr (value, t)))"

definition traced_read_cpsr :: "bool \<Rightarrow> 'a arm_core_data_scheme \<Rightarrow> trace_data \<Rightarrow> (u32 \<times> trace_data) outcome" where
  "traced_read_cpsr fmt p t =
     bnd (arm_read_cpsr p) (\<lambda>value.
     bnd (trace_register fmt t (cycle_count p) TREAD CPSR 0 value) (\<lambda>t. Inr (value, t)))"

definition traced_read_spsr :: "bool \<Rightarrow> 'a arm_core_data_scheme \<Rightarrow> trace_data \<Rightarrow> (u32 \<times> trace_data) outcome" where
  "traced_read_spsr fmt p t =
     bnd (arm_read_spsr p) (\<lambda>value.
     bnd (trace_register fmt t (cycle_count p) TREAD SPSR (get_mode (reg p)) value) (\<lambda>t. Inr (value, t)))"

definition traced_write_register ::
    "bool \<Rightarrow> 'a arm_core_data_scheme \<Rightarrow> u8 \<Rightarrow> u32 \<Rightarrow> trace_data \<Rightarrow> ('a arm_core_data_scheme \<times> trace_data) outcome" where
  "traced_write_register fmt p r value t =
     bnd (arm_write_register p r value) (\<lambda>p.
     bnd (trace_register fmt t (cycle_count p) TWRITE r (get_mode (reg p)) value) (\<lambda>t. Inr (p, t)))"

definition traced_write_usr_register ::
    "bool \<Rightarrow> 'a arm_core_data_scheme \<Rightarrow> u8 \<Rightarrow> u32 \<Rightarrow> trace_data \<Rightarrow> ('a arm_core_data_scheme \<times> trace_data) outcome" where
  "traced_write_usr_register fmt p r value t =
     bnd (arm_write_usr_register p r value) (\<lambda>p.
     bnd (trace_register fmt t (cycle_count p) TWRITE r USR value) (\<lambda>t. Inr (p, t)))"

definition traced_write_cpsr ::
    "bool \<Rightarrow> 'a arm_core_data_scheme \<Rightarrow> u32 \<Rightarrow> trace_data \<Rightarrow> ('a arm_core_data_scheme \<times> trace_data) outcome" where
  "traced_write_cpsr fmt p value t =
     bnd (arm_write_cpsr p value) (\<lambda>p.
     bnd (trace_register fmt t (cycle_count p) TWRITE CPSR 0 value) (\<lambda>t. Inr (p, t)))"

definition traced_write_spsr ::
    "bool \<Rightarrow> 'a arm_core_data_scheme \<Rightarrow> u32 \<Rightarrow> trace_data \<Rightarrow> ('a arm_core_data_scheme \<times> trace_data) outcome" where
  "traced_write_spsr fmt p value t =
     bnd (arm_write_spsr p value) (\<lambda>p.
     bnd (trace_register fmt t (cycle_count p) TWRITE SPSR (get_mode (reg p)) value) (\<lambda>t. Inr (p, t)))"

definition traced_fetch ::
    "bool \<Rightarrow> host \<Rightarrow> u32 \<Rightarrow> 'a arm_core_data_scheme \<Rightarrow> trace_data
     \<Rightarrow> ((u32 option \<times> 'a arm_core_data_scheme) \<times> trace_data) outcome" where
  "traced_fetch fmt h junk p t =
    (let p = p\<lparr>cycle_count := cycle_count p + 1\<rparr>
     in bnd (traced_read_register fmt p 15 t) (\<lambda>(pc, t).
        let address = pc - 4
        in bnd (memory_read_word h (mem p) address) (\<lambda>value.
           bnd (trace_memory fmt t (cycle_count p) TREAD 4 OPCODE_FETCH address (case value of None \<Rightarrow> junk | Some v \<Rightarrow> v)) (\<lambda>t.
           bnd (traced_write_register fmt p 15 (address + 4) t) (\<lambda>(p, t). Inr ((value, p), t))))))"

definition traced_read_byte ::
    "bool \<Rightarrow> u8 \<Rightarrow> 'a arm_core_data_scheme \<Rightarrow> u32 \<Rightarrow> trace_data \<Rightarrow> (u8 option \<times> trace_data) outcome" where
  "traced_read_byte fmt junk p address t =
     bnd (arm_read_byte p address) (\<lambda>r.
     bnd (trace_memory fmt t (cycle_count p) TREAD 1 OTHER_ACCESS address (ucast (case r of None \<Rightarrow> junk | Some v \<Rightarrow> v))) (\<lambda>t.
     Inr (r, t)))"

definition traced_read_half ::
    "bool \<Rightarrow> host \<Rightarrow> u16 \<Rightarrow> 'a arm_core_data_scheme \<Rightarrow> u32 \<Rightarrow> trace_data \<Rightarrow> (u16 option \<times> trace_data) outcome" where
  "traced_read_half fmt h junk p address t =
     bnd (arm_read_half h p address) (\<lambda>r.
     bnd (trace_memory fmt t (cycle_count p) TREAD 2 OTHER_ACCESS address (ucast (case r of None \<Rightarrow> junk | Some v \<Rightarrow> v))) (\<lambda>t.
     Inr (r, t)))"

definition traced_read_word ::
    "bool \<Rightarrow> host \<Rightarrow> u32 \<Rightarrow> 'a arm_core_data_scheme \<Rightarrow> u32 \<Rightarrow> trace_data \<Rightarrow> (u32 option \<times> trace_data) outcome" where
  "traced_read_word fmt h junk p address t =
     bnd (arm_read_word h p address) (\<lambda>r.
     bnd (trace_memory fmt t (cycle_count p) TREAD 4 OTHER_ACCESS address (case r of None \<Rightarrow> junk | Some v \<Rightarrow> v)) (\<lambda>t.
     Inr (r, t)))"

definition traced_write_byte ::
    "bool \<Rightarrow> 'a arm_core_data_scheme \<Rightarrow> u32 \<Rightarrow> u8 \<Rightarrow> trace_data \<Rightarrow> ((bool \<times> 'a arm_core_data_scheme) \<times> trace_data) outcome" where
  "traced_write_byte fmt p address value t =
     bnd (arm_write_byte p address value) (\<lambda>r.
     bnd (trace_memory fmt t (cycle_count p) TWRITE 1 OTHER_ACCESS address (ucast value)) (\<lambda>t. Inr (r, t)))"

definition traced_write_half ::
    "bool \<Rightarrow> host \<Rightarrow> 'a arm_core_data_scheme \<Rightarrow> u32 \<Rightarrow> u16 \<Rightarrow> trace_data
     \<Rightarrow> ((bool \<times> 'a arm_core_data_scheme) \<times> trace_data) outcome" where
  "traced_write_half fmt h p address value t =
     bnd (arm_write_half h p address value) (\<lambda>r.
     bnd (trace_memory fmt t (cycle_count p) TWRITE 2 OTHER_ACCESS address (ucast value)) (\<lambda>t. Inr (r, t)))"

definition traced_write_word ::
    "bool \<Rightarrow> host \<Rightarrow> 'a arm_core_data_scheme \<Rightarrow> u32 \<Rightarrow> u32 \<Rightarrow> trace_data
     \<Rightarrow> ((bool \<times> 'a arm_core_data_scheme) \<times> trace_data) outcome" where
  "traced_write_word fmt h p address value t =
     bnd (arm_write_word h p address value) (\<lambda>r.
     bnd (trace_memory fmt t (cycle_count p) TWRITE 4 OTHER_ACCESS address value) (\<lambda>t. Inr (r, t)))"

text \<open>The macros of \<^verbatim>\<open>trace_location.h\<close> around an access \<open>f\<close>.  In those that add the result of the access and
  that of \<^verbatim>\<open>trace_end_location\<close>, C leaves open which is called first; \<open>early_end\<close> says that it is the latter.\<close>

definition located :: "bool \<Rightarrow> string \<Rightarrow> int \<Rightarrow> (trace_data \<Rightarrow> ('v \<times> trace_data) outcome) \<Rightarrow> trace_data \<Rightarrow> ('v \<times> trace_data) outcome" where
  "located early_end file line f t =
     bnd (trace_start_location t file line) (\<lambda>t.
     if early_end then f (trace_end_location t)
     else bnd (f t) (\<lambda>(v, t). Inr (v, trace_end_location t)))"

section \<open>Printing the processor state\<close>

text \<open>The loop over the registers of one mode; \<open>count\<close> is the second component.\<close>

definition print_registers :: "bool \<Rightarrow> 'a arm_core_data_scheme \<Rightarrow> u8 \<Rightarrow> trace_data \<Rightarrow> (trace_data \<times> nat) outcome" where
  "print_registers fmt p md t =
     for_out [0..<16] (\<lambda>r (t, count).
       if md = USR then
         let t = (if r > 0 \<and> r mod 5 = 0 then put_text t (CHR 0x0A # ''    '') else t)
         in bnd (arm_get_register_name (of_nat r)) (\<lambda>name.
            bnd (traced_read_usr_register fmt p (of_nat r) t) (\<lambda>(v, t).
            Inr (put_text t (''   '' @ fmt_3s name @ ''='' @ fmt_08X v), count)))
       else
         let t = (if count > 0 \<and> count mod 5 = 0 then put_text t (CHR 0x0A # ''    '') else t)
         in bnd (arm_get_register_name (of_nat r)) (\<lambda>name.
            bnd (traced_read_register fmt p (of_nat r) t) (\<lambda>(v, t).
            Inr (put_text t (''   '' @ fmt_3s name @ ''='' @ fmt_08X v), count + 1)))) (t, 0)"

definition arm_print_state :: "bool \<Rightarrow> 'a arm_core_data_scheme \<Rightarrow> trace_data \<Rightarrow> trace_data outcome" where
  "arm_print_state fmt p t =
     for_out [0..<32] (\<lambda>i t.
       let mode = of_nat i
       in bnd (arm_get_mode_name mode) (\<lambda>m.
          case m of
            None \<Rightarrow> Inr t
          | Some name \<Rightarrow>
              bnd (print_registers fmt p mode (if mode \<noteq> SYS then put_text t (name @ '':'') else t)) (\<lambda>(t, count).
              bnd (if mode = USR then bnd (traced_read_cpsr fmt p t) (\<lambda>(v, t). Inr (put_text t (''  CPSR='' @ fmt_08X v)))
                   else Inr t) (\<lambda>t.
              Inr (if mode = USR \<or> mode = FIQ \<or> mode = SVC \<or> mode = UND then put_text t [CHR 0x0A]
                   else if mode = IRQ \<or> mode = ABT then put_text t ''          ''
                   else t))))) t"

definition trace_arm_state :: "bool \<Rightarrow> trace_data \<Rightarrow> 'a arm_core_data_scheme \<Rightarrow> trace_data outcome" where
  "trace_arm_state fmt t p =
     (if trace_on t \<and> trace_flags t AND STATE \<noteq> 0 then arm_print_state fmt p t else Inr t)"

section \<open>What a trace call changes\<close>

definition wf_trace :: "trace_data \<Rightarrow> bool" where
  "wf_trace t \<longleftrightarrow> length (location_file_stack t) = 128 \<and> length (location_line_stack t) = 128
     \<and> - 1 \<le> location_stack_top t \<and> location_stack_top t < 128
     \<and> (\<forall>i. int i \<le> location_stack_top t \<longrightarrow> location_file_stack t ! i \<noteq> None)"

text \<open>\<open>t'\<close> is \<open>t\<close> with more text: the same switches and the same locations, as far as they are in use.\<close>

definition grows :: "trace_data \<Rightarrow> trace_data \<Rightarrow> bool" where
  "grows t t' \<longleftrightarrow> (\<exists>s. out t' = out t @ s) \<and> trace_on t' = trace_on t \<and> trace_flags t' = trace_flags t
     \<and> location_stack_top t' = location_stack_top t \<and> (wf_trace t \<longrightarrow> wf_trace t')
     \<and> (\<forall>i. int i \<le> location_stack_top t \<longrightarrow> location_file_stack t' ! i = location_file_stack t ! i
          \<and> location_line_stack t' ! i = location_line_stack t ! i)"

definition silent :: "trace_data \<Rightarrow> bool" where
  "silent t \<longleftrightarrow> \<not> trace_on t \<or> trace_flags t = 0"

lemma grows_refl [simp]: "grows t t"
  by (simp add: grows_def)

lemma grows_trans: "grows t t' \<Longrightarrow> grows t' t'' \<Longrightarrow> grows t t''"
  by (auto simp: grows_def)

lemma grows_put [simp]: "grows t (put_text t s)" "grows t (put_text (t\<lparr>last_address := a\<rparr>) s)" "grows t (t\<lparr>last_address := a\<rparr>)"
  by (simp_all add: grows_def put_text_def wf_trace_def)

lemma grows_silent: "grows t t' \<Longrightarrow> silent t' = silent t"
  by (simp add: grows_def silent_def)

lemma grows_wf: "grows t t' \<Longrightarrow> wf_trace t \<Longrightarrow> wf_trace t'"
  by (simp add: grows_def)

text \<open>A call that only adds text, and none with the trace switched off.\<close>

definition prints :: "trace_data \<Rightarrow> trace_data outcome \<Rightarrow> bool" where
  "prints t m \<longleftrightarrow> returns m (\<lambda>t'. grows t t' \<and> (silent t \<longrightarrow> t' = t))"

lemma print_location_grows:
  assumes "wf_trace t"
  shows "returns (trace_print_location t) (grows t)"
proof -
  show ?thesis
  proof (cases "0 \<le> location_stack_top t")
    case True
    then have "location_file_stack t ! nat (location_stack_top t) \<noteq> None"
      using assms by (metis wf_trace_def int_nat_eq order_refl)
    then obtain f where "location_file_stack t ! nat (location_stack_top t) = Some f" by blast
    then show ?thesis using assms True by (simp add: trace_print_location_def stack_index_def wf_trace_def)
  qed (simp add: trace_print_location_def)
qed

lemma mode_names_short: "list_all (\<lambda>m. case m of None \<Rightarrow> True | Some s \<Rightarrow> length s = 3) arm_mode_names"
  by (simp add: arm_mode_names_def)

lemma mode_name_fits:
  assumes "md < 32"
  shows "\<exists>s. bnd (arm_get_mode_name md) (\<lambda>m. case m of None \<Rightarrow> Inr ''''
    | Some s \<Rightarrow> if 1 + length s < 5 then Inr (''_'' @ s) else Inl Out_Of_Bounds) = Inr s"
proof -
  have i: "unat md < length arm_mode_names" using assms by (simp add: word_less_nat_alt arm_mode_names_def)
  then have "case arm_mode_names ! unat md of None \<Rightarrow> True | Some s \<Rightarrow> length s = 3"
    using mode_names_short by (metis list_all_length)
  then show ?thesis using i by (auto simp: arm_get_mode_name_def table_entry_def split: option.splits)
qed

lemma trace_register_prints:
  assumes "wf_trace t" "unat r < 18" "md < 32" "unat ty < 2"
  shows "prints t (trace_register fmt t c ty r md v)"
proof -
  obtain m s where m: "arm_get_mode_name md = Inr m" "(case m of None \<Rightarrow> Inr ''''
      | Some s \<Rightarrow> if 1 + length s < 5 then Inr (''_'' @ s) else Inl Out_Of_Bounds) = (Inr s :: string outcome)"
    using mode_name_fits[OF assms(3)] by (auto simp: bnd_eq_Inr_iff)
  obtain t1 where t1: "(if fmt then Inr t else trace_print_location t) = Inr t1" "grows t t1"
    using print_location_grows[OF assms(1)] by (cases fmt) (auto simp: returns_def)
  have "unat r < length arm_register_names" using assms(2) by (simp add: arm_register_names_def)
  moreover have "unat ty < length (trace_register_type fmt)" using assms(4) by (simp add: trace_register_type_def)
  ultimately show ?thesis
    using grows_trans[OF t1(2) grows_put(1)]
    by (auto simp: prints_def trace_register_def m t1(1) arm_get_register_name_def table_entry_def silent_def)
qed

lemma trace_memory_prints:
  assumes "wf_trace t" "unat ty < 2" "unat cause < 2"
  shows "prints t (trace_memory fmt t c ty sz cause a v)"
proof -
  have "wf_trace (t\<lparr>last_address := a\<rparr>)" using grows_wf[OF grows_put(3) assms(1)] .
  then obtain t1 where t1: "(if fmt then Inr (t\<lparr>last_address := a\<rparr>) else trace_print_location (t\<lparr>last_address := a\<rparr>)) = Inr t1"
      "grows (t\<lparr>last_address := a\<rparr>) t1"
    using print_location_grows[of "t\<lparr>last_address := a\<rparr>"] by (cases fmt) (auto simp: returns_def)
  have "grows t (put_text t1 s)" for s using grows_trans[OF grows_trans[OF grows_put(3) t1(2)] grows_put(1)] .
  then show ?thesis
    using assms(2,3) by (auto simp: prints_def trace_memory_def t1(1) table_entry_def silent_def Let_def
        trace_memory_seq_def trace_memory_type_def trace_memory_cause_def)
qed

section \<open>The contract of a traced access\<close>

text \<open>With its trace the access gives what it gives without, stops the process if it does so without, and
  only adds text to the trace.\<close>

definition transparent :: "'v outcome \<Rightarrow> trace_data \<Rightarrow> ('v \<times> trace_data) outcome \<Rightarrow> bool" where
  "transparent m t mt \<longleftrightarrow> (case m of Inl e \<Rightarrow> mt = Inl e
     | Inr v \<Rightarrow> returns mt (\<lambda>(v', t'). v' = v \<and> grows t t' \<and> (silent t \<longrightarrow> out t' = out t)))"

lemma transparent_bnd_prints:
  "(\<And>v. m = Inr v \<Longrightarrow> prints t (f v)) \<Longrightarrow> transparent m t (bnd m (\<lambda>v. bnd (f v) (\<lambda>t. Inr (v, t))))"
  by (cases m) (auto simp: transparent_def prints_def returns_bnd elim: returns_mono)

lemma transparent_value: "transparent m t mt \<Longrightarrow> bnd mt (\<lambda>(v, t). Inr v) = m"
  by (cases m) (auto simp: transparent_def returns_def)

lemma transparent_cases:
  assumes "transparent m t mt"
  obtains (stop) e where "m = Inl e" "mt = Inl e"
  | (val) v t' where "m = Inr v" "mt = Inr (v, t')" "grows t t'" "silent t \<longrightarrow> out t' = out t"
  using assms by (cases m) (auto simp: transparent_def returns_def)

locale traced_access =
  fixes plain :: "'p \<Rightarrow> 'v outcome"
    and traced :: "'p \<Rightarrow> trace_data \<Rightarrow> ('v \<times> trace_data) outcome"
    and ok :: "'p \<Rightarrow> bool"
  assumes transparent_access: "ok p \<Longrightarrow> wf_trace t \<Longrightarrow> transparent (plain p) t (traced p t)"
begin

text \<open>The macro around the access keeps this, in either order of evaluation, if the stack has room.\<close>

lemma located_transparent:
  assumes "ok p" "wf_trace t" "location_stack_top t < 127"
  shows "transparent (plain p) t (located early_end file line (traced p) t)"
proof (cases "trace_on t")
  case False
  then have "trace_start_location t file line = Inr t" "trace_end_location t = t"
    by (simp_all add: trace_start_location_def trace_end_location_def)
  moreover have "trace_end_location t' = t'" if "grows t t'" for t'
    using False that by (simp add: trace_end_location_def grows_def)
  moreover note transparent_access[OF assms(1,2)]
  ultimately show ?thesis by (cases early_end; cases "plain p") (auto simp: located_def transparent_def returns_bnd elim!: returns_mono)
next
  case on: True
  define i where "i = nat (location_stack_top t + 1)"
  have i: "0 \<le> location_stack_top t + 1" "location_stack_top t + 1 < 128" "i < 128" "int i = location_stack_top t + 1"
    using assms(2,3) by (auto simp: wf_trace_def i_def)
  define t1 where "t1 = t\<lparr>location_stack_top := location_stack_top t + 1,
    location_file_stack := (location_file_stack t)[i := Some file], location_line_stack := (location_line_stack t)[i := line]\<rparr>"
  have start: "trace_start_location t file line = Inr t1"
    using on i(1,2) by (simp add: trace_start_location_def stack_index_def t1_def i_def Let_def)
  have keep: "(location_file_stack t)[i := x] ! j = location_file_stack t ! j" "(location_line_stack t)[i := y] ! j = location_line_stack t ! j"
    if "int j \<le> location_stack_top t" for j x y using that i(4) by (simp_all add: nth_list_update)
  have wf1: "wf_trace t1" using assms(2) i by (auto simp: wf_trace_def t1_def nth_list_update)
  have restored: "grows t (trace_end_location t') \<and> wf_trace (trace_end_location t1)" if "grows t1 t'" for t'
    using that assms(2) on wf1 keep unfolding grows_def wf_trace_def trace_end_location_def t1_def by auto
  show ?thesis
  proof (cases early_end)
    case True
    have "grows t (trace_end_location t1)" "wf_trace (trace_end_location t1)" using restored[of t1] by simp_all
    moreover from this have "out (trace_end_location t1) = out t" by (simp add: trace_end_location_def t1_def)
    ultimately show ?thesis
      using transparent_access[OF assms(1), of "trace_end_location t1"] True
      by (auto simp: located_def start transparent_def grows_silent split: sum.splits elim!: returns_mono intro: grows_trans)
  next
    case False
    have o1: "out t1 = out t" "silent t1 = silent t" by (simp_all add: t1_def silent_def)
    have "out (trace_end_location t') = out t'" for t' by (simp add: trace_end_location_def)
    with transparent_access[OF assms(1) wf1] show ?thesis
      using False restored by (cases rule: transparent_cases) (auto simp: located_def start transparent_def o1)
  qed
qed

end

lemma transparent_trans:
  "grows t t' \<Longrightarrow> (silent t \<longrightarrow> out t' = out t) \<Longrightarrow> transparent m t' mt \<Longrightarrow> transparent m t mt"
  by (auto simp: transparent_def grows_silent split: sum.splits elim!: returns_mono intro: grows_trans)

lemma transparent_bnd:
  assumes "transparent m t mt" "\<And>v t'. m = Inr v \<Longrightarrow> grows t t' \<Longrightarrow> transparent (f v) t' (ft v t')"
  shows "transparent (bnd m f) t (bnd mt (\<lambda>(v, t). ft v t))"
  using assms(1)
proof (cases rule: transparent_cases)
  case (val v t')
  then show ?thesis using transparent_trans[OF val(3,4) assms(2)[OF val(1,3)]] by simp
qed (simp add: transparent_def)

lemma transparent_value_bnd:
  "(\<And>v. m = Inr v \<Longrightarrow> transparent (f v) t (ft v)) \<Longrightarrow> transparent (bnd m f) t (bnd m ft)"
  by (cases m) (simp_all add: transparent_def)

lemma transparent_print:
  assumes "prints t m" "\<And>t'. grows t t' \<Longrightarrow> transparent n t' (f t')"
  shows "transparent n t (bnd m f)"
proof -
  obtain t' where t': "m = Inr t'" "grows t t'" "silent t \<longrightarrow> t' = t" using assms(1) by (auto simp: prints_def returns_def)
  then show ?thesis using transparent_trans[OF t'(2) _ assms(2)[OF t'(2)]] by simp
qed

lemma transparent_Inr: "transparent (Inr v) t (Inr (v, t))"
  by (simp add: transparent_def)

lemma sys_mode [simp]: "sys_core p \<Longrightarrow> get_mode (reg p) = SYS"
  by (simp add: sys_core_def get_mode_def)

interpretation tr_read_register: traced_access "\<lambda>p. arm_read_register p r" "\<lambda>p. traced_read_register fmt p r"
    "\<lambda>p. sys_core p \<and> unat r < 17" for fmt r
  by unfold_locales (auto simp: traced_read_register_def intro!: transparent_bnd_prints trace_register_prints)

interpretation tr_read_usr_register: traced_access "\<lambda>p. arm_read_usr_register p r" "\<lambda>p. traced_read_usr_register fmt p r"
    "\<lambda>p. sys_core p \<and> unat r < 17" for fmt r
  by unfold_locales (auto simp: traced_read_usr_register_def intro!: transparent_bnd_prints trace_register_prints)

interpretation tr_read_cpsr: traced_access arm_read_cpsr "traced_read_cpsr fmt" sys_core for fmt
  by unfold_locales (auto simp: traced_read_cpsr_def intro!: transparent_bnd_prints trace_register_prints)

interpretation tr_read_spsr: traced_access arm_read_spsr "traced_read_spsr fmt" sys_core for fmt
  by unfold_locales (auto simp: traced_read_spsr_def intro!: transparent_bnd_prints trace_register_prints)

interpretation tr_write_register: traced_access "\<lambda>p. arm_write_register p r v" "\<lambda>p. traced_write_register fmt p r v"
    "\<lambda>p. sys_core p \<and> unat r < 17" for fmt r v
  by unfold_locales (unfold traced_write_register_def, intro transparent_bnd_prints trace_register_prints, auto simp: core_eqs)

interpretation tr_write_usr_register: traced_access "\<lambda>p. arm_write_usr_register p r v" "\<lambda>p. traced_write_usr_register fmt p r v"
    "\<lambda>p. sys_core p \<and> unat r < 17" for fmt r v
  by unfold_locales (auto simp: traced_write_usr_register_def intro!: transparent_bnd_prints trace_register_prints)

interpretation tr_write_cpsr: traced_access "\<lambda>p. arm_write_cpsr p v" "\<lambda>p. traced_write_cpsr fmt p v" sys_core for fmt v
  by unfold_locales (auto simp: traced_write_cpsr_def intro!: transparent_bnd_prints trace_register_prints)

interpretation tr_write_spsr: traced_access "\<lambda>p. arm_write_spsr p v" "\<lambda>p. traced_write_spsr fmt p v" sys_core for fmt v
  by unfold_locales (unfold traced_write_spsr_def, intro transparent_bnd_prints trace_register_prints, auto simp: core_eqs)

interpretation tr_read_byte: traced_access "\<lambda>p. arm_read_byte p a" "\<lambda>p. traced_read_byte fmt junk p a" sys_core for fmt junk a
  by unfold_locales (auto simp: traced_read_byte_def intro!: transparent_bnd_prints trace_memory_prints)

interpretation tr_read_half: traced_access "\<lambda>p. arm_read_half h p a" "\<lambda>p. traced_read_half fmt h junk p a" sys_core for fmt h junk a
  by unfold_locales (auto simp: traced_read_half_def intro!: transparent_bnd_prints trace_memory_prints)

interpretation tr_read_word: traced_access "\<lambda>p. arm_read_word h p a" "\<lambda>p. traced_read_word fmt h junk p a" sys_core for fmt h junk a
  by unfold_locales (auto simp: traced_read_word_def intro!: transparent_bnd_prints trace_memory_prints)

interpretation tr_write_byte: traced_access "\<lambda>p. arm_write_byte p a v" "\<lambda>p. traced_write_byte fmt p a v" sys_core for fmt a v
  by unfold_locales (auto simp: traced_write_byte_def intro!: transparent_bnd_prints trace_memory_prints)

interpretation tr_write_half: traced_access "\<lambda>p. arm_write_half h p a v" "\<lambda>p. traced_write_half fmt h p a v" sys_core for fmt h a v
  by unfold_locales (auto simp: traced_write_half_def intro!: transparent_bnd_prints trace_memory_prints)

interpretation tr_write_word: traced_access "\<lambda>p. arm_write_word h p a v" "\<lambda>p. traced_write_word fmt h p a v" sys_core for fmt h a v
  by unfold_locales (auto simp: traced_write_word_def intro!: transparent_bnd_prints trace_memory_prints)

interpretation tr_fetch: traced_access "\<lambda>p. arm_fetch h p" "\<lambda>p. traced_fetch fmt h junk p" sys_core for fmt h junk
proof unfold_locales
  fix p :: "'a arm_core_data_scheme" and t
  assume p: "sys_core p" and t: "wf_trace t"
  let ?p = "p\<lparr>cycle_count := cycle_count p + 1\<rparr>"
  show "transparent (arm_fetch h p) t (traced_fetch fmt h junk p t)"
    unfolding arm_fetch_def traced_fetch_def Let_def
    by (intro transparent_bnd transparent_value_bnd transparent_print tr_read_register.transparent_access
        tr_write_register.transparent_access trace_memory_prints transparent_Inr)
      (use p t in \<open>auto dest: grows_wf\<close>)
qed

section \<open>The printed state\<close>

lemma put_text_simps [simp]:
  "put_text (put_text t s) s' = put_text t (s @ s')" "put_text t [] = t"
  "trace_flags (put_text t s) = trace_flags t" "trace_on (put_text t s) = trace_on t" "out (put_text t s) = out t @ s"
  by (simp_all add: put_text_def)

lemma for_out_puts:
  assumes "\<And>i t. i \<in> set is \<Longrightarrow> trace_flags t AND REGISTERS = 0 \<Longrightarrow> body i t = Inr (put_text t (f i))"
    and "trace_flags t AND REGISTERS = 0"
  shows "for_out is body t = Inr (put_text t (concat (map f is)))"
  using assms by (induction "is" arbitrary: t) auto

text \<open>One register of the list, the list, and the text for one mode.\<close>

definition register_text :: "'a arm_core_data_scheme \<Rightarrow> nat \<Rightarrow> string" where
  "register_text p r = (if r > 0 \<and> r mod 5 = 0 then CHR 0x0A # ''    '' else '''')
     @ ''   '' @ fmt_3s (arm_register_names ! r) @ ''='' @ fmt_08X (rview p r)"

definition registers_text :: "'a arm_core_data_scheme \<Rightarrow> string" where
  "registers_text p = concat (map (register_text p) [0..<16])"

definition mode_text :: "'a arm_core_data_scheme \<Rightarrow> nat \<Rightarrow> string" where
  "mode_text p i = (case arm_mode_names ! i of None \<Rightarrow> ''''
     | Some name \<Rightarrow> (if i \<noteq> 31 then name @ '':'' else '''') @ registers_text p
         @ (if i = 16 then ''  CPSR='' @ fmt_08X (rget p 16) else '''')
         @ (if i \<in> {16, 17, 19, 27} then [CHR 0x0A] else if i \<in> {18, 23} then ''          '' else ''''))"

lemma quiet_register: "trace_flags t AND REGISTERS = 0 \<Longrightarrow> trace_register fmt t c ty r md v = Inr t"
  by (simp add: trace_register_def)

lemma quiet_reads:
  assumes "sys_core p" "r < 16" "trace_flags t AND REGISTERS = 0"
  shows "traced_read_register fmt p (of_nat r) t = Inr (rview p r, t)"
    "traced_read_usr_register fmt p (of_nat r) t = Inr (rview p r, t)"
    "traced_read_cpsr fmt p t = Inr (rget p 16, t)"
proof -
  have "unat (of_nat r :: u8) = r" using assms(2) by (simp add: unsigned_of_nat take_bit_nat_eq_self)
  then show "traced_read_register fmt p (of_nat r) t = Inr (rview p r, t)"
    "traced_read_usr_register fmt p (of_nat r) t = Inr (rview p r, t)"
    "traced_read_cpsr fmt p t = Inr (rget p 16, t)"
    using assms by (simp_all add: traced_read_register_def traced_read_usr_register_def traced_read_cpsr_def
        core_eqs quiet_register sys_user_view rview_def)
qed

lemma print_registers_eq:
  assumes "sys_core p" "trace_flags t AND REGISTERS = 0"
  shows "\<exists>n. print_registers fmt p md t = Inr (put_text t (registers_text p), n)"
proof -
  let ?body = "\<lambda>r (t, count :: nat).
       if md = USR then
         let t = (if r > 0 \<and> r mod 5 = 0 then put_text t (CHR 0x0A # ''    '') else t)
         in bnd (arm_get_register_name (of_nat r)) (\<lambda>name.
            bnd (traced_read_usr_register fmt p (of_nat r) t) (\<lambda>(v, t).
            Inr (put_text t (''   '' @ fmt_3s name @ ''='' @ fmt_08X v), count)))
       else
         let t = (if count > 0 \<and> count mod 5 = 0 then put_text t (CHR 0x0A # ''    '') else t)
         in bnd (arm_get_register_name (of_nat r)) (\<lambda>name.
            bnd (traced_read_register fmt p (of_nat r) t) (\<lambda>(v, t).
            Inr (put_text t (''   '' @ fmt_3s name @ ''='' @ fmt_08X v), count + 1)))"
  have name: "arm_get_register_name (of_nat r) = Inr (arm_register_names ! r)" if "r < 16" for r
    using that by (simp add: arm_get_register_name_def table_entry_def arm_register_names_def unsigned_of_nat take_bit_nat_eq_self)
  have "for_out [0..<k] ?body (t, 0) = Inr (put_text t (concat (map (register_text p) [0..<k])), if md = USR then 0 else k)"
    if "k \<le> 16" for k
    using that
  proof (induction k)
    case (Suc k)
    then show ?case
      using assms by (simp add: for_out_append name quiet_reads register_text_def Let_def)
  qed simp
  from this[of 16] show ?thesis by (simp add: print_registers_def registers_text_def)
qed

lemma print_state_eq:
  assumes "sys_core p" "trace_flags t AND REGISTERS = 0"
  shows "arm_print_state fmt p t = Inr (put_text t (concat (map (mode_text p) [0..<32])))"
  unfolding arm_print_state_def
proof (rule for_out_puts[OF _ assms(2)])
  fix i and t :: trace_data
  assume i: "i \<in> set [0..<32]" and t: "trace_flags t AND REGISTERS = 0"
  have u: "unat (of_nat i :: u8) = i" using i by (simp add: unsigned_of_nat take_bit_nat_eq_self)
  then have eqs: "(of_nat i :: u8) = 16 \<longleftrightarrow> i = 16" "(of_nat i :: u8) = 17 \<longleftrightarrow> i = 17" "(of_nat i :: u8) = 18 \<longleftrightarrow> i = 18"
    "(of_nat i :: u8) = 19 \<longleftrightarrow> i = 19" "(of_nat i :: u8) = 23 \<longleftrightarrow> i = 23" "(of_nat i :: u8) = 27 \<longleftrightarrow> i = 27"
    "(of_nat i :: u8) = 31 \<longleftrightarrow> i = 31" by (simp_all add: word_unat_eq_iff)
  have m: "arm_get_mode_name (of_nat i) = Inr (arm_mode_names ! i)"
    using i u by (simp add: arm_get_mode_name_def table_entry_def arm_mode_names_def)
  show "(let mode = of_nat i
       in bnd (arm_get_mode_name mode) (\<lambda>m.
          case m of
            None \<Rightarrow> Inr t
          | Some name \<Rightarrow>
              bnd (print_registers fmt p mode (if mode \<noteq> SYS then put_text t (name @ '':'') else t)) (\<lambda>(t, count).
              bnd (if mode = USR then bnd (traced_read_cpsr fmt p t) (\<lambda>(v, t). Inr (put_text t (''  CPSR='' @ fmt_08X v)))
                   else Inr t) (\<lambda>t.
              Inr (if mode = USR \<or> mode = FIQ \<or> mode = SVC \<or> mode = UND then put_text t [CHR 0x0A]
                   else if mode = IRQ \<or> mode = ABT then put_text t ''          ''
                   else t))))) = Inr (put_text t (mode_text p i))"
  proof (cases "arm_mode_names ! i")
    case (Some name)
    let ?t = "if i \<noteq> 31 then put_text t (name @ '':'') else t"
    obtain n where n: "print_registers fmt p (of_nat i) ?t = Inr (put_text ?t (registers_text p), n)"
      using print_registers_eq[OF assms(1), of ?t] t by fastforce
    then show ?thesis
      using assms(1) t by (auto simp: m Let_def eqs Some mode_text_def quiet_reads(3)[of p 0])
  qed (simp add: m mode_text_def Let_def)
qed

section \<open>Properties\<close>

text \<open>C19: tracing changes nothing but the trace.  Every access of the processor core, called through the macros
  of \<^verbatim>\<open>trace_location.h\<close> with all trace calls in place, gives the value and the state of the access without
  tracing, for either order of evaluation of the macro; it leaves the switches and the stack of
  locations as they were, and with tracing switched off it writes nothing.\<close>

theorem tracing_transparent:
  assumes "sys_core p" and "wf_trace t" and "location_stack_top t < 127" and "unat r < 17"
  shows "transparent (arm_fetch h p) t (located e f l (traced_fetch fmt h j p) t)
    \<and> transparent (arm_read_register p r) t (located e f l (traced_read_register fmt p r) t)
    \<and> transparent (arm_write_register p r v) t (located e f l (traced_write_register fmt p r v) t)
    \<and> transparent (arm_read_usr_register p r) t (located e f l (traced_read_usr_register fmt p r) t)
    \<and> transparent (arm_write_usr_register p r v) t (located e f l (traced_write_usr_register fmt p r v) t)
    \<and> transparent (arm_read_cpsr p) t (located e f l (traced_read_cpsr fmt p) t)
    \<and> transparent (arm_write_cpsr p v) t (located e f l (traced_write_cpsr fmt p v) t)
    \<and> transparent (arm_read_spsr p) t (located e f l (traced_read_spsr fmt p) t)
    \<and> transparent (arm_write_spsr p v) t (located e f l (traced_write_spsr fmt p v) t)
    \<and> transparent (arm_read_byte p a) t (located e f l (traced_read_byte fmt jb p a) t)
    \<and> transparent (arm_read_half h p a) t (located e f l (traced_read_half fmt h jh p a) t)
    \<and> transparent (arm_read_word h p a) t (located e f l (traced_read_word fmt h j p a) t)
    \<and> transparent (arm_write_byte p a vb) t (located e f l (traced_write_byte fmt p a vb) t)
    \<and> transparent (arm_write_half h p a vh) t (located e f l (traced_write_half fmt h p a vh) t)
    \<and> transparent (arm_write_word h p a v) t (located e f l (traced_write_word fmt h p a v) t)"
  using assms
  by (intro conjI tr_fetch.located_transparent tr_read_register.located_transparent tr_write_register.located_transparent
      tr_read_usr_register.located_transparent tr_write_usr_register.located_transparent tr_read_cpsr.located_transparent
      tr_write_cpsr.located_transparent tr_read_spsr.located_transparent tr_write_spsr.located_transparent
      tr_read_byte.located_transparent tr_read_half.located_transparent tr_read_word.located_transparent
      tr_write_byte.located_transparent tr_write_half.located_transparent tr_write_word.located_transparent) simp_all

lemma wf_trace_start: "wf_trace trace_start" "location_stack_top trace_start = - 1"
  by (simp_all add: wf_trace_def trace_start_def)

theorem tracing_transparent_witness:
  "\<exists>t'. located False ''arm_instruction.c'' 74 (traced_read_register False (machine [0, 0, 0, 0] ()) 3)
     (trace_add trace_start 10) = Inr (0, t') \<and> location_stack_top t' = - 1"
proof -
  let ?p = "machine [0, 0, 0, 0] ()" and ?t = "trace_add trace_start 10"
  have p: "sys_core ?p" by (simp add: sys_core_machine)
  have t: "wf_trace ?t" "location_stack_top ?t = - 1"
    using wf_trace_start by (simp_all add: trace_add_def wf_trace_def)
  have three: "unat (3 :: u8) = 3" by simp
  have "transparent (arm_read_register ?p 3) ?t (located False ''arm_instruction.c'' 74 (traced_read_register False ?p 3) ?t)"
    using tracing_transparent[of ?p ?t 3 x86_host False "''arm_instruction.c''" 74 False] p t by simp
  moreover have "arm_read_register ?p 3 = Inr 0" using p by (simp add: core_eqs rview_def rget_machine)
  ultimately show ?thesis using t(2) by (auto simp: transparent_def returns_def grows_def)
qed

text \<open>The printed state.  With register tracing off, \<^verbatim>\<open>trace_arm_state\<close> writes the state if tracing is on and
  the state is asked for, and else nothing.  The text has one list of the sixteen registers for each
  of the seven modes, but in all of them the registers of the current mode: the banked registers
  of the other modes are never shown.\<close>

theorem state_printed:
  assumes "sys_core p" and "trace_flags t AND REGISTERS = 0"
  shows "\<exists>t'. trace_arm_state fmt t p = Inr t'
    \<and> out t' = out t @ (if trace_on t \<and> trace_flags t AND STATE \<noteq> 0 then
        ''USR:'' @ registers_text p @ ''  CPSR='' @ fmt_08X (rget p 16) @ [CHR 0x0A]
        @ ''FIQ:'' @ registers_text p @ [CHR 0x0A] @ ''IRQ:'' @ registers_text p @ ''          ''
        @ ''SVC:'' @ registers_text p @ [CHR 0x0A] @ ''ABT:'' @ registers_text p @ ''          ''
        @ ''UND:'' @ registers_text p @ [CHR 0x0A] @ registers_text p else '''')"
proof -
  have "[0..<32] = [0, 1, 2, 3, 4, 5, 6, 7, 8, 9, 10, 11, 12, 13, 14, 15, 16, 17, 18, 19, 20, 21, 22, 23, 24, 25, 26, 27, 28, 29, 30, 31]"
    by (simp add: upt_rec)
  then have "concat (map (mode_text p) [0..<32]) =
      ''USR:'' @ registers_text p @ ''  CPSR='' @ fmt_08X (rget p 16) @ [CHR 0x0A]
        @ ''FIQ:'' @ registers_text p @ [CHR 0x0A] @ ''IRQ:'' @ registers_text p @ ''          ''
        @ ''SVC:'' @ registers_text p @ [CHR 0x0A] @ ''ABT:'' @ registers_text p @ ''          ''
        @ ''UND:'' @ registers_text p @ [CHR 0x0A] @ registers_text p"
    by (simp add: mode_text_def arm_mode_names_def)
  then show ?thesis using print_state_eq[OF assms, of fmt] by (simp add: trace_arm_state_def)
qed

theorem state_printed_witness:
  "\<exists>t'. trace_arm_state False (trace_add trace_start 4) (machine [0, 0, 0, 0] ()) = Inr t' \<and> take 15 (out t') = ''USR:   R00=0000''"
proof -
  let ?p = "machine [0, 0, 0, 0] ()" and ?t = "trace_add trace_start 4"
  have zero: "fmt_08X 0 = ''00000000''" by code_simp
  have "sys_core ?p" by (simp add: sys_core_machine)
  moreover have "trace_flags ?t = 4" "trace_on ?t" "out ?t = ''''" by (simp_all add: trace_add_def trace_start_def)
  moreover have "registers_text ?p = ''   R00=00000000'' @ concat (map (register_text ?p) [1..<16])"
  proof -
    have "[0..<16] = 0 # [1..<16]" by (simp add: upt_rec)
    moreover have "register_text ?p 0 = ''   R00=00000000''"
      using zero by (simp add: register_text_def rview_def rget_machine fmt_3s_def arm_register_names_def)
    ultimately show ?thesis by (simp add: registers_text_def)
  qed
  ultimately show ?thesis using state_printed[of ?p ?t False] by auto
qed

end
