(* ===== verification/Process.thy ===== *)
theory Process
  imports Scanner Debug Trace Rio
begin

text \<open>
  The two programs.  \<^verbatim>\<open>arm_simulator.c\<close>: its options, the thread that serves a debugger, the thread that
  delivers exceptions, and all interleavings of the two under the lock; \<^verbatim>\<open>send_irq.c\<close>: the name lookup
  and the byte that is sent.  Sockets and connections are in the theory \<open>Network\<close>.

  The options are here the list that \<^verbatim>\<open>getopt_long\<close> returns, with their arguments; the theory \<open>Options\<close> computes it from the
  command line.  \<^verbatim>\<open>fopen\<close> is a parameter, the set of file names that can be opened.
\<close>

section \<open>Options\<close>

record options =
  gdb_port :: u16
  irq_port :: u16
  trace_file :: "u8 list option"
  opt_trace :: trace_data
  opt_debug :: debug_data

definition start_options :: options where
  "start_options = \<lparr>gdb_port = 0, irq_port = 0, trace_file = None, opt_trace = trace_start, opt_debug = debug_start\<rparr>"

definition main_option :: "u8 list set \<Rightarrow> options \<Rightarrow> char \<times> u8 list \<Rightarrow> options outcome" where
  "main_option can_open s opt =
    (let (c, optarg) = opt
     in if c = CHR ''g'' then Inr (s\<lparr>gdb_port := ucast (atoi optarg)\<rparr>)
        else if c = CHR ''i'' then Inr (s\<lparr>irq_port := ucast (atoi optarg)\<rparr>)
        else if c = CHR ''h'' then Inl (Exit 0)
        else if c = CHR ''t'' then
          if optarg \<in> can_open then Inr (s\<lparr>trace_file := Some optarg\<rparr>) else Inl (Exit 1)
        else if c = CHR ''r'' then Inr (s\<lparr>opt_trace := trace_add (opt_trace s) REGISTERS\<rparr>)
        else if c = CHR ''m'' then Inr (s\<lparr>opt_trace := trace_add (opt_trace s) MEMORY\<rparr>)
        else if c = CHR ''s'' then Inr (s\<lparr>opt_trace := trace_add (opt_trace s) STATE\<rparr>)
        else if c = CHR ''p'' then Inr (s\<lparr>opt_trace := trace_add (opt_trace s) POSITION\<rparr>)
        else if c = CHR ''d'' then bnd (add_debug_to (opt_debug s) optarg) (\<lambda>d. Inr (s\<lparr>opt_debug := d\<rparr>))
        else Inl (Exit 1))"

fun main_options :: "u8 list set \<Rightarrow> options \<Rightarrow> (char \<times> u8 list) list \<Rightarrow> options outcome" where
  "main_options can_open s [] = Inr s"
| "main_options can_open s (opt # opts) = bnd (main_option can_open s opt) (\<lambda>s. main_options can_open s opts)"

section \<open>Exceptions from the network\<close>

text \<open>The inner loop of \<^verbatim>\<open>irq_listener\<close> on one connection, with the results of its reads, and the outer loop over
  the connections that are accepted.\<close>

fun irq_connection :: "cpu \<Rightarrow> read_result list \<Rightarrow> cpu outcome" where
  "irq_connection p [] = Inr p"
| "irq_connection p (r # rs) =
     bnd (Read r) (\<lambda>b. case b of None \<Rightarrow> Inr p | Some irq \<Rightarrow> bnd (arm_exception p irq) (\<lambda>p. irq_connection p rs))"

fun irq_listener :: "cpu \<Rightarrow> read_result list list \<Rightarrow> cpu outcome" where
  "irq_listener p [] = Inr p"
| "irq_listener p (c # cs) = bnd (irq_connection p c) (\<lambda>p. irq_listener p cs)"

section \<open>The sender\<close>

text \<open>The loop \<^verbatim>\<open>while (irq_name && strcmp(irq_name, argv[3]) != 0)\<close>, from the exception number \<open>irq\<close>.\<close>

function find_irq :: "u8 \<Rightarrow> string \<Rightarrow> u8 option outcome" where
  "find_irq irq name =
     bnd (arm_get_exception_name irq) (\<lambda>n.
       case n of
         None \<Rightarrow> Inr None
       | Some s \<Rightarrow> if s \<noteq> name then find_irq (irq + 1) name else Inr (Some irq))"
  by pat_completeness auto
termination
proof (relation "measure (\<lambda>(irq, name). 8 - unat irq)", goal_cases)
  case (2 irq name n s)
  then have "unat irq < 8" by (auto simp: arm_get_exception_name_def word_less_nat_alt split: if_splits)
  moreover from this have "unat (irq + 1) = unat irq + 1" by (simp add: unat_word_ariths)
  ultimately show ?case by simp
qed simp

declare find_irq.simps [simp del]

definition send_irq_main :: "string list \<Rightarrow> u8 outcome" where
  "send_irq_main argv =
     (if length argv < 3 then Inl (Exit 1)
      else if length argv < 4 then Inr 6
      else bnd (find_irq 1 (argv ! 3)) (\<lambda>r. case r of None \<Rightarrow> Inl (Exit 2) | Some irq \<Rightarrow> Inr irq))"

section \<open>The running process\<close>

text \<open>The states of the simulator after the start, as its two threads change them: the debugger thread handles
  a packet, refuses one or sends its last answer again, the exception thread delivers an exception,
  each with the lock held.\<close>

inductive process :: "host \<Rightarrow> bool \<Rightarrow> gdb_protocol_data \<Rightarrow> bool" for h be where
  start: "raw_registers raw \<Longrightarrow> length content = 0x20000 \<Longrightarrow> length pk = MAX_PACKET_SIZE
    \<Longrightarrow> main_init be p0 raw content = Inr p \<Longrightarrow> gdb_init_data p fd (Some pk) = Some g \<Longrightarrow> process h be g"
| packet: "process h be g \<Longrightarrow> gdb_packet_analysis h be junk g pkt = Some (Inr g') \<Longrightarrow> process h be g'"
| refuse: "process h be g \<Longrightarrow> gdb_require_retransmission g = Inr g' \<Longrightarrow> process h be g'"
| resend: "process h be g \<Longrightarrow> gdb_transmit_packet g = Inr g' \<Longrightarrow> process h be g'"
| irq: "process h be g \<Longrightarrow> arm_exception (gdb_arm g) i = Inr p \<Longrightarrow> process h be (g\<lparr>gdb_arm := p\<rparr>)"

inductive_cases processE: "process h be g"

lemma process_inv: "process h be g \<Longrightarrow> gdb_inv 0x20000 g"
proof (induction rule: process.induct)
  case (start raw content pk p0 p fd g)
  then show ?case using main_init_props[of raw content be p0 p] by (auto simp: gdb_inv_def gdb_init_data_def)
next
  case (packet g junk pkt g')
  then show ?case using packet_analysis_keeps by (simp add: gdb_keeps_def)
next
  case (refuse g g')
  then show ?case using writen_keeps by (simp add: gdb_require_retransmission_def gdb_keeps_def)
next
  case (resend g g')
  then show ?case using writen_keeps by (simp add: gdb_transmit_packet_def gdb_keeps_def)
next
  case (irq g i p)
  then show ?case using event_step_inv(1,2)[of "gdb_arm g" h "Irq i" p] by (simp add: gdb_inv_def event_step_def)
qed

text \<open>The texts of the answers to \<open>q\<close>, \<open>?\<close> and \<open>g\<close>; \<open>k\<close> has none.\<close>

definition query_text :: "u8 list \<Rightarrow> u8 list" where
  "query_text s =
     (if s = ascii ''Offsets'' then ascii ''Text=0;Data=0;Bss=0''
      else if s = ascii ''TStatus'' then ascii ''T0;tnotrun:0''
      else if take 9 s = ascii ''Supported'' then ascii ''PacketSize=400''
      else [])"

definition answer_text :: "bool \<Rightarrow> gdb_protocol_data \<Rightarrow> u8 list \<Rightarrow> gdb_handler \<Rightarrow> u8 list option" where
  "answer_text be g data f =
     (case f of
        Query \<Rightarrow> Some (query_text (cstr data))
      | Reason \<Rightarrow> Some (ascii (stop_answer (target_exception g)))
      | Read_General_Registers \<Rightarrow> Some (regs_text be (gdb_arm g))
      | _ \<Rightarrow> None)"

lemma query_sends:
  assumes "length (packet g) = MAX_PACKET_SIZE"
  shows "sends g (query g data) (frame (query_text (cstr data))) (\<lambda>g'. gdb_arm g' = gdb_arm g)"
proof -
  have send: "sends g (gdb_send_data g s) (frame (ascii s)) (\<lambda>g'. gdb_arm g' = gdb_arm g)"
    if "0 \<notin> set (ascii s)" "length s \<le> 1019" for s
    using send_short[OF assms that] by (rule sends_mono) simp
  have "take 9 (ascii ''TStatus'') \<noteq> ascii ''Supported''" by (simp add: ascii_def)
  moreover have "ascii '''' = []" by (simp add: ascii_def)
  ultimately show ?thesis
    using send[of "''Text=0;Data=0;Bss=0''"] send[of "''PacketSize=400''"] send[of "''T0;tnotrun:0''"] send[of "''''"]
    by (auto simp: query_def query_text_def) (simp_all add: ascii_def)
qed

lemma registers_send:
  assumes "gdb_inv n g"
  shows "sends g (read_general_registers h be g) (frame (regs_text be (gdb_arm g))) (\<lambda>g'. gdb_arm g' = gdb_arm g)"
proof -
  obtain g1 where "holds0 g (regs_text be (gdb_arm g)) g1" "read_general_registers h be g = gdb_send_buffer g1"
    using read_registers_holds[of g] assms by (auto simp: gdb_inv_def)
  then show ?thesis using send_holds[of g "regs_text be (gdb_arm g)" g1] regs_text_nonzero by (auto elim: sends_mono)
qed

lemma answers:
  assumes "gdb_inv n g" "answer_text be g data f = Some t"
  shows "\<exists>m. call_handler h be junk f g data = Some m \<and> sends g m (frame t) (\<lambda>g'. gdb_arm g' = gdb_arm g)"
proof -
  have len: "length (packet g) = MAX_PACKET_SIZE" using assms(1) by (simp add: gdb_inv_def)
  have "sends g (reason g) (frame (ascii (stop_answer (target_exception g)))) (\<lambda>g'. gdb_arm g' = gdb_arm g)"
    using stop_reason_sends[OF len] by (auto simp: reason_def elim: sends_mono)
  then show ?thesis
    using assms(2) query_sends[OF len, of data] registers_send[OF assms(1), of h be]
    by (cases f) (auto simp: answer_text_def call_handler_def)
qed

section \<open>Lookup of an exception\<close>

text \<open>The lookup of the sender tries the names of the table in order.\<close>

lemma exception_name: "arm_get_exception_name (of_nat k) = Inr (if k < 8 then arm_exception_names ! k else None)" if "k \<le> 8"
proof -
  have "unat (of_nat k :: u8) = k" using that by (simp add: unsigned_of_nat take_bit_nat_eq_self)
  then show ?thesis by (simp add: arm_get_exception_name_def table_entry_def arm_exception_names_def word_less_nat_alt)
qed

lemma find_irq_eq:
  assumes "0 < k" "k \<le> 8"
  shows "find_irq (of_nat k) name = Inr (map_option (\<lambda>j. of_nat j) (find (\<lambda>j. arm_exception_names ! j = Some name) [k..<8]))"
  using assms
proof (induction "8 - k" arbitrary: k)
  case 0
  then have "k = 8" by simp
  then show ?case using exception_name[of 8] by (subst find_irq.simps) simp
next
  case (Suc n)
  then have k: "k < 8" "n = 8 - Suc k" "Suc k \<le> 8" by simp_all
  have some: "\<exists>s. arm_exception_names ! k = Some s"
    using Suc.prems(1) k(1) by (auto simp: arm_exception_names_def less_Suc_eq numeral_eq_Suc nth_Cons')
  have up: "[k..<8] = k # [Suc k..<8]" using k(1) by (simp add: upt_conv_Cons)
  have nxt: "(of_nat k + 1 :: u8) = of_nat (Suc k)" by simp
  from some obtain s where s: "arm_exception_names ! k = Some s" by blast
  have "find_irq (of_nat k) name = (if s \<noteq> name then find_irq (of_nat (Suc k)) name else Inr (Some (of_nat k)))"
    using exception_name[of k] k s by (subst find_irq.simps) (simp add: nxt del: of_nat_Suc)
  then show ?case using Suc.hyps(1)[OF k(2) _ k(3)] s by (simp add: up del: of_nat_Suc)
qed

lemma irq_connection_exec: "irq_connection p (map Byte bs @ End_Of_File # rs) = exec h p (map Irq bs)"
proof (induction bs arbitrary: p)
  case Nil
  then show ?case by (simp add: Read_def)
next
  case (Cons b bs)
  then show ?case by (cases "arm_exception p b") (simp_all add: Read_def event_step_def)
qed

section \<open>Properties\<close>

text \<open>C4: the whole simulator.  In every state that its threads reach, by any packets from the debugger, good or
  bad, and any exceptions from the network, in any order, the processor is well formed and in
  system mode with its 0x20000 bytes, the packet buffer has its 1024 bytes, and no step leaves an array.  The commands
  \<open>q\<close>, \<open>?\<close> and \<open>g\<close> answer with one packet, whose text is given by the request, the last exception and the registers, and change
  nothing in the processor; if the connection is gone, they end the process instead.  \<open>k\<close> sends nothing and closes the connection: whatever
  is sent after it ends the process by a broken pipe.\<close>

theorem process_safe:
  assumes "process h be g"
  shows "gdb_inv 0x20000 g \<and> mode (reg (gdb_arm g)) = SYS \<and> arm_step h (gdb_arm g) \<noteq> Inl Out_Of_Bounds
    \<and> (\<forall>f \<in> {Query, Reason, Read_General_Registers}. \<forall>data junk. \<exists>t m. answer_text be g data f = Some t
        \<and> call_handler h be junk f g data = Some m
        \<and> (hangup g = None \<longrightarrow> (\<exists>g'. m = Inr g' \<and> sent g' = sent g @ frame t \<and> gdb_arm g' = gdb_arm g))
        \<and> (\<forall>e. hangup g = Some e \<longrightarrow> m = Inl e))
    \<and> (\<forall>data junk. \<exists>g'. call_handler h be junk Kill_Request g data = Some (Inr g') \<and> sent g' = sent g \<and> gdb_arm g' = gdb_arm g
        \<and> hangup g' = Some Broken_Pipe \<and> gdb_send_ack g' = Inl Broken_Pipe)"
proof -
  have inv: "gdb_inv 0x20000 g" by (rule process_inv[OF assms])
  then have sys: "sys_core (gdb_arm g)" by (simp add: gdb_inv_def)
  have "step_stop (gdb_arm g) \<noteq> Some Out_Of_Bounds"
    by (simp add: step_stop_def stop_of_def Let_def split: option.splits)
  then have "arm_step h (gdb_arm g) \<noteq> Inl Out_Of_Bounds"
    using arm_step_eq(2,3)[OF sys, where h = h] by (cases "step_stop (gdb_arm g)") (auto simp: keeps_def returns_def)
  moreover have "\<exists>t m. answer_text be g data f = Some t \<and> call_handler h be junk f g data = Some m
      \<and> (hangup g = None \<longrightarrow> (\<exists>g'. m = Inr g' \<and> sent g' = sent g @ frame t \<and> gdb_arm g' = gdb_arm g))
      \<and> (\<forall>e. hangup g = Some e \<longrightarrow> m = Inl e)" if "f \<in> {Query, Reason, Read_General_Registers}" for f data junk
  proof -
    have "\<exists>t. answer_text be g data f = Some t" using that by (auto simp: answer_text_def)
    then obtain t where t: "answer_text be g data f = Some t" by blast
    from answers[OF inv t, of h junk] show ?thesis using t by (auto simp: sends_def)
  qed
  moreover have "\<exists>g'. call_handler h be junk Kill_Request g data = Some (Inr g') \<and> sent g' = sent g \<and> gdb_arm g' = gdb_arm g
      \<and> hangup g' = Some Broken_Pipe \<and> gdb_send_ack g' = Inl Broken_Pipe" for data junk
    by (simp add: call_handler_def kill_request_def gdb_send_ack_def fd_writen_def hangup_def ascii_def)
  ultimately show ?thesis using inv sys by (simp add: sys_core_def)
qed

theorem process_safe_witness:
  "\<exists>p g g'. main_init False (cpu_machine []) raw_bank (replicate 0x20000 0) = Inr p
     \<and> gdb_init_data p (\<lambda>n. Link_Up) (Some (replicate MAX_PACKET_SIZE 0)) = Some g
     \<and> call_handler x86_host False (\<lambda>i. 0) Query g (ascii ''Offsets'' @ [0]) = Some (Inr g')
     \<and> sent g' = ascii ''$Text=0;Data=0;Bss=0#04''"
proof -
  obtain p where p: "main_init False (cpu_machine []) raw_bank (replicate 0x20000 0) = Inr p"
    using arm_create_total by (auto simp: main_init_def)
  obtain g where g: "gdb_init_data p (\<lambda>n. Link_Up) (Some (replicate MAX_PACKET_SIZE 0)) = Some g" "hangup g = None" "sent g = []"
    by (simp add: gdb_init_data_def hangup_def)
  have "process x86_host False g"
    using p g by (intro process.start[OF raw_bank_ok, of "replicate 0x20000 0"]) simp_all
  note safe = process_safe[OF this, THEN conjunct2, THEN conjunct2, THEN conjunct2, THEN conjunct1, rule_format, of Query "ascii ''Offsets'' @ [0]" "\<lambda>i. 0"]
  have offsets: "frame (query_text (cstr (ascii ''Offsets'' @ [0]))) = ascii ''$Text=0;Data=0;Bss=0#04''" by code_simp
  from safe obtain g' where "call_handler x86_host False (\<lambda>i. 0) Query g (ascii ''Offsets'' @ [0]) = Some (Inr g')"
      "sent g' = frame (query_text (cstr (ascii ''Offsets'' @ [0])))"
    using g(2,3) by (auto simp: answer_text_def)
  then show ?thesis using p g(1) offsets by auto
qed

text \<open>Sending an exception.  \<^verbatim>\<open>send_irq\<close> with the name of an exception sends its number, without a name that of
  an interrupt, and with an unknown name nothing; the bytes of a connection become exceptions of
  the processor in their order.\<close>

theorem irq_delivery:
  shows "(k \<in> {1..7} \<and> arm_exception_names ! k = Some name \<longrightarrow> send_irq_main [prog, host, port, name] = Inr (of_nat k))
    \<and> (Some name \<notin> set arm_exception_names \<longrightarrow> send_irq_main [prog, host, port, name] = Inl (Exit 2))
    \<and> send_irq_main [prog, host, port] = Inr 6
    \<and> irq_connection p (map Byte bs @ End_Of_File # rs) = exec h p (map Irq bs)"
proof -
  have send: "send_irq_main [prog, host, port, name] = (case find (\<lambda>j. arm_exception_names ! j = Some name) [1..<8] of
      None \<Rightarrow> Inl (Exit 2) | Some j \<Rightarrow> Inr (of_nat j))"
    using find_irq_eq[of 1 name] by (simp add: send_irq_main_def split: option.splits)
  have dist: "distinct arm_exception_names" and len: "length arm_exception_names = 8"
    by (simp_all add: arm_exception_names_def)
  have "find (\<lambda>j. arm_exception_names ! j = Some name) [1..<8] = Some k"
    if k: "k \<in> {1..7}" "arm_exception_names ! k = Some name"
  proof -
    obtain j where j: "find (\<lambda>j. arm_exception_names ! j = Some name) [1..<8] = Some j"
      using k by (cases "find (\<lambda>j. arm_exception_names ! j = Some name) [1..<8]") (auto simp: find_None_iff)
    then have "arm_exception_names ! j = Some name" "j < 8" by (auto simp: find_Some_iff)
    then show ?thesis using j k nth_eq_iff_index_eq[OF dist, of j k] len by simp
  qed
  moreover have "find (\<lambda>j. arm_exception_names ! j = Some name) [1..<8] = None"
    if unknown: "Some name \<notin> set arm_exception_names"
  proof -
    have "arm_exception_names ! j \<noteq> Some name" if "j < 8" for j
      using nth_mem[of j arm_exception_names] that unknown len by metis
    then show ?thesis by (auto simp: find_None_iff)
  qed
  ultimately show ?thesis using send irq_connection_exec by (simp add: send_irq_main_def)
qed

theorem irq_delivery_witness:
  "send_irq_main [''send_irq'', ''localhost'', ''4000'', ''data abort''] = Inr 5
   \<and> send_irq_main [''send_irq'', ''localhost'', ''4000'', ''abort''] = Inl (Exit 2)"
  using irq_delivery[of 5 "''data abort''" "''send_irq''" "''localhost''" "''4000''" "cpu_machine []" "[]" "[]" x86_host]
    irq_delivery[of 5 "''abort''" "''send_irq''" "''localhost''" "''4000''" "cpu_machine []" "[]" "[]" x86_host]
  by (simp add: arm_exception_names_def)

end
