(* ===== verification/Threads.thy ===== *)
theory Threads
  imports Process
begin

text \<open>
  The two threads of the simulator with their lock.  In the theory \<open>Process\<close> a packet and an exception are single
  steps; here each thread goes from \<^verbatim>\<open>pthread_mutex_lock\<close> to \<^verbatim>\<open>pthread_mutex_unlock\<close> in several steps, between which
  the other one can run: the debugger thread analyses a packet outside the lock and executes the
  command inside, \<^verbatim>\<open>cont\<close> one pass of its loop at a time; the exception thread writes the CPSR and then
  the PC.  The lock makes this the same as single steps, and it is held as long as a command runs.
\<close>

section \<open>Program points\<close>

text \<open>A packet up to the lock: the part of \<^verbatim>\<open>gdb_packet_analysis\<close> that does not touch the processor.\<close>

datatype front =
    Finished "gdb_protocol_data outcome"
  | Calls gdb_handler "u8 list" gdb_protocol_data

definition packet_front :: "(nat \<Rightarrow> u32) \<Rightarrow> gdb_protocol_data \<Rightarrow> u8 list \<Rightarrow> front" where
  "packet_front junk gdb pkt =
    (let n = length pkt - 1; i = max 1 (n - 3);
         check = sum_list (take (i - 1) (drop 1 pkt));
         given = scan_x (junk 42) (cstr (drop (i + 1) pkt))
     in if ucast check = given then
          case gdb_send_ack gdb of
            Inl e \<Rightarrow> Finished (Inl e)
          | Inr gdb \<Rightarrow>
              let pkt = pkt[i := 0]; index = unat (pkt ! 1)
              in case gdb_init ! index of
                   Some f \<Rightarrow> Calls f (drop 2 pkt) gdb
                 | None \<Rightarrow> Finished (gdb_send_data gdb '''')
        else Finished (gdb_require_retransmission gdb))"

text \<open>One pass of the loop of \<^verbatim>\<open>cont\<close>: whether it ends there, the state and the variable \<^verbatim>\<open>instruction\<close>.\<close>

definition cont_pass :: "host \<Rightarrow> gdb_protocol_data \<Rightarrow> u32 \<Rightarrow> (bool \<times> gdb_protocol_data \<times> u32) outcome" where
  "cont_pass h gdb instruction =
     bnd (arm_read_register (gdb_arm gdb) 15) (\<lambda>r15.
     bnd (arm_read_word h (gdb_arm gdb) (r15 - 4)) (\<lambda>r.
     let instruction = (case r of None \<Rightarrow> instruction | Some v \<Rightarrow> v)
     in if instruction AND 0xFFF000F0 = 0xE7F000F0 then Inr (True, gdb, instruction)
        else bnd (arm_step h (gdb_arm gdb)) (\<lambda>(result, p).
             Inr (False, gdb\<lparr>gdb_arm := p, target_exception := result\<rparr>, instruction))))"

text \<open>Where the threads are: outside, before the lock, inside, and before the unlock.  \<open>junk\<close> are the uninitialised
  variables of the command.\<close>

datatype gdb_pc =
    Gdb_Outside
  | Gdb_Lock "nat \<Rightarrow> u32" gdb_handler "u8 list"
  | Gdb_Cont u32
  | Gdb_Handler "nat \<Rightarrow> u32" gdb_handler "u8 list"
  | Gdb_Unlock

datatype irq_pc =
    Irq_Outside
  | Irq_Lock u8
  | Irq_Enter u8
  | Irq_Cpsr
  | Irq_Unlock

datatype thread = Gdb_Thread | Irq_Thread

record threads =
  shared :: gdb_protocol_data
  holder :: "thread option"
  gdb_at :: gdb_pc
  irq_at :: irq_pc

inductive thread_step :: "host \<Rightarrow> bool \<Rightarrow> thread \<Rightarrow> threads \<Rightarrow> threads \<Rightarrow> bool" for h be where
  gdb_refuse: "gdb_at s = Gdb_Outside \<Longrightarrow> gdb_require_retransmission (shared s) = Inr g
    \<Longrightarrow> thread_step h be Gdb_Thread s (s\<lparr>shared := g\<rparr>)"
| gdb_resend: "gdb_at s = Gdb_Outside \<Longrightarrow> gdb_transmit_packet (shared s) = Inr g
    \<Longrightarrow> thread_step h be Gdb_Thread s (s\<lparr>shared := g\<rparr>)"
| gdb_finish: "gdb_at s = Gdb_Outside \<Longrightarrow> packet_front junk (shared s) pkt = Finished (Inr g)
    \<Longrightarrow> thread_step h be Gdb_Thread s (s\<lparr>shared := g\<rparr>)"
| gdb_call: "gdb_at s = Gdb_Outside \<Longrightarrow> packet_front junk (shared s) pkt = Calls f data g
    \<Longrightarrow> thread_step h be Gdb_Thread s (s\<lparr>shared := g, gdb_at := Gdb_Lock junk f data\<rparr>)"
| gdb_lock: "gdb_at s = Gdb_Lock junk f data \<Longrightarrow> holder s = None
    \<Longrightarrow> thread_step h be Gdb_Thread s (s\<lparr>holder := Some Gdb_Thread,
          gdb_at := (if f = Cont then Gdb_Cont (junk 0) else Gdb_Handler junk f data)\<rparr>)"
| cont_go: "gdb_at s = Gdb_Cont ins \<Longrightarrow> cont_pass h (shared s) ins = Inr (False, g, ins')
    \<Longrightarrow> thread_step h be Gdb_Thread s (s\<lparr>shared := g, gdb_at := Gdb_Cont ins'\<rparr>)"
| cont_end: "gdb_at s = Gdb_Cont ins \<Longrightarrow> cont_pass h (shared s) ins = Inr (True, g, ins') \<Longrightarrow> gdb_send_stop_reason g = Inr g'
    \<Longrightarrow> thread_step h be Gdb_Thread s (s\<lparr>shared := g', gdb_at := Gdb_Unlock\<rparr>)"
| gdb_handle: "gdb_at s = Gdb_Handler junk f data \<Longrightarrow> call_handler h be junk f (shared s) data = Some (Inr g)
    \<Longrightarrow> thread_step h be Gdb_Thread s (s\<lparr>shared := g, gdb_at := Gdb_Unlock\<rparr>)"
| gdb_unlock: "gdb_at s = Gdb_Unlock \<Longrightarrow> thread_step h be Gdb_Thread s (s\<lparr>holder := None, gdb_at := Gdb_Outside\<rparr>)"
| irq_read: "irq_at s = Irq_Outside \<Longrightarrow> thread_step h be Irq_Thread s (s\<lparr>irq_at := Irq_Lock irq\<rparr>)"
| irq_lock: "irq_at s = Irq_Lock irq \<Longrightarrow> holder s = None
    \<Longrightarrow> thread_step h be Irq_Thread s (s\<lparr>holder := Some Irq_Thread, irq_at := Irq_Enter irq\<rparr>)"
| irq_ignore: "irq_at s = Irq_Enter irq \<Longrightarrow> irq \<noteq> 1 \<Longrightarrow> thread_step h be Irq_Thread s (s\<lparr>irq_at := Irq_Unlock\<rparr>)"
| irq_cpsr: "irq_at s = Irq_Enter 1 \<Longrightarrow> arm_write_cpsr (gdb_arm (shared s)) (0x1d3 OR Exception_bit_9) = Inr p
    \<Longrightarrow> thread_step h be Irq_Thread s (s\<lparr>shared := (shared s)\<lparr>gdb_arm := p\<rparr>, irq_at := Irq_Cpsr\<rparr>)"
| irq_pc: "irq_at s = Irq_Cpsr \<Longrightarrow> arm_write_usr_register (gdb_arm (shared s)) 15 0 = Inr p
    \<Longrightarrow> thread_step h be Irq_Thread s (s\<lparr>shared := (shared s)\<lparr>gdb_arm := p\<rparr>, irq_at := Irq_Unlock\<rparr>)"
| irq_unlock: "irq_at s = Irq_Unlock \<Longrightarrow> thread_step h be Irq_Thread s (s\<lparr>holder := None, irq_at := Irq_Outside\<rparr>)"

definition threads_start :: "gdb_protocol_data \<Rightarrow> threads" where
  "threads_start g = \<lparr>shared = g, holder = None, gdb_at = Gdb_Outside, irq_at = Irq_Outside\<rparr>"

inductive running :: "host \<Rightarrow> bool \<Rightarrow> threads \<Rightarrow> bool" for h be where
  start: "raw_registers raw \<Longrightarrow> length content = 0x20000 \<Longrightarrow> length pk = MAX_PACKET_SIZE
    \<Longrightarrow> main_init be p0 raw content = Inr p \<Longrightarrow> gdb_init_data p fd (Some pk) = Some g \<Longrightarrow> running h be (threads_start g)"
| step: "running h be s \<Longrightarrow> thread_step h be t s s' \<Longrightarrow> running h be s'"

section \<open>Packets and passes\<close>

lemma analysis_front:
  "gdb_packet_analysis h be junk g pkt =
     (case packet_front junk g pkt of Finished r \<Rightarrow> Some r | Calls f data g1 \<Rightarrow> call_handler h be junk f g1 data)"
  by (simp add: gdb_packet_analysis_def packet_front_def Let_def split: option.splits sum.splits)

lemma cont_loop_pass:
  "cont_loop h g ins = (case cont_pass h g ins of
      Inl e \<Rightarrow> Some (Inl e)
    | Inr (stop, g', ins') \<Rightarrow> if stop then Some (Inr g') else cont_loop h g' ins')"
  by (subst cont_loop.simps) (simp add: cont_pass_def Let_def split: sum.splits prod.splits)

lemma cont_loop_induct [consumes 1, case_names stop break go]:
  assumes "cont_loop h g ins = Some r"
    and "\<And>g ins e. cont_pass h g ins = Inl e \<Longrightarrow> P g ins (Inl e)"
    and "\<And>g ins g' ins'. cont_pass h g ins = Inr (True, g', ins') \<Longrightarrow> P g ins (Inr g')"
    and "\<And>g ins g' ins' r. cont_pass h g ins = Inr (False, g', ins') \<Longrightarrow> P g' ins' r \<Longrightarrow> P g ins r"
  shows "P g ins r"
proof -
  have "h' = h \<longrightarrow> P g ins r" if "cont_loop h' g ins = Some r" for h'
    using that
  proof (rule cont_loop.raw_induct[where P = "\<lambda>h' g ins r. h' = h \<longrightarrow> P g ins r", rotated], intro impI, goal_cases)
    case (1 f h' g ins r)
    then show ?case
      using assms(2)[of g ins] assms(3)[of g ins] assms(4)[of g ins]
      by (auto simp: cont_pass_def Let_def split: sum.splits prod.splits if_splits)
  qed
  with assms(1) show ?thesis by blast
qed

lemma cont_pass_step:
  "cont_pass h g ins = Inr (False, g', ins') \<Longrightarrow> event_step h (gdb_arm g) Step = Inr (gdb_arm g')"
  by (auto simp: cont_pass_def event_step_def bnd_eq_Inr_iff Let_def split: if_splits)

text \<open>What is outside the lock does not depend on the processor and does not change it.\<close>

lemma fd_writen_arm: "fd_writen g bs = Inr g' \<Longrightarrow> fd_writen (g\<lparr>gdb_arm := p\<rparr>) bs = Inr (g'\<lparr>gdb_arm := p\<rparr>)"
  by (auto simp: fd_writen_def split: if_splits option.splits)

lemma arm_last:
  "g\<lparr>gdb_arm := p, packet := pk\<rparr> = g\<lparr>packet := pk, gdb_arm := p\<rparr>" "g\<lparr>gdb_arm := p, gdb_len := n\<rparr> = g\<lparr>gdb_len := n, gdb_arm := p\<rparr>"
  "g\<lparr>gdb_arm := p, sent := bs\<rparr> = g\<lparr>sent := bs, gdb_arm := p\<rparr>"
  by simp_all

lemma gdb_send_data_arm:
  "gdb_send_data g s = Inr g' \<Longrightarrow> gdb_send_data (g\<lparr>gdb_arm := p\<rparr>) s = Inr (g'\<lparr>gdb_arm := p\<rparr>)"
  using fd_writen_arm[where p = p]
  by (auto simp: gdb_send_data_def buffer_put_def gdb_send_buffer_def gdb_transmit_packet_def bnd_eq_Inr_iff Let_def arm_last)

lemma ack_arm:
  "gdb_send_ack g = Inr g' \<Longrightarrow> gdb_send_ack (g\<lparr>gdb_arm := p\<rparr>) = Inr (g'\<lparr>gdb_arm := p\<rparr>)"
  "gdb_require_retransmission g = Inr g' \<Longrightarrow> gdb_require_retransmission (g\<lparr>gdb_arm := p\<rparr>) = Inr (g'\<lparr>gdb_arm := p\<rparr>)"
  "gdb_transmit_packet g = Inr g' \<Longrightarrow> gdb_transmit_packet (g\<lparr>gdb_arm := p\<rparr>) = Inr (g'\<lparr>gdb_arm := p\<rparr>)"
  using fd_writen_arm[of g _ g' p] by (simp_all add: gdb_send_ack_def gdb_require_retransmission_def gdb_transmit_packet_def)

text \<open>Such an operation keeps the processor: it does not look at it, and would leave it as it was.\<close>

lemma arm_blind_kept: "(\<And>p. f (g\<lparr>gdb_arm := p\<rparr>) = Inr (g'\<lparr>gdb_arm := p\<rparr>)) \<Longrightarrow> f g = Inr g' \<Longrightarrow> gdb_arm g' = gdb_arm g"
  by (metis Inr_inject gdb_protocol_data.select_convs(1) gdb_protocol_data.surjective gdb_protocol_data.update_convs(1))

lemmas blind_kept = arm_blind_kept[of gdb_send_ack, OF ack_arm(1)] arm_blind_kept[of gdb_require_retransmission, OF ack_arm(2)]
  arm_blind_kept[of gdb_transmit_packet, OF ack_arm(3)] arm_blind_kept[of "\<lambda>g. gdb_send_data g s" for s, OF gdb_send_data_arm]

lemma front_arm:
  "packet_front junk g pkt = Finished (Inr g') \<Longrightarrow> packet_front junk (g\<lparr>gdb_arm := p\<rparr>) pkt = Finished (Inr (g'\<lparr>gdb_arm := p\<rparr>))"
  "packet_front junk g pkt = Calls f data g' \<Longrightarrow> packet_front junk (g\<lparr>gdb_arm := p\<rparr>) pkt = Calls f data (g'\<lparr>gdb_arm := p\<rparr>)"
  by (cases "gdb_send_ack g";
      auto simp: packet_front_def Let_def ack_arm gdb_send_data_arm split: if_splits option.splits sum.splits)+

lemma front_kept:
  "packet_front junk g pkt = Finished (Inr g') \<Longrightarrow> gdb_arm g' = gdb_arm g"
  "packet_front junk g pkt = Calls f data g' \<Longrightarrow> gdb_arm g' = gdb_arm g"
  by (auto simp: packet_front_def Let_def blind_kept split: if_splits option.splits sum.splits)

section \<open>The lock\<close>

text \<open>Program points inside the lock.\<close>

definition gdb_inside :: "gdb_pc \<Rightarrow> bool" where
  "gdb_inside c \<longleftrightarrow> (case c of Gdb_Outside \<Rightarrow> False | Gdb_Lock junk f data \<Rightarrow> False | _ \<Rightarrow> True)"

definition irq_inside :: "irq_pc \<Rightarrow> bool" where
  "irq_inside c \<longleftrightarrow> c \<noteq> Irq_Outside \<and> (\<forall>irq. c \<noteq> Irq_Lock irq)"

definition lock_ok :: "threads \<Rightarrow> bool" where
  "lock_ok s \<longleftrightarrow> (gdb_inside (gdb_at s) \<longleftrightarrow> holder s = Some Gdb_Thread) \<and> (irq_inside (irq_at s) \<longleftrightarrow> holder s = Some Irq_Thread)"

text \<open>How the processor \<open>p\<close> of an exception in progress comes from the one at the lock, and how a command in
  progress comes from a state of the process between packets.\<close>

definition irq_progress :: "irq_pc \<Rightarrow> cpu \<Rightarrow> cpu \<Rightarrow> bool" where
  "irq_progress c p0 p \<longleftrightarrow> (if c = Irq_Cpsr then arm_write_cpsr p0 (0x1d3 OR Exception_bit_9) = Inr p else p = p0)"

definition gdb_progress :: "host \<Rightarrow> bool \<Rightarrow> gdb_pc \<Rightarrow> gdb_protocol_data \<Rightarrow> bool" where
  "gdb_progress h be c g \<longleftrightarrow>
     (case c of
        Gdb_Lock junk f data \<Rightarrow> \<exists>g0 pkt. process h be g0 \<and> packet_front junk g0 pkt = Calls f data g
      | Gdb_Handler junk f data \<Rightarrow> f \<noteq> Cont \<and> (\<exists>g0 pkt. process h be g0 \<and> packet_front junk g0 pkt = Calls f data g)
      | Gdb_Cont ins \<Rightarrow> \<exists>g0 pkt junk data g1. process h be g0 \<and> packet_front junk g0 pkt = Calls Cont data g1
          \<and> cont_loop h g1 (junk 0) = cont_loop h g ins
      | _ \<Rightarrow> process h be g)"

definition threads_ok :: "host \<Rightarrow> bool \<Rightarrow> threads \<Rightarrow> bool" where
  "threads_ok h be s \<longleftrightarrow> lock_ok s
     \<and> (\<exists>p0. irq_progress (irq_at s) p0 (gdb_arm (shared s)) \<and> gdb_progress h be (gdb_at s) ((shared s)\<lparr>gdb_arm := p0\<rparr>))"

text \<open>An exception can be taken before a packet or between its analysis and its command.\<close>

lemma gdb_progress_irq:
  assumes "gdb_progress h be c g" "\<not> gdb_inside c" "arm_exception (gdb_arm g) irq = Inr p"
  shows "gdb_progress h be c (g\<lparr>gdb_arm := p\<rparr>)"
proof (cases c)
  case (Gdb_Lock junk f data)
  then obtain g0 pkt where g0: "process h be g0" "packet_front junk g0 pkt = Calls f data g"
    using assms(1) by (auto simp: gdb_progress_def)
  then have "arm_exception (gdb_arm g0) irq = Inr p" using assms(3) front_kept(2) by metis
  then have "process h be (g0\<lparr>gdb_arm := p\<rparr>)" by (rule process.irq[OF g0(1)])
  then show ?thesis using Gdb_Lock front_arm(2)[OF g0(2)] by (auto simp: gdb_progress_def)
qed (use assms process.irq in \<open>auto simp: gdb_progress_def gdb_inside_def\<close>)

lemma inside_simps [simp]:
  "\<not> gdb_inside Gdb_Outside" "\<not> gdb_inside (Gdb_Lock junk f data)" "gdb_inside (Gdb_Cont ins)"
  "gdb_inside (Gdb_Handler junk f data)" "gdb_inside Gdb_Unlock"
  "\<not> irq_inside Irq_Outside" "\<not> irq_inside (Irq_Lock irq)" "irq_inside (Irq_Enter irq)" "irq_inside Irq_Cpsr" "irq_inside Irq_Unlock"
  by (simp_all add: gdb_inside_def irq_inside_def)

lemma gdb_update_arm [simp]: "g\<lparr>gdb_arm := gdb_arm g\<rparr> = g"
  by simp

lemma irq_progress_outside: "\<not> irq_inside c \<Longrightarrow> irq_progress c p0 p \<longleftrightarrow> p = p0"
  by (auto simp: irq_progress_def)

lemma cont_command:
  assumes "packet_front junk g0 pkt = Calls Cont data g1" "cont_loop h g1 (junk 0) = Some (Inr g)" "gdb_send_stop_reason g = Inr g'"
  shows "gdb_packet_analysis h be junk g0 pkt = Some (Inr g')"
  using assms by (simp add: analysis_front call_handler_def cont_def)

lemma outside_step_ok:
  assumes "threads_ok h be s" "gdb_at s = Gdb_Outside" "gdb_arm g = gdb_arm (shared s)"
    and "\<And>p. process h be ((shared s)\<lparr>gdb_arm := p\<rparr>) \<Longrightarrow> process h be (g\<lparr>gdb_arm := p\<rparr>)"
  shows "threads_ok h be (s\<lparr>shared := g\<rparr>)"
  using assms by (auto simp: threads_ok_def lock_ok_def gdb_progress_def)

lemma gdb_outside_ok:
  assumes "threads_ok h be s" "gdb_at s = Gdb_Outside"
  shows "gdb_require_retransmission (shared s) = Inr g \<Longrightarrow> threads_ok h be (s\<lparr>shared := g\<rparr>)"
    and "gdb_transmit_packet (shared s) = Inr g \<Longrightarrow> threads_ok h be (s\<lparr>shared := g\<rparr>)"
    and "packet_front junk (shared s) pkt = Finished (Inr g) \<Longrightarrow> threads_ok h be (s\<lparr>shared := g\<rparr>)"
    and "packet_front junk (shared s) pkt = Calls f data g \<Longrightarrow> threads_ok h be (s\<lparr>shared := g, gdb_at := Gdb_Lock junk f data\<rparr>)"
proof -
  show "threads_ok h be (s\<lparr>shared := g\<rparr>)" if "gdb_require_retransmission (shared s) = Inr g"
    by (rule outside_step_ok[OF assms blind_kept(2)[OF that that]]) (rule process.refuse[OF _ ack_arm(2)[OF that]])
  show "threads_ok h be (s\<lparr>shared := g\<rparr>)" if "gdb_transmit_packet (shared s) = Inr g"
    by (rule outside_step_ok[OF assms blind_kept(3)[OF that that]]) (rule process.resend[OF _ ack_arm(3)[OF that]])
  show "threads_ok h be (s\<lparr>shared := g\<rparr>)" if "packet_front junk (shared s) pkt = Finished (Inr g)"
  proof (rule outside_step_ok[OF assms front_kept(1)[OF that]])
    fix p assume p: "process h be ((shared s)\<lparr>gdb_arm := p\<rparr>)"
    show "process h be (g\<lparr>gdb_arm := p\<rparr>)"
      using front_arm(1)[OF that, of p] by (intro process.packet[OF p, of junk pkt]) (simp add: analysis_front)
  qed
  show "threads_ok h be (s\<lparr>shared := g, gdb_at := Gdb_Lock junk f data\<rparr>)" if c: "packet_front junk (shared s) pkt = Calls f data g"
    using assms front_kept(2)[OF c] front_arm(2)[OF c] by (auto simp: threads_ok_def lock_ok_def gdb_progress_def)
qed

text \<open>With the debugger thread inside, or nobody, the processor is the one at the lock.\<close>

lemma threads_ok_idle: "\<not> irq_inside (irq_at s) \<Longrightarrow> threads_ok h be s \<longleftrightarrow> lock_ok s \<and> gdb_progress h be (gdb_at s) (shared s)"
  by (auto simp: threads_ok_def irq_progress_outside)

lemma gdb_inside_ok:
  assumes ok: "threads_ok h be s"
  shows "gdb_at s = Gdb_Lock junk f data \<Longrightarrow> holder s = None \<Longrightarrow> threads_ok h be (s\<lparr>holder := Some Gdb_Thread,
      gdb_at := (if f = Cont then Gdb_Cont (junk 0) else Gdb_Handler junk f data)\<rparr>)"
    and "gdb_at s = Gdb_Cont ins \<Longrightarrow> cont_pass h (shared s) ins = Inr (False, g, ins')
      \<Longrightarrow> threads_ok h be (s\<lparr>shared := g, gdb_at := Gdb_Cont ins'\<rparr>)"
    and "gdb_at s = Gdb_Cont ins \<Longrightarrow> cont_pass h (shared s) ins = Inr (True, g, ins') \<Longrightarrow> gdb_send_stop_reason g = Inr g'
      \<Longrightarrow> threads_ok h be (s\<lparr>shared := g', gdb_at := Gdb_Unlock\<rparr>)"
    and "gdb_at s = Gdb_Handler junk f data \<Longrightarrow> call_handler h be junk f (shared s) data = Some (Inr g)
      \<Longrightarrow> threads_ok h be (s\<lparr>shared := g, gdb_at := Gdb_Unlock\<rparr>)"
    and "gdb_at s = Gdb_Unlock \<Longrightarrow> threads_ok h be (s\<lparr>holder := None, gdb_at := Gdb_Outside\<rparr>)"
proof -
  have lock: "lock_ok s" using ok by (simp add: threads_ok_def)
  have out: "\<not> irq_inside (irq_at s)" if "holder s = None \<or> gdb_inside (gdb_at s)" using lock that by (auto simp: lock_ok_def)
  note idle = threads_ok_idle[OF out, of h be, THEN iffD1, OF _ ok]
  show "threads_ok h be (s\<lparr>holder := Some Gdb_Thread, gdb_at := (if f = Cont then Gdb_Cont (junk 0) else Gdb_Handler junk f data)\<rparr>)"
    if "gdb_at s = Gdb_Lock junk f data" "holder s = None"
    using idle out that by (auto simp: threads_ok_idle gdb_progress_def lock_ok_def) blast
  show "threads_ok h be (s\<lparr>shared := g, gdb_at := Gdb_Cont ins'\<rparr>)"
    if "gdb_at s = Gdb_Cont ins" "cont_pass h (shared s) ins = Inr (False, g, ins')"
    using idle out that cont_loop_pass[of h "shared s" ins] by (auto simp: threads_ok_idle gdb_progress_def lock_ok_def)
  show "threads_ok h be (s\<lparr>shared := g', gdb_at := Gdb_Unlock\<rparr>)"
    if "gdb_at s = Gdb_Cont ins" "cont_pass h (shared s) ins = Inr (True, g, ins')" "gdb_send_stop_reason g = Inr g'"
    using idle out that cont_loop_pass[of h "shared s" ins] cont_command process.packet
    by (auto simp: threads_ok_idle gdb_progress_def lock_ok_def) metis
  show "threads_ok h be (s\<lparr>shared := g, gdb_at := Gdb_Unlock\<rparr>)"
    if c: "gdb_at s = Gdb_Handler junk f data" "call_handler h be junk f (shared s) data = Some (Inr g)"
  proof -
    obtain g0 pkt where g0: "process h be g0" "packet_front junk g0 pkt = Calls f data (shared s)"
      using idle c(1) by (auto simp: gdb_progress_def)
    then have "process h be g" using c(2) by (intro process.packet[OF g0(1), of junk pkt]) (simp add: analysis_front)
    then show ?thesis using out c(1) lock by (auto simp: threads_ok_idle gdb_progress_def lock_ok_def)
  qed
  show "threads_ok h be (s\<lparr>holder := None, gdb_at := Gdb_Outside\<rparr>)" if "gdb_at s = Gdb_Unlock"
    using idle out that by (auto simp: threads_ok_idle gdb_progress_def lock_ok_def)
qed

lemma irq_step_ok:
  assumes ok: "threads_ok h be s"
  shows "irq_at s = Irq_Outside \<Longrightarrow> threads_ok h be (s\<lparr>irq_at := Irq_Lock irq\<rparr>)"
    and "irq_at s = Irq_Lock irq \<Longrightarrow> holder s = None \<Longrightarrow> threads_ok h be (s\<lparr>holder := Some Irq_Thread, irq_at := Irq_Enter irq\<rparr>)"
    and "irq_at s = Irq_Enter irq \<Longrightarrow> threads_ok h be (s\<lparr>irq_at := Irq_Unlock\<rparr>)"
    and "irq_at s = Irq_Enter 1 \<Longrightarrow> arm_write_cpsr (gdb_arm (shared s)) (0x1d3 OR Exception_bit_9) = Inr p
      \<Longrightarrow> threads_ok h be (s\<lparr>shared := (shared s)\<lparr>gdb_arm := p\<rparr>, irq_at := Irq_Cpsr\<rparr>)"
    and "irq_at s = Irq_Cpsr \<Longrightarrow> arm_write_usr_register (gdb_arm (shared s)) 15 0 = Inr p
      \<Longrightarrow> threads_ok h be (s\<lparr>shared := (shared s)\<lparr>gdb_arm := p\<rparr>, irq_at := Irq_Unlock\<rparr>)"
    and "irq_at s = Irq_Unlock \<Longrightarrow> threads_ok h be (s\<lparr>holder := None, irq_at := Irq_Outside\<rparr>)"
proof -
  show "threads_ok h be (s\<lparr>shared := (shared s)\<lparr>gdb_arm := p\<rparr>, irq_at := Irq_Unlock\<rparr>)"
    if c: "irq_at s = Irq_Cpsr" "arm_write_usr_register (gdb_arm (shared s)) 15 0 = Inr p"
  proof -
    obtain p0 where p0: "arm_write_cpsr p0 (0x1d3 OR Exception_bit_9) = Inr (gdb_arm (shared s))"
        "gdb_progress h be (gdb_at s) ((shared s)\<lparr>gdb_arm := p0\<rparr>)" "\<not> gdb_inside (gdb_at s)" "lock_ok s"
      using ok c(1) by (auto simp: threads_ok_def irq_progress_def lock_ok_def)
    have "arm_exception p0 1 = Inr p" using p0(1) c(2) by (simp add: arm_exception_def)
    then have "gdb_progress h be (gdb_at s) ((shared s)\<lparr>gdb_arm := p\<rparr>)" using gdb_progress_irq[OF p0(2,3), of 1 p] by simp
    then show ?thesis using p0(4) c(1) by (auto simp: threads_ok_def irq_progress_def lock_ok_def)
  qed
qed (use ok in \<open>auto simp: threads_ok_def irq_progress_def lock_ok_def\<close>)

lemma thread_step_ok: "thread_step h be t s s' \<Longrightarrow> threads_ok h be s \<Longrightarrow> threads_ok h be s'"
  by (erule thread_step.cases) (simp_all only: gdb_outside_ok gdb_inside_ok irq_step_ok)

lemma running_ok: "running h be s \<Longrightarrow> threads_ok h be s"
proof (induction rule: running.induct)
  case (start raw content pk p0 p fd g)
  then show ?case
    using process.start[OF start] by (simp add: threads_ok_idle threads_start_def lock_ok_def gdb_progress_def)
next
  case (step s t s')
  then show ?case using thread_step_ok by blast
qed

section \<open>Single steps as runs of the threads\<close>

lemma running_cont:
  assumes "cont_loop h g ins = Some r" "r = Inr g'" "running h be s" "shared s = g" "gdb_at s = Gdb_Cont ins"
  shows "\<exists>g1 i1 i2. running h be (s\<lparr>shared := g1, gdb_at := Gdb_Cont i1\<rparr>) \<and> cont_pass h g1 i1 = Inr (True, g', i2)"
  using assms
proof (induction arbitrary: s rule: cont_loop_induct)
  case (stop g ins e)
  then show ?case by simp
next
  case (break g ins g1 ins1)
  have "s\<lparr>shared := g, gdb_at := Gdb_Cont ins\<rparr> = s" using break.prems(3,4) by simp
  then show ?case using break.prems(1,2) break.hyps by (intro exI[of _ g] exI[of _ ins] exI[of _ ins1]) auto
next
  case (go g ins g1 ins1 r)
  let ?s = "s\<lparr>shared := g1, gdb_at := Gdb_Cont ins1\<rparr>"
  have "running h be ?s" using running.step[OF go.prems(2) thread_step.cont_go] go.prems(3,4) go.hyps(1) by simp
  then show ?case using go.IH[of ?s] go.prems(1) by simp
qed

text \<open>From a quiet state to the next one by a packet and by an exception.\<close>

lemma running_packet:
  assumes run: "running h be (threads_start g)" and a: "gdb_packet_analysis h be junk g pkt = Some (Inr g')"
  shows "running h be (threads_start g')"
proof (cases "packet_front junk g pkt")
  case (Finished r)
  then show ?thesis
    using running.step[OF run thread_step.gdb_finish[of _ junk pkt g']] a by (simp add: analysis_front threads_start_def)
next
  case (Calls f data g1)
  let ?s = "\<lparr>shared = g1, holder = Some Gdb_Thread, gdb_at = (if f = Cont then Gdb_Cont (junk 0) else Gdb_Handler junk f data),
      irq_at = Irq_Outside\<rparr>"
  have call: "running h be \<lparr>shared = g1, holder = None, gdb_at = Gdb_Lock junk f data, irq_at = Irq_Outside\<rparr>"
    using running.step[OF run thread_step.gdb_call[of "threads_start g" junk pkt f data g1]] Calls by (simp add: threads_start_def)
  have lock: "running h be ?s" using running.step[OF call thread_step.gdb_lock[of _ junk f data]] by simp
  have ret: "running h be (?s\<lparr>shared := g', gdb_at := Gdb_Unlock\<rparr>)"
  proof (cases "f = Cont")
    case True
    obtain g2 where g2: "cont_loop h g1 (junk 0) = Some (Inr g2)" "gdb_send_stop_reason g2 = Inr g'"
      using a True Calls by (auto simp: analysis_front call_handler_def cont_def bnd_eq_Inr_iff split: option.splits)
    obtain g3 i1 i2 where g3: "running h be (?s\<lparr>shared := g3, gdb_at := Gdb_Cont i1\<rparr>)" "cont_pass h g3 i1 = Inr (True, g2, i2)"
      using running_cont[OF g2(1) refl lock] True by auto
    show ?thesis using running.step[OF g3(1) thread_step.cont_end] g3(2) g2(2) by simp
  next
    case False
    then show ?thesis using running.step[OF lock thread_step.gdb_handle] a Calls by (simp add: analysis_front)
  qed
  from running.step[OF ret thread_step.gdb_unlock] show ?thesis by (simp add: threads_start_def)
qed

lemma running_irq:
  assumes run: "running h be (threads_start g)" and a: "arm_exception (gdb_arm g) irq = Inr p"
  shows "running h be (threads_start (g\<lparr>gdb_arm := p\<rparr>))"
proof -
  let ?s = "\<lambda>g c. \<lparr>shared = g, holder = Some Irq_Thread, gdb_at = Gdb_Outside, irq_at = c\<rparr>"
  have rd: "running h be \<lparr>shared = g, holder = None, gdb_at = Gdb_Outside, irq_at = Irq_Lock irq\<rparr>"
    using running.step[OF run thread_step.irq_read[of _ h be irq]] by (simp add: threads_start_def)
  have enter: "running h be (?s g (Irq_Enter irq))" using running.step[OF rd thread_step.irq_lock[of _ irq]] by simp
  have ret: "running h be (?s (g\<lparr>gdb_arm := p\<rparr>) Irq_Unlock)"
  proof (cases "irq = 1")
    case True
    then obtain p1 where p1: "arm_write_cpsr (gdb_arm g) (0x1d3 OR Exception_bit_9) = Inr p1" "arm_write_usr_register p1 15 0 = Inr p"
      using a by (auto simp: arm_exception_def bnd_eq_Inr_iff)
    have "running h be (?s (g\<lparr>gdb_arm := p1\<rparr>) Irq_Cpsr)"
      using running.step[OF enter thread_step.irq_cpsr] p1(1) True by simp
    from running.step[OF this thread_step.irq_pc] show ?thesis using p1(2) by simp
  next
    case False
    then have "p = gdb_arm g" using a by (simp add: arm_exception_def split: if_splits)
    then show ?thesis using running.step[OF enter thread_step.irq_ignore] False by simp
  qed
  from running.step[OF ret thread_step.irq_unlock] show ?thesis by (simp add: threads_start_def)
qed

lemma running_process: "process h be g \<Longrightarrow> running h be (threads_start g)"
proof (induction rule: process.induct)
  case (start raw content pk p0 p fd g)
  then show ?case by (rule running.start)
next
  case (packet g junk pkt g')
  then show ?case using running_packet by blast
next
  case (refuse g g')
  then show ?case using running.step[OF refuse.IH thread_step.gdb_refuse] by (simp add: threads_start_def)
next
  case (resend g g')
  then show ?case using running.step[OF resend.IH thread_step.gdb_resend] by (simp add: threads_start_def)
next
  case (irq g i p)
  then show ?case using running_irq by blast
qed

section \<open>The holder of the lock goes on\<close>

text \<open>The command in progress ends the process.\<close>

definition gdb_stops :: "host \<Rightarrow> bool \<Rightarrow> threads \<Rightarrow> stop \<Rightarrow> bool" where
  "gdb_stops h be s e \<longleftrightarrow>
     (case gdb_at s of
        Gdb_Cont ins \<Rightarrow> cont_pass h (shared s) ins = Inl e
          \<or> (\<exists>g ins'. cont_pass h (shared s) ins = Inr (True, g, ins') \<and> gdb_send_stop_reason g = Inl e)
      | Gdb_Handler junk f data \<Rightarrow> call_handler h be junk f (shared s) data = Some (Inl e)
      | _ \<Rightarrow> False)"

lemma progress_core:
  assumes "gdb_progress h be c g" "\<not> gdb_inside c"
  shows "sys_core (gdb_arm g)"
proof (cases c)
  case (Gdb_Lock junk f data)
  then obtain g0 pkt where "process h be g0" "packet_front junk g0 pkt = Calls f data g"
    using assms(1) by (auto simp: gdb_progress_def)
  then show ?thesis using process_inv front_kept(2) by (fastforce simp: gdb_inv_def)
qed (use assms process_inv in \<open>fastforce simp: gdb_progress_def gdb_inside_def gdb_inv_def\<close>)+

lemma irq_goes_on:
  assumes ok: "threads_ok h be s" and "holder s = Some Irq_Thread"
  shows "\<exists>s'. thread_step h be Irq_Thread s s'"
proof -
  have inside: "irq_inside (irq_at s)" "\<not> gdb_inside (gdb_at s)" using assms by (auto simp: threads_ok_def lock_ok_def)
  obtain p0 where p0: "irq_progress (irq_at s) p0 (gdb_arm (shared s))" "gdb_progress h be (gdb_at s) ((shared s)\<lparr>gdb_arm := p0\<rparr>)"
    using ok by (auto simp: threads_ok_def)
  have wf: "wf_core p0" using progress_core[OF p0(2) inside(2)] by (simp add: sys_core_def)
  show ?thesis
  proof (cases "irq_at s")
    case (Irq_Enter irq)
    then have "p0 = gdb_arm (shared s)" using p0(1) by (simp add: irq_progress_def)
    then have "\<exists>p. arm_write_cpsr (gdb_arm (shared s)) (0x1d3 OR Exception_bit_9) = Inr p" using wf by (simp add: core_eqs)
    then show ?thesis using Irq_Enter by (cases "irq = 1") (auto intro: thread_step.irq_cpsr thread_step.irq_ignore)
  next
    case Irq_Cpsr
    then have "gdb_arm (shared s) = rset p0 16 (0x1d3 OR Exception_bit_9)" using p0(1) wf by (simp add: irq_progress_def core_eqs)
    then have "\<exists>p. arm_write_usr_register (gdb_arm (shared s)) 15 0 = Inr p" using wf by (simp add: core_eqs)
    then show ?thesis using Irq_Cpsr by (auto intro: thread_step.irq_pc)
  qed (use inside in \<open>auto intro: thread_step.irq_unlock\<close>)
qed

lemma gdb_goes_on:
  assumes "threads_ok h be s" "holder s = Some Gdb_Thread"
  shows "(\<exists>s'. thread_step h be Gdb_Thread s s') \<or> (\<exists>e. gdb_stops h be s e)"
proof (cases "gdb_at s")
  case (Gdb_Cont ins)
  show ?thesis
  proof (cases "cont_pass h (shared s) ins")
    case (Inr r)
    obtain b g ins' where r: "r = (b, g, ins')" by (cases r)
    show ?thesis
    proof (cases b)
      case True
      then show ?thesis
        using Inr r Gdb_Cont by (cases "gdb_send_stop_reason g") (auto simp: gdb_stops_def intro: thread_step.cont_end)
    next
      case False
      then show ?thesis using Inr r Gdb_Cont by (auto intro: thread_step.cont_go)
    qed
  qed (use Gdb_Cont in \<open>auto simp: gdb_stops_def\<close>)
next
  case (Gdb_Handler junk f data)
  then have "f \<noteq> Cont" using assms(1) by (auto simp: threads_ok_def gdb_progress_def)
  then obtain r where "call_handler h be junk f (shared s) data = Some r" by (cases f) (simp_all add: call_handler_def)
  then show ?thesis using thread_step.gdb_handle[OF Gdb_Handler] Gdb_Handler by (cases r) (auto simp: gdb_stops_def)
next
  case Gdb_Unlock
  then show ?thesis by (auto intro: thread_step.gdb_unlock)
qed (use assms in \<open>auto simp: threads_ok_def lock_ok_def\<close>)

section \<open>A program that does not end\<close>

text \<open>\<^verbatim>\<open>B .\<close>, a branch to itself.\<close>

definition spinning :: "cpu \<Rightarrow> bool" where
  "spinning p \<longleftrightarrow> sys_core p \<and> \<not> bit (rget p 15) 1 \<and> word_at (mem p) (rget p 15) = Some 0xEAFFFFFE"

lemma spinning_step:
  assumes "spinning p"
  shows "\<exists>p'. arm_step h p = Inr (0, p') \<and> spinning p'"
proof -
  have "get_bits 0xEAFFFFFE 31 28 = 14" "get_bits 0xEAFFFFFE 27 25 = 5" "branch_offset 0xEAFFFFFE = - 8"
    by code_simp+
  then show ?thesis
    using assms
    by (simp add: spinning_def step_to_dispatch dispatch_def cond_passes_def arm_branch_eq rget_rset pc_view_next Let_def)
qed

lemma spinning_pass:
  assumes "spinning (gdb_arm g)"
  shows "\<exists>g'. cont_pass h g ins = Inr (False, g', 0xEAFFFFFE) \<and> spinning (gdb_arm g')"
proof -
  obtain p' where p': "arm_step h (gdb_arm g) = Inr (0, p')" "spinning p'" using spinning_step[OF assms] by blast
  have "fetch_addr (gdb_arm g) = rget (gdb_arm g) 15" using assms by (simp add: fetch_addr_def spinning_def pc_view_eq)
  then show ?thesis
    using assms p' by (simp add: cont_pass_def spinning_def core_eqs rview_def flip: fetch_addr_def)
qed

lemma cont_loop_spins:
  assumes "spinning (gdb_arm g)"
  shows "cont_loop h g ins = None"
proof (rule ccontr)
  assume "cont_loop h g ins \<noteq> None"
  then obtain r where "cont_loop h g ins = Some r" by blast
  then show False
    using assms
  proof (induction rule: cont_loop_induct)
    case (stop g ins e)
    then show ?case using spinning_pass[of g h ins] by auto
  next
    case (break g ins g' ins')
    then show ?case using spinning_pass[of g h ins] by auto
  next
    case (go g ins g' ins' r)
    then show ?case using spinning_pass[of g h ins] by auto
  qed
qed

section \<open>Properties\<close>

text \<open>C5: the lock.  In every state of the two threads, step by step, a thread is between lock and unlock exactly
  when it holds the lock, so never both; whoever holds it can go on, unless a command of the debugger ends
  the process; and when neither is inside and no packet is half analysed, the state is one that the
  process reaches by whole packets and whole exceptions.  All of those are reached.\<close>

theorem lock_makes_atomic:
  shows "(running h be s \<longrightarrow>
        (gdb_inside (gdb_at s) \<longleftrightarrow> holder s = Some Gdb_Thread) \<and> (irq_inside (irq_at s) \<longleftrightarrow> holder s = Some Irq_Thread)
      \<and> (holder s = Some Irq_Thread \<longrightarrow> (\<exists>s'. thread_step h be Irq_Thread s s'))
      \<and> (holder s = Some Gdb_Thread \<longrightarrow> (\<exists>s'. thread_step h be Gdb_Thread s s') \<or> (\<exists>e. gdb_stops h be s e))
      \<and> (gdb_at s = Gdb_Outside \<and> \<not> irq_inside (irq_at s) \<longrightarrow> process h be (shared s)))
    \<and> (process h be g \<longleftrightarrow> running h be (threads_start g))"
proof -
  have quiet: "process h be (shared s)" if "running h be s" "gdb_at s = Gdb_Outside" "\<not> irq_inside (irq_at s)" for s
    using running_ok[OF that(1)] that(2) threads_ok_idle[OF that(3)] by (simp add: gdb_progress_def)
  have "process h be g" if "running h be (threads_start g)" using quiet[OF that] by (simp add: threads_start_def)
  moreover have "lock_ok s" if "running h be s" using running_ok[OF that] by (simp add: threads_ok_def)
  ultimately show ?thesis
    using quiet running_process irq_goes_on[OF running_ok] gdb_goes_on[OF running_ok] by (auto simp: lock_ok_def)
qed

theorem lock_makes_atomic_witness:
  "\<exists>g s. running x86_host False s \<and> irq_at s = Irq_Lock 1 \<and> shared s = g \<and> process x86_host False g"
proof -
  obtain p where p: "main_init False (cpu_machine []) raw_bank (replicate 0x20000 0) = Inr p"
    using arm_create_total by (auto simp: main_init_def)
  let ?g = "the (gdb_init_data p (\<lambda>n. Link_Up) (Some (replicate MAX_PACKET_SIZE 0)))"
  have "gdb_init_data p (\<lambda>n. Link_Up) (Some (replicate MAX_PACKET_SIZE 0)) = Some ?g" by (simp add: gdb_init_data_def)
  then have "running x86_host False (threads_start ?g)"
    using p by (intro running.start[OF raw_bank_ok, of "replicate 0x20000 0"]) simp_all
  from running.step[OF this thread_step.irq_read[of _ x86_host False 1]]
  have run: "running x86_host False ((threads_start ?g)\<lparr>irq_at := Irq_Lock 1\<rparr>)" by (simp add: threads_start_def)
  then have "process x86_host False (shared ((threads_start ?g)\<lparr>irq_at := Irq_Lock 1\<rparr>))"
    using lock_makes_atomic[of x86_host False "(threads_start ?g)\<lparr>irq_at := Irq_Lock 1\<rparr>" ?g] by (simp add: threads_start_def)
  then show ?thesis using run by (intro exI[of _ "shared ((threads_start ?g)\<lparr>irq_at := Irq_Lock 1\<rparr>)"] exI[of _ "(threads_start ?g)\<lparr>irq_at := Irq_Lock 1\<rparr>"]) simp
qed

text \<open>C11: a running program cannot be interrupted.  If the loop of \<^verbatim>\<open>cont\<close> does not come back from where it is, then in
  every later state the debugger thread still holds the lock and is in this loop, the exception thread is not
  inside, and the processor is where steps alone have brought it: no exception has been taken.\<close>

theorem cont_blocks_exceptions:
  assumes "lock_ok s" and "gdb_at s = Gdb_Cont ins" and "cont_loop h (shared s) ins = None"
    and "(\<lambda>s s'. \<exists>t. thread_step h be t s s')\<^sup>*\<^sup>* s s'"
  shows "holder s' = Some Gdb_Thread \<and> \<not> irq_inside (irq_at s') \<and> (\<exists>ins'. gdb_at s' = Gdb_Cont ins')
    \<and> (\<exists>k. exec h (gdb_arm (shared s)) (replicate k Step) = Inr (gdb_arm (shared s')))"
proof -
  have "lock_ok s' \<and> (\<exists>ins'. gdb_at s' = Gdb_Cont ins' \<and> cont_loop h (shared s') ins' = None)
    \<and> (\<exists>k. exec h (gdb_arm (shared s)) (replicate k Step) = Inr (gdb_arm (shared s')))"
    using assms(4)
  proof (induction rule: rtranclp_induct)
    case base
    have "exec h (gdb_arm (shared s)) (replicate 0 Step) = Inr (gdb_arm (shared s))" by simp
    then show ?case using assms(1-3) by blast
  next
    case (step y z)
    then obtain t ins' k where y: "thread_step h be t y z" "lock_ok y" "gdb_at y = Gdb_Cont ins'" "cont_loop h (shared y) ins' = None"
        "exec h (gdb_arm (shared s)) (replicate k Step) = Inr (gdb_arm (shared y))" by blast
    have lock: "holder y = Some Gdb_Thread" "\<not> irq_inside (irq_at y)" using y(2,3) by (auto simp: lock_ok_def)
    from y(1) show ?case
    proof (cases rule: thread_step.cases)
      case (cont_go i g i')
      then have "cont_loop h g i' = None" using y(3,4) cont_loop_pass[of h "shared y" ins'] by simp
      moreover have "replicate (Suc k) Step = replicate k Step @ [Step]" by (simp add: replicate_append_same)
      then have "exec h (gdb_arm (shared s)) (replicate (Suc k) Step) = Inr (gdb_arm g)"
        using cont_pass_step[OF cont_go(4)] y(5) by (simp only: exec_append) simp
      ultimately show ?thesis using cont_go y(2,3) lock(1) by (auto simp: lock_ok_def simp del: replicate_Suc)
    next
      case (irq_read irq)
      then show ?thesis using y lock by (auto simp: lock_ok_def)
    qed (use y lock cont_loop_pass[of h "shared y" ins'] in auto)
  qed
  then show ?thesis by (auto simp: lock_ok_def)
qed

theorem cont_blocks_exceptions_witness:
  "\<exists>s'. (\<lambda>s s'. \<exists>t. thread_step x86_host False t s s')\<^sup>*\<^sup>*
      \<lparr>shared = gdb_machine [0xFE, 0xFF, 0xFF, 0xEA], holder = Some Gdb_Thread, gdb_at = Gdb_Cont 0, irq_at = Irq_Outside\<rparr> s'
    \<and> irq_at s' = Irq_Lock 1 \<and> holder s' = Some Gdb_Thread"
proof -
  let ?g = "gdb_machine [0xFE, 0xFF, 0xFF, 0xEA]"
  let ?s = "\<lparr>shared = ?g, holder = Some Gdb_Thread, gdb_at = Gdb_Cont 0, irq_at = Irq_Outside\<rparr>"
  have "word_at (mem (gdb_arm ?g)) (rget (gdb_arm ?g) 15) = Some 0xEAFFFFFE" "\<not> bit (rget (gdb_arm ?g) 15) 1" by code_simp+
  then have none: "cont_loop x86_host (shared ?s) 0 = None"
    by (simp add: cont_loop_spins spinning_def sys_core_cpu_machine)
  have "thread_step x86_host False Irq_Thread ?s (?s\<lparr>irq_at := Irq_Lock 1\<rparr>)" by (intro thread_step.irq_read) simp
  then have steps: "(\<lambda>s s'. \<exists>t. thread_step x86_host False t s s')\<^sup>*\<^sup>* ?s (?s\<lparr>irq_at := Irq_Lock 1\<rparr>)" by blast
  have "lock_ok ?s" by (simp add: lock_ok_def)
  from cont_blocks_exceptions[OF this _ none steps] steps show ?thesis by auto
qed

end
