(* ===== verification/Network.thy ===== *)
theory Network
  imports Process
begin

text \<open>
  The network side of the two programs: \<^verbatim>\<open>create_server\<close>, \<^verbatim>\<open>gdb_listener\<close> and \<^verbatim>\<open>irq_listener\<close> of
  \<^verbatim>\<open>arm_simulator.c\<close>, the whole of \<^verbatim>\<open>send_irq.c\<close>, and the socket wrappers and helpers of \<^verbatim>\<open>csapp.c\<close>.

  The system calls are a parameter, the record \<open>kernel\<close> of functions on a system state.  What the
  programs rely on is the predicate \<open>net_ok\<close>: the documented behaviour of stream sockets, seen
  through a \<open>wire\<close>, which says which connections wait at a port and which bytes are under way.
  Every call may also fail.
\<close>

section \<open>Addresses and system calls\<close>

abbreviation (input) AF_INET :: u16 where "AF_INET \<equiv> 2"

abbreviation (input) INADDR_ANY :: u32 where "INADDR_ANY \<equiv> 0"

abbreviation (input) LISTENQ :: nat where "LISTENQ \<equiv> 1024"

record sockaddr_in =
  sin_family :: u16
  sin_port :: u16
  s_addr :: u32

definition htons :: "host \<Rightarrow> u16 \<Rightarrow> u16" where
  "htons h x = (if host_big h then x else push_bit 8 x OR drop_bit 8 x)"

abbreviation (input) ntohs :: "host \<Rightarrow> u16 \<Rightarrow> u16" where "ntohs \<equiv> htons"

text \<open>A call gives an error number or a result.  Sockets are stream sockets, the only option that is set
  is \<^verbatim>\<open>SO_REUSEADDR\<close>; a host name stands for an address in network order, or for none; \<^verbatim>\<open>read\<close> asks for one
  byte; the results of \<^verbatim>\<open>shutdown\<close> and \<^verbatim>\<open>close\<close> are not looked at.\<close>

record 'os kernel =
  k_socket :: "'os \<Rightarrow> (int + nat) \<times> 'os"
  k_setsockopt :: "'os \<Rightarrow> nat \<Rightarrow> (int + unit) \<times> 'os"
  k_bind :: "'os \<Rightarrow> nat \<Rightarrow> sockaddr_in \<Rightarrow> (int + unit) \<times> 'os"
  k_getsockname :: "'os \<Rightarrow> nat \<Rightarrow> int + sockaddr_in"
  k_listen :: "'os \<Rightarrow> nat \<Rightarrow> nat \<Rightarrow> (int + unit) \<times> 'os"
  k_accept :: "'os \<Rightarrow> nat \<Rightarrow> (int + nat) \<times> 'os"
  k_connect :: "'os \<Rightarrow> nat \<Rightarrow> sockaddr_in \<Rightarrow> (int + unit) \<times> 'os"
  k_gethostbyname :: "'os \<Rightarrow> string \<Rightarrow> u32 option"
  k_read :: "'os \<Rightarrow> nat \<Rightarrow> read_result \<times> 'os"
  k_write :: "'os \<Rightarrow> nat \<Rightarrow> u8 list \<Rightarrow> (int + nat) \<times> 'os"
  k_shutdown :: "'os \<Rightarrow> nat \<Rightarrow> 'os"
  k_close :: "'os \<Rightarrow> nat \<Rightarrow> 'os"

section \<open>Wrappers\<close>

definition dns_error :: "'a outcome" where
  "dns_error = Inl (Exit 0)"

text \<open>The common body of the wrappers: \<^verbatim>\<open>if ((rc = f(...)) < 0) unix_error(...); return rc;\<close>\<close>

definition checked :: "(int + 'a) \<times> 'os \<Rightarrow> ('a \<times> 'os) outcome" where
  "checked r = (case r of (Inl e, os) \<Rightarrow> unix_error | (Inr v, os) \<Rightarrow> Inr (v, os))"

definition Socket :: "'os kernel \<Rightarrow> 'os \<Rightarrow> (nat \<times> 'os) outcome" where
  "Socket k os = checked (k_socket k os)"

definition Setsockopt :: "'os kernel \<Rightarrow> 'os \<Rightarrow> nat \<Rightarrow> (unit \<times> 'os) outcome" where
  "Setsockopt k os s = checked (k_setsockopt k os s)"

definition Bind :: "'os kernel \<Rightarrow> 'os \<Rightarrow> nat \<Rightarrow> sockaddr_in \<Rightarrow> (unit \<times> 'os) outcome" where
  "Bind k os s addr = checked (k_bind k os s addr)"

definition Listen :: "'os kernel \<Rightarrow> 'os \<Rightarrow> nat \<Rightarrow> nat \<Rightarrow> (unit \<times> 'os) outcome" where
  "Listen k os s backlog = checked (k_listen k os s backlog)"

definition Accept :: "'os kernel \<Rightarrow> 'os \<Rightarrow> nat \<Rightarrow> (nat \<times> 'os) outcome" where
  "Accept k os s = checked (k_accept k os s)"

definition Connect :: "'os kernel \<Rightarrow> 'os \<Rightarrow> nat \<Rightarrow> sockaddr_in \<Rightarrow> (unit \<times> 'os) outcome" where
  "Connect k os s addr = checked (k_connect k os s addr)"

definition Gethostbyname :: "'os kernel \<Rightarrow> 'os \<Rightarrow> string \<Rightarrow> u32 outcome" where
  "Gethostbyname k os name = (case k_gethostbyname k os name of None \<Rightarrow> dns_error | Some a \<Rightarrow> Inr a)"

definition Write :: "'os kernel \<Rightarrow> 'os \<Rightarrow> nat \<Rightarrow> u8 list \<Rightarrow> (nat \<times> 'os) outcome" where
  "Write k os s buf = checked (k_write k os s buf)"

text \<open>The client/server helpers: a descriptor, \<open>-1\<close> for an error of a system call, \<open>-2\<close> for an unknown host.\<close>

definition open_clientfd :: "'os kernel \<Rightarrow> host \<Rightarrow> 'os \<Rightarrow> string \<Rightarrow> u32 \<Rightarrow> int \<times> 'os" where
  "open_clientfd k h os hostname port =
     (case k_socket k os of
        (Inl e, os) \<Rightarrow> (- 1, os)
      | (Inr clientfd, os) \<Rightarrow>
          (case k_gethostbyname k os hostname of
             None \<Rightarrow> (- 2, os)
           | Some a \<Rightarrow>
               (case k_connect k os clientfd \<lparr>sin_family = AF_INET, sin_port = htons h (ucast port), s_addr = a\<rparr> of
                  (Inl e, os) \<Rightarrow> (- 1, os)
                | (Inr u, os) \<Rightarrow> (int clientfd, os))))"

definition open_listenfd :: "'os kernel \<Rightarrow> host \<Rightarrow> 'os \<Rightarrow> u32 \<Rightarrow> int \<times> 'os" where
  "open_listenfd k h os port =
     (case k_socket k os of
        (Inl e, os) \<Rightarrow> (- 1, os)
      | (Inr listenfd, os) \<Rightarrow>
          (case k_setsockopt k os listenfd of
             (Inl e, os) \<Rightarrow> (- 1, os)
           | (Inr u, os) \<Rightarrow>
               (case k_bind k os listenfd \<lparr>sin_family = AF_INET, sin_port = htons h (ucast port), s_addr = INADDR_ANY\<rparr> of
                  (Inl e, os) \<Rightarrow> (- 1, os)
                | (Inr u, os) \<Rightarrow>
                    (case k_listen k os listenfd LISTENQ of
                       (Inl e, os) \<Rightarrow> (- 1, os)
                     | (Inr u, os) \<Rightarrow> (int listenfd, os)))))"

definition Open_clientfd :: "'os kernel \<Rightarrow> host \<Rightarrow> 'os \<Rightarrow> string \<Rightarrow> u32 \<Rightarrow> (int \<times> 'os) outcome" where
  "Open_clientfd k h os hostname port =
    (let (rc, os) = open_clientfd k h os hostname port
     in if rc < 0 then if rc = - 1 then unix_error else dns_error else Inr (rc, os))"

definition Open_listenfd :: "'os kernel \<Rightarrow> host \<Rightarrow> 'os \<Rightarrow> u32 \<Rightarrow> (int \<times> 'os) outcome" where
  "Open_listenfd k h os port =
    (let (rc, os) = open_listenfd k h os port in if rc < 0 then unix_error else Inr (rc, os))"

section \<open>The servers\<close>

record server_data =
  socket :: nat
  port :: u16

definition create_server :: "'os kernel \<Rightarrow> host \<Rightarrow> 'os \<Rightarrow> u16 \<Rightarrow> (server_data \<times> 'os) outcome" where
  "create_server k h os p =
     bnd (Socket k os) (\<lambda>(s, os).
     bnd (Setsockopt k os s) (\<lambda>(u, os).
     let addr = \<lparr>sin_family = AF_INET, sin_port = htons h p, s_addr = INADDR_ANY\<rparr>
     in bnd (Bind k os s addr) (\<lambda>(u, os).
        let addr = (case k_getsockname k os s of Inl e \<Rightarrow> addr | Inr a \<Rightarrow> a);
            result = \<lparr>socket = s, port = ntohs h (sin_port addr)\<rparr>
        in bnd (Listen k os s 1) (\<lambda>(u, os). Inr (result, os)))))"

text \<open>The debugger thread: the announced port, the state of the session and the system.  \<open>input\<close> is what the
  debugger sends on a connection, if a stream can be opened on it, and \<open>peer\<close> what writes to it meet; the answers are in the state
  of the session.  \<open>m\<close> is the storage for that state.\<close>

definition gdb_listener ::
    "'os kernel \<Rightarrow> ('os \<Rightarrow> nat \<Rightarrow> u8 list option) \<Rightarrow> ('os \<Rightarrow> nat \<Rightarrow> nat \<Rightarrow> link) \<Rightarrow> host \<Rightarrow> bool \<Rightarrow> (nat \<Rightarrow> nat \<Rightarrow> u32) \<Rightarrow> 'os \<Rightarrow> u16
      \<Rightarrow> cpu \<Rightarrow> u8 list option \<Rightarrow> u8 list \<Rightarrow> (u16 \<times> gdb_protocol_data option parser_data \<times> 'os) outcome option" where
  "gdb_listener k input peer h be junk os p arm m err =
     (case bnd (create_server k h os p) (\<lambda>(server, os). bnd (Accept k os (socket server)) (\<lambda>(c, os). Inr (server, c, os))) of
        Inl e \<Rightarrow> Some (Inl e)
      | Inr (server, c, os) \<Rightarrow>
          (case gdb_scanner h be junk arm (peer os c) m err (input os c) of
             None \<Rightarrow> None
           | Some (Inl e) \<Rightarrow> Some (Inl e)
           | Some (Inr d) \<Rightarrow> Some (Inr (port server, d, k_close k (k_shutdown k os c) (socket server)))))"

text \<open>The inner loop of \<^verbatim>\<open>irq_listener\<close> on the connection \<open>c\<close>, and \<open>n\<close> passes of the outer loop, which never ends
  by itself.\<close>

partial_function (option) irq_reads :: "'os kernel \<Rightarrow> nat \<Rightarrow> cpu \<Rightarrow> 'os \<Rightarrow> (cpu \<times> 'os) outcome option" where
  "irq_reads k c p os =
     (case k_read k os c of (r, os) \<Rightarrow>
        (case Read r of
           Inl e \<Rightarrow> Some (Inl e)
         | Inr None \<Rightarrow> Some (Inr (p, os))
         | Inr (Some irq) \<Rightarrow>
             (case arm_exception p irq of Inl e \<Rightarrow> Some (Inl e) | Inr p \<Rightarrow> irq_reads k c p os)))"

fun irq_serve :: "'os kernel \<Rightarrow> nat \<Rightarrow> nat \<Rightarrow> cpu \<Rightarrow> 'os \<Rightarrow> (cpu \<times> 'os) outcome option" where
  "irq_serve k s 0 p os = Some (Inr (p, os))"
| "irq_serve k s (Suc n) p os =
     (case Accept k os s of
        Inl e \<Rightarrow> Some (Inl e)
      | Inr (c, os) \<Rightarrow>
          (case irq_reads k c p os of
             None \<Rightarrow> None
           | Some (Inl e) \<Rightarrow> Some (Inl e)
           | Some (Inr (p, os)) \<Rightarrow> irq_serve k s n p (k_shutdown k os c)))"

definition irq_thread ::
    "'os kernel \<Rightarrow> host \<Rightarrow> 'os \<Rightarrow> u16 \<Rightarrow> nat \<Rightarrow> cpu \<Rightarrow> (u16 \<times> cpu \<times> 'os) outcome option" where
  "irq_thread k h os q n p =
     (case create_server k h os q of
        Inl e \<Rightarrow> Some (Inl e)
      | Inr (server, os) \<Rightarrow>
          (case irq_serve k (socket server) n p os of
             None \<Rightarrow> None
           | Some (Inl e) \<Rightarrow> Some (Inl e)
           | Some (Inr (p, os)) \<Rightarrow> Some (Inr (port server, p, os))))"

section \<open>The sender\<close>

definition send_irq :: "'os kernel \<Rightarrow> host \<Rightarrow> string list \<Rightarrow> 'os \<Rightarrow> 'os outcome" where
  "send_irq k h argv os =
     bnd (send_irq_main argv) (\<lambda>irq.
     bnd (Socket k os) (\<lambda>(sock, os).
     bnd (Setsockopt k os sock) (\<lambda>(u, os).
     bnd (Gethostbyname k os (argv ! 1)) (\<lambda>a.
     let addr = \<lparr>sin_family = AF_INET, sin_port = htons h (ucast (atoi (ascii (argv ! 2)))), s_addr = a\<rparr>
     in bnd (Connect k os sock addr) (\<lambda>(u, os).
        bnd (Write k os sock [irq]) (\<lambda>(n, os).
        Inr (k_close k (k_shutdown k os sock) sock)))))))"

fun send_irqs :: "'os kernel \<Rightarrow> host \<Rightarrow> string list list \<Rightarrow> 'os \<Rightarrow> 'os outcome" where
  "send_irqs k h [] os = Inr os"
| "send_irqs k h (argv # argvs) os = bnd (send_irq k h argv os) (\<lambda>os. send_irqs k h argvs os)"

section \<open>What the programs rely on\<close>

text \<open>The network as the programs see it: the port of a socket, the connection of a descriptor, the connections
  that wait at a port, and for each connection the bytes from the client that are not yet read and
  whether the client has ended them.\<close>

record wire =
  bound :: "nat \<Rightarrow> u16 option"
  conn :: "nat \<Rightarrow> nat option"
  waiting :: "u16 \<Rightarrow> nat list"
  bytes :: "nat \<Rightarrow> u8 list"
  ended :: "nat \<Rightarrow> bool"

definition fresh_fd :: "wire \<Rightarrow> nat \<Rightarrow> bool" where
  "fresh_fd w s \<longleftrightarrow> bound w s = None \<and> conn w s = None"

definition fresh_conn :: "wire \<Rightarrow> nat \<Rightarrow> bool" where
  "fresh_conn w i \<longleftrightarrow> (\<forall>s. conn w s \<noteq> Some i) \<and> (\<forall>q. i \<notin> set (waiting w q))"

text \<open>The calls of a server.  Every law speaks of a call that succeeds in a state with the invariant \<open>sane\<close> of
  the system: a new socket has a free descriptor, \<^verbatim>\<open>bind\<close> gives the port that is asked for, any if it is
  0, \<^verbatim>\<open>getsockname\<close> tells it, and \<^verbatim>\<open>accept\<close> takes the first connection that waits.\<close>

definition server_calls_ok :: "host \<Rightarrow> 'os kernel \<Rightarrow> ('os \<Rightarrow> wire) \<Rightarrow> ('os \<Rightarrow> bool) \<Rightarrow> bool" where
  "server_calls_ok h k view sane \<longleftrightarrow>
     (\<forall>os s os'. sane os \<and> k_socket k os = (Inr s, os') \<longrightarrow> sane os' \<and> fresh_fd (view os) s \<and> view os' = view os)
   \<and> (\<forall>os s u os'. sane os \<and> k_setsockopt k os s = (Inr u, os') \<longrightarrow> sane os' \<and> view os' = view os)
   \<and> (\<forall>os s a u os'. sane os \<and> k_bind k os s a = (Inr u, os') \<longrightarrow> sane os'
        \<and> (\<exists>q. (ntohs h (sin_port a) \<noteq> 0 \<longrightarrow> q = ntohs h (sin_port a)) \<and> view os' = (view os)\<lparr>bound := (bound (view os))(s \<mapsto> q)\<rparr>))
   \<and> (\<forall>os s q. sane os \<and> bound (view os) s = Some q \<longrightarrow> (\<exists>a. k_getsockname k os s = Inr a \<and> ntohs h (sin_port a) = q))
   \<and> (\<forall>os s n u os'. sane os \<and> k_listen k os s n = (Inr u, os') \<longrightarrow> sane os' \<and> view os' = view os)
   \<and> (\<forall>os s q i is c os'. sane os \<and> bound (view os) s = Some q \<and> waiting (view os) q = i # is \<and> k_accept k os s = (Inr c, os')
        \<longrightarrow> sane os' \<and> fresh_fd (view os) c
          \<and> view os' = (view os)\<lparr>conn := (conn (view os))(c \<mapsto> i), waiting := (waiting (view os))(q := is)\<rparr>)"

text \<open>The calls on a connection: a client that connects to one of the addresses in \<open>own\<close> waits at the port, its
  bytes are read in their order, and after them the end of the stream once it has shut the connection.\<close>

definition stream_calls_ok :: "host \<Rightarrow> u32 set \<Rightarrow> 'os kernel \<Rightarrow> ('os \<Rightarrow> wire) \<Rightarrow> ('os \<Rightarrow> bool) \<Rightarrow> bool" where
  "stream_calls_ok h own k view sane \<longleftrightarrow>
     (\<forall>os s a u os'. sane os \<and> s_addr a \<in> own \<and> fresh_fd (view os) s \<and> k_connect k os s a = (Inr u, os') \<longrightarrow> sane os'
        \<and> (\<exists>i q. q = ntohs h (sin_port a) \<and> fresh_conn (view os) i
          \<and> view os' = (view os)\<lparr>conn := (conn (view os))(s \<mapsto> i), waiting := (waiting (view os))(q := waiting (view os) q @ [i]),
              bytes := (bytes (view os))(i := []), ended := (ended (view os))(i := False)\<rparr>))
   \<and> (\<forall>os s i buf n os'. sane os \<and> conn (view os) s = Some i \<and> buf \<noteq> [] \<and> k_write k os s buf = (Inr n, os') \<longrightarrow> sane os'
        \<and> 0 < n \<and> n \<le> length buf \<and> view os' = (view os)\<lparr>bytes := (bytes (view os))(i := bytes (view os) i @ take n buf)\<rparr>)
   \<and> (\<forall>os s i r os'. sane os \<and> conn (view os) s = Some i \<and> k_read k os s = (r, os') \<and> r \<noteq> Read_Error \<longrightarrow> sane os'
        \<and> (case bytes (view os) i of
             [] \<Rightarrow> ended (view os) i \<longrightarrow> r = End_Of_File \<and> view os' = view os
           | b # bs \<Rightarrow> r = Byte b \<and> view os' = (view os)\<lparr>bytes := (bytes (view os))(i := bs)\<rparr>))
   \<and> (\<forall>os s i. sane os \<and> conn (view os) s = Some i \<longrightarrow> sane (k_shutdown k os s)
        \<and> view (k_shutdown k os s) = (view os)\<lparr>ended := (ended (view os))(i := True)\<rparr>)
   \<and> (\<forall>os s. sane os \<longrightarrow> sane (k_close k os s)
        \<and> view (k_close k os s) = (view os)\<lparr>bound := (bound (view os))(s := None), conn := (conn (view os))(s := None)\<rparr>)"

definition net_ok :: "host \<Rightarrow> u32 set \<Rightarrow> 'os kernel \<Rightarrow> ('os \<Rightarrow> wire) \<Rightarrow> ('os \<Rightarrow> bool) \<Rightarrow> bool" where
  "net_ok h own k view sane \<longleftrightarrow> server_calls_ok h k view sane \<and> stream_calls_ok h own k view sane"

lemma net_calls:
  assumes "net_ok h own k view sane" "sane os"
  shows net_socket: "k_socket k os = (Inr s, os') \<Longrightarrow> sane os' \<and> fresh_fd (view os) s \<and> view os' = view os"
    and net_setsockopt: "k_setsockopt k os s = (Inr u, os') \<Longrightarrow> sane os' \<and> view os' = view os"
    and net_bind: "k_bind k os s a = (Inr u, os') \<Longrightarrow> sane os'
      \<and> (\<exists>q. (ntohs h (sin_port a) \<noteq> 0 \<longrightarrow> q = ntohs h (sin_port a)) \<and> view os' = (view os)\<lparr>bound := (bound (view os))(s \<mapsto> q)\<rparr>)"
    and net_getsockname: "bound (view os) s = Some q \<Longrightarrow> \<exists>a. k_getsockname k os s = Inr a \<and> ntohs h (sin_port a) = q"
    and net_listen: "k_listen k os s n = (Inr u, os') \<Longrightarrow> sane os' \<and> view os' = view os"
    and net_accept: "k_accept k os s = (Inr c, os') \<Longrightarrow> bound (view os) s = Some q \<Longrightarrow> waiting (view os) q = i # is
      \<Longrightarrow> sane os' \<and> fresh_fd (view os) c
        \<and> view os' = (view os)\<lparr>conn := (conn (view os))(c \<mapsto> i), waiting := (waiting (view os))(q := is)\<rparr>"
  using assms unfolding net_ok_def server_calls_ok_def by metis+

lemmas stream_laws = net_ok_def[THEN iffD1, THEN conjunct2, unfolded stream_calls_ok_def]

lemma net_streams:
  assumes "net_ok h own k view sane" "sane os"
  shows net_connect: "k_connect k os s a = (Inr u, os') \<Longrightarrow> s_addr a \<in> own \<Longrightarrow> fresh_fd (view os) s \<Longrightarrow> sane os'
      \<and> (\<exists>i q. q = ntohs h (sin_port a) \<and> fresh_conn (view os) i
          \<and> view os' = (view os)\<lparr>conn := (conn (view os))(s \<mapsto> i), waiting := (waiting (view os))(q := waiting (view os) q @ [i]),
              bytes := (bytes (view os))(i := []), ended := (ended (view os))(i := False)\<rparr>)"
    and net_write: "k_write k os s buf = (Inr n, os') \<Longrightarrow> conn (view os) s = Some i \<Longrightarrow> buf \<noteq> [] \<Longrightarrow> sane os'
      \<and> 0 < n \<and> n \<le> length buf \<and> view os' = (view os)\<lparr>bytes := (bytes (view os))(i := bytes (view os) i @ take n buf)\<rparr>"
    and net_read: "k_read k os s = (r, os') \<Longrightarrow> r \<noteq> Read_Error \<Longrightarrow> conn (view os) s = Some i \<Longrightarrow> sane os'
        \<and> (case bytes (view os) i of
             [] \<Rightarrow> ended (view os) i \<longrightarrow> r = End_Of_File \<and> view os' = view os
           | b # bs \<Rightarrow> r = Byte b \<and> view os' = (view os)\<lparr>bytes := (bytes (view os))(i := bs)\<rparr>)"
    and net_shutdown: "conn (view os) s = Some i \<Longrightarrow> sane (k_shutdown k os s)
        \<and> view (k_shutdown k os s) = (view os)\<lparr>ended := (ended (view os))(i := True)\<rparr>"
    and net_close: "sane (k_close k os s)
        \<and> view (k_close k os s) = (view os)\<lparr>bound := (bound (view os))(s := None), conn := (conn (view os))(s := None)\<rparr>"
  subgoal by (rule stream_laws[OF assms(1), THEN conjunct1, rule_format])
      (simp add: assms(2))
  subgoal by (rule stream_laws[OF assms(1), THEN conjunct2, THEN conjunct1, rule_format])
      (simp add: assms(2))
  subgoal by (rule stream_laws[OF assms(1), THEN conjunct2, THEN conjunct2, THEN conjunct1, rule_format])
      (simp add: assms(2))
  subgoal by (rule stream_laws[OF assms(1), THEN conjunct2, THEN conjunct2, THEN conjunct2, THEN conjunct1, rule_format])
      (simp add: assms(2))
  subgoal by (rule stream_laws[OF assms(1), THEN conjunct2, THEN conjunct2, THEN conjunct2, THEN conjunct2, rule_format])
      (simp add: assms(2))
  done

lemma checked_cases:
  "checked r = Inl (Exit 0) \<or> (\<exists>v os. r = (Inr v, os) \<and> checked r = Inr (v, os))"
  by (cases r; cases "fst r") (auto simp: checked_def unix_error_def)

lemma checked_eq_Inr: "checked r = Inr x \<longleftrightarrow> r = (Inr (fst x), snd x)"
  by (cases r; cases "fst r"; cases x) (auto simp: checked_def unix_error_def)

lemma checked_eq_Inl: "checked r = Inl e \<Longrightarrow> e = Exit 0"
  using checked_cases[of r] by auto

lemma htons_twice [simp]: "htons h (htons h x) = x"
proof -
  have "bit (push_bit 8 (push_bit 8 x OR drop_bit 8 x) OR drop_bit 8 (push_bit 8 x OR drop_bit 8 x)) n = bit x n" if "n < 16" for n
    using that by (cases "n < 8") (simp_all add: bit_simps)
  then show ?thesis by (auto simp: htons_def intro: bit_word_eqI)
qed

section \<open>Servers and clients\<close>

lemma create_server_ok:
  assumes "net_ok h own k view sane" "sane os"
  shows "case create_server k h os p of
      Inl e \<Rightarrow> e = Exit 0
    | Inr (server, os') \<Rightarrow> sane os' \<and> (p \<noteq> 0 \<longrightarrow> port server = p) \<and> fresh_fd (view os) (socket server)
        \<and> view os' = (view os)\<lparr>bound := (bound (view os))(socket server \<mapsto> port server)\<rparr>"
proof (cases "create_server k h os p")
  case (Inl e)
  then have "e = Exit 0"
    by (auto simp: create_server_def Socket_def Setsockopt_def Bind_def Listen_def bnd_eq_Inl_iff Let_def dest!: checked_eq_Inl)
  then show ?thesis using Inl by simp
next
  case (Inr r)
  let ?a = "\<lparr>sin_family = AF_INET, sin_port = htons h p, s_addr = INADDR_ANY\<rparr>"
  from Inr obtain s os1 u os2 os3 os4 where c: "k_socket k os = (Inr s, os1)" "k_setsockopt k os1 s = (Inr u, os2)"
      "k_bind k os2 s ?a = (Inr u, os3)" "k_listen k os3 s 1 = (Inr u, os4)"
    and r: "r = (\<lparr>socket = s, port = ntohs h (sin_port (case k_getsockname k os3 s of Inl e \<Rightarrow> ?a | Inr a \<Rightarrow> a))\<rparr>, os4)"
    by (auto simp: create_server_def Socket_def Setsockopt_def Bind_def Listen_def checked_eq_Inr bnd_eq_Inr_iff Let_def)
  note 1 = net_socket[OF assms c(1)]
  note 2 = net_setsockopt[OF assms(1) 1[THEN conjunct1] c(2)]
  obtain q where q: "sane os3" "p \<noteq> 0 \<longrightarrow> q = p" "view os3 = (view os)\<lparr>bound := (bound (view os))(s \<mapsto> q)\<rparr>"
    using net_bind[OF assms(1) 2[THEN conjunct1] c(3)] 1 2 by auto
  then obtain a where a: "k_getsockname k os3 s = Inr a" "ntohs h (sin_port a) = q"
    using net_getsockname[OF assms(1) q(1), of s q] by auto
  show ?thesis using net_listen[OF assms(1) q(1) c(4)] 1 q a r Inr by simp
qed

lemma irq_reads_byte:
  "k_read k os c = (Byte b, os') \<Longrightarrow> arm_exception p b = Inr p' \<Longrightarrow> irq_reads k c p os = irq_reads k c p' os'"
  by (simp add: irq_reads.simps[of k c p os] Read_def)

lemma irq_reads_end: "k_read k os c = (End_Of_File, os') \<Longrightarrow> irq_reads k c p os = Some (Inr (p, os'))"
  by (simp add: irq_reads.simps[of k c p os] Read_def)

lemma irq_reads_ok:
  assumes net: "net_ok h own k view sane"
  shows "sane os \<Longrightarrow> conn (view os) c = Some i \<Longrightarrow> ended (view os) i \<Longrightarrow> bytes (view os) i = bs \<Longrightarrow>
    \<exists>r. irq_reads k c p os = Some r \<and> (case r of
        Inl e \<Rightarrow> e = Exit 0 \<or> exec h' p (map Irq bs) = Inl e
      | Inr (p', os') \<Rightarrow> exec h' p (map Irq bs) = Inr p' \<and> sane os' \<and> view os' = (view os)\<lparr>bytes := (bytes (view os))(i := [])\<rparr>)"
proof (induction bs arbitrary: os p)
  case Nil
  obtain r os' where r: "k_read k os c = (r, os')" by fastforce
  show ?case
  proof (cases "r = Read_Error")
    case True
    then show ?thesis using r by (simp add: irq_reads.simps[of k c p os] Read_def unix_error_def)
  next
    case False
    have "(view os)\<lparr>bytes := (bytes (view os))(i := [])\<rparr> = view os" using Nil.prems(4) by (simp add: fun_upd_idem)
    then show ?thesis
      using net_read[OF net Nil.prems(1) r False Nil.prems(2)] Nil.prems r by (simp add: irq_reads_end)
  qed
next
  case (Cons b bs)
  obtain r os' where r: "k_read k os c = (r, os')" by fastforce
  show ?case
  proof (cases "r = Read_Error")
    case True
    then show ?thesis using r by (simp add: irq_reads.simps[of k c p os] Read_def unix_error_def)
  next
    case False
    then have os': "r = Byte b" "sane os'" "view os' = (view os)\<lparr>bytes := (bytes (view os))(i := bs)\<rparr>"
      using net_read[OF net Cons.prems(1) r False Cons.prems(2)] Cons.prems(4) by simp_all
    show ?thesis
    proof (cases "arm_exception p b")
      case (Inl e)
      then show ?thesis using r os'(1) by (simp add: irq_reads.simps[of k c p os] Read_def event_step_def)
    next
      case (Inr p1)
      then have ex: "exec h' p (map Irq (b # bs)) = exec h' p1 (map Irq bs)" by (simp add: event_step_def)
      have nxt: "irq_reads k c p os = irq_reads k c p1 os'"
        using Inr os'(1) r by (simp add: irq_reads_byte)
      have vw: "(view os)\<lparr>bytes := (bytes (view os))(i := [])\<rparr> = (view os')\<lparr>bytes := (bytes (view os'))(i := [])\<rparr>"
        by (simp add: os'(3))
      have "conn (view os') c = Some i" "ended (view os') i" "bytes (view os') i = bs"
        using os'(3) Cons.prems(2,3) by simp_all
      then show ?thesis unfolding ex nxt vw by (rule Cons.IH[OF os'(2)])
    qed
  qed
qed

text \<open>Finished connections wait at the port \<open>q\<close>, with the bytes \<open>bss\<close> in them.\<close>

definition pending :: "wire \<Rightarrow> u16 \<Rightarrow> u8 list list \<Rightarrow> bool" where
  "pending w q bss \<longleftrightarrow> distinct (waiting w q) \<and> (\<forall>i \<in> set (waiting w q). ended w i) \<and> map (bytes w) (waiting w q) = bss"

text \<open>\<open>n\<close> descriptors have been opened and not closed.\<close>

definition left_open :: "wire \<Rightarrow> wire \<Rightarrow> nat \<Rightarrow> bool" where
  "left_open w w' n \<longleftrightarrow> (\<forall>s. conn w s \<noteq> None \<longrightarrow> conn w' s \<noteq> None)
     \<and> (\<exists>cs. distinct cs \<and> length cs = n \<and> (\<forall>c \<in> set cs. conn w c = None \<and> conn w' c \<noteq> None))"

lemma left_open_Suc:
  assumes "conn w c = None" "conn v = (conn w)(c \<mapsto> i)" "left_open v w' n"
  shows "left_open w w' (Suc n)"
proof -
  obtain cs where cs: "distinct cs" "length cs = n" "\<forall>x \<in> set cs. conn v x = None \<and> conn w' x \<noteq> None"
    using assms(3) by (auto simp: left_open_def)
  have "\<forall>s. conn v s \<noteq> None \<longrightarrow> conn w' s \<noteq> None" using assms(3) by (simp add: left_open_def)
  then have "\<forall>s. conn w s \<noteq> None \<longrightarrow> conn w' s \<noteq> None" "conn w' c \<noteq> None" using assms(2) by auto
  then show ?thesis
    unfolding left_open_def using cs assms(1,2)
    by (intro conjI exI[of _ "c # cs"]) (auto split: if_splits)
qed

lemma irq_serve_ok:
  assumes net: "net_ok h own k view sane"
  shows "sane os \<Longrightarrow> bound (view os) s = Some q \<Longrightarrow> pending (view os) q bss \<Longrightarrow>
    \<exists>r. irq_serve k s (length bss) p os = Some r \<and> (case r of
        Inl e \<Rightarrow> e = Exit 0 \<or> exec h' p (map Irq (concat bss)) = Inl e
      | Inr (p', os') \<Rightarrow> exec h' p (map Irq (concat bss)) = Inr p' \<and> sane os' \<and> pending (view os') q []
          \<and> left_open (view os) (view os') (length bss))"
proof (induction bss arbitrary: os p)
  case Nil
  then show ?case by (simp add: left_open_def)
next
  case (Cons bs bss)
  show ?case
  proof (cases "Accept k os s")
    case (Inl e)
    then show ?thesis using checked_cases[of "k_accept k os s"] by (auto simp: Accept_def)
  next
    case (Inr r)
    obtain i "is" where w: "waiting (view os) q = i # is" using Cons.prems(3) by (auto simp: pending_def)
    obtain c os1 where r: "r = (c, os1)" "k_accept k os s = (Inr c, os1)"
      using Inr by (auto simp: Accept_def checked_def unix_error_def split: sum.splits prod.splits)
    note acc = net_accept[OF net Cons.prems(1) r(2) Cons.prems(2) w]
    have i: "ended (view os) i" "bytes (view os) i = bs" using Cons.prems(3) w by (auto simp: pending_def)
    obtain r2 where r2: "irq_reads k c p os1 = Some r2" "case r2 of
        Inl e \<Rightarrow> e = Exit 0 \<or> exec h' p (map Irq bs) = Inl e
      | Inr (p', os') \<Rightarrow> exec h' p (map Irq bs) = Inr p' \<and> sane os' \<and> view os' = (view os1)\<lparr>bytes := (bytes (view os1))(i := [])\<rparr>"
      using irq_reads_ok[OF net, of os1 c i bs p h'] acc i by auto
    show ?thesis
    proof (cases r2)
      case (Inl e)
      then show ?thesis using r2 Inr r(1) by (auto simp: exec_append)
    next
      case (Inr v)
      then obtain p2 os2 where v: "v = (p2, os2)" by (cases v)
      have os2: "sane os2" "view os2 = (view os1)\<lparr>bytes := (bytes (view os1))(i := [])\<rparr>" "exec h' p (map Irq bs) = Inr p2"
        using r2(2) Inr v by simp_all
      note sh = net_shutdown[OF net os2(1), of c i]
      have "bound (view (k_shutdown k os2 c)) s = Some q" "pending (view (k_shutdown k os2 c)) q bss"
        using sh os2(2) acc Cons.prems(2,3) w by (auto simp: pending_def)
      moreover have ex: "exec h' p (map Irq (concat (bs # bss))) = exec h' p2 (map Irq (concat bss))"
        using os2(3) by (simp add: exec_append)
      moreover have nxt: "irq_serve k s (length (bs # bss)) p os = irq_serve k s (length bss) p2 (k_shutdown k os2 c)"
        using r2(1) Inr v \<open>Accept k os s = Inr r\<close> r(1) by simp
      moreover have cs: "left_open (view os) w (Suc n)" if "left_open (view (k_shutdown k os2 c)) w n" for w n
        using that sh os2(2) acc by (intro left_open_Suc[where c = c and i = i and v = "view (k_shutdown k os2 c)"]) (simp_all add: fresh_fd_def)
      ultimately show ?thesis
        unfolding ex nxt using Cons.IH[of "k_shutdown k os2 c" p2] sh os2(2) acc by (auto split: sum.splits)
    qed
  qed
qed

lemma open_listenfd_ok:
  assumes "net_ok h own k view sane" "sane os"
  shows "case Open_listenfd k h os pn of
    Inl e \<Rightarrow> e = Exit 0
  | Inr (fd, os') \<Rightarrow> \<exists>s q. fd = int s \<and> sane os' \<and> (ucast pn \<noteq> (0 :: u16) \<longrightarrow> q = ucast pn) \<and> fresh_fd (view os) s
      \<and> view os' = (view os)\<lparr>bound := (bound (view os))(s \<mapsto> q)\<rparr>"
proof (cases "Open_listenfd k h os pn")
  case (Inl e)
  then show ?thesis by (auto simp: Open_listenfd_def unix_error_def split: prod.splits if_splits)
next
  case (Inr r)
  then obtain s os1 u os2 os3 os4 where c: "k_socket k os = (Inr s, os1)" "k_setsockopt k os1 s = (Inr u, os2)"
      "k_bind k os2 s \<lparr>sin_family = AF_INET, sin_port = htons h (ucast pn), s_addr = INADDR_ANY\<rparr> = (Inr u, os3)"
      "k_listen k os3 s LISTENQ = (Inr u, os4)" "r = (int s, os4)"
    by (auto simp: Open_listenfd_def open_listenfd_def unix_error_def Let_def split: prod.splits sum.splits if_splits)
  note 2 = net_setsockopt[OF assms(1) net_socket[OF assms c(1), THEN conjunct1] c(2)]
  note 3 = net_bind[OF assms(1) 2[THEN conjunct1] c(3)]
  show ?thesis using net_listen[OF assms(1) 3[THEN conjunct1] c(4)] 3 2 net_socket[OF assms c(1)] Inr c(5) by auto
qed

text \<open>The reasons why a client gets no connection.\<close>

definition connect_fails :: "'os kernel \<Rightarrow> host \<Rightarrow> 'os \<Rightarrow> string \<Rightarrow> u32 \<Rightarrow> bool" where
  "connect_fails k h os name pn \<longleftrightarrow>
     (case k_socket k os of
        (Inl e, os) \<Rightarrow> True
      | (Inr s, os) \<Rightarrow>
          \<exists>a e os'. k_gethostbyname k os name = Some a
            \<and> k_connect k os s \<lparr>sin_family = AF_INET, sin_port = htons h (ucast pn), s_addr = a\<rparr> = (Inl e, os'))"

definition unknown_host :: "'os kernel \<Rightarrow> 'os \<Rightarrow> string \<Rightarrow> bool" where
  "unknown_host k os name \<longleftrightarrow> (\<exists>s os'. k_socket k os = (Inr s, os') \<and> k_gethostbyname k os' name = None)"

lemmas client_defs = connect_fails_def unknown_host_def Open_clientfd_def unix_error_def dns_error_def

lemma open_clientfd_ok:
  assumes "net_ok h own k view sane" "sane os"
  shows "case open_clientfd k h os name pn of (rc, os') \<Rightarrow>
    (rc = - 1 \<longleftrightarrow> connect_fails k h os name pn) \<and> (rc = - 2 \<longleftrightarrow> unknown_host k os name)
      \<and> (rc \<notin> {- 1, - 2} \<longrightarrow> 0 \<le> rc)
      \<and> Open_clientfd k h os name pn = (if rc < 0 then Inl (Exit 0) else Inr (rc, os'))
      \<and> (0 \<le> rc \<and> (\<forall>o'. \<exists>a \<in> own. k_gethostbyname k o' name = Some a) \<longrightarrow> (\<exists>s i. rc = int s \<and> sane os'
        \<and> fresh_fd (view os) s \<and> conn (view os') s = Some i \<and> fresh_conn (view os) i
        \<and> waiting (view os') (ucast pn) = waiting (view os) (ucast pn) @ [i] \<and> bytes (view os') i = []))"
proof (cases "k_socket k os")
  case (Pair r os1)
  show ?thesis
  proof (cases r)
    case (Inl e)
    then show ?thesis using Pair by (simp add: open_clientfd_def client_defs)
  next
    case (Inr s)
    note s = net_socket[OF assms Pair[unfolded Inr]]
    show ?thesis
    proof (cases "k_gethostbyname k os1 name")
      case None
      then show ?thesis using Pair Inr s by (auto simp: open_clientfd_def client_defs)
    next
      case (Some a)
      let ?a = "\<lparr>sin_family = AF_INET, sin_port = htons h (ucast pn), s_addr = a\<rparr>"
      have "a \<in> own" if "\<forall>o'. \<exists>a \<in> own. k_gethostbyname k o' name = Some a" using that Some by (metis option.inject)
      then show ?thesis
        using net_connect[OF assms(1) s[THEN conjunct1], of s ?a] Pair Inr Some s
        by (auto simp: open_clientfd_def client_defs split: prod.splits sum.splits)
    qed
  qed
qed

text \<open>Arguments of a sender that name this machine and the port \<open>q\<close>, and stand for the exception \<open>irq\<close>.\<close>

definition sends_irq :: "'os kernel \<Rightarrow> u32 set \<Rightarrow> u16 \<Rightarrow> string list \<Rightarrow> u8 \<Rightarrow> bool" where
  "sends_irq k own q argv irq \<longleftrightarrow> send_irq_main argv = Inr irq \<and> ucast (atoi (ascii (argv ! 2))) = q
     \<and> (\<forall>os. \<exists>a \<in> own. k_gethostbyname k os (argv ! 1) = Some a)"

lemma send_irq_ok:
  assumes net: "net_ok h own k view sane" and "sane os" and "sends_irq k own q argv irq" and "pending (view os) q bss"
    and "bound (view os) s = Some q'"
  shows "case send_irq k h argv os of
      Inl e \<Rightarrow> e = Exit 0
    | Inr os' \<Rightarrow> sane os' \<and> pending (view os') q (bss @ [[irq]]) \<and> bound (view os') s = Some q'"
proof (cases "send_irq k h argv os")
  case (Inl e)
  have "e = Exit 0" if "Gethostbyname k o' name = Inl e" for o' name
    using that by (simp add: Gethostbyname_def dns_error_def split: option.splits)
  then have "e = Exit 0"
    using Inl assms(3)
    by (auto simp: send_irq_def sends_irq_def Socket_def Setsockopt_def Connect_def Write_def bnd_eq_Inl_iff Let_def dest!: checked_eq_Inl)
  then show ?thesis using Inl by simp
next
  case (Inr os')
  then obtain f os1 u os2 a os3 n os4 where c: "k_socket k os = (Inr f, os1)" "k_setsockopt k os1 f = (Inr u, os2)"
      "k_gethostbyname k os2 (argv ! 1) = Some a"
      "k_connect k os2 f \<lparr>sin_family = AF_INET, sin_port = htons h q, s_addr = a\<rparr> = (Inr u, os3)"
      "k_write k os3 f [irq] = (Inr n, os4)" and os': "os' = k_close k (k_shutdown k os4 f) f"
    using assms(3)
    by (auto simp: send_irq_def sends_irq_def Socket_def Setsockopt_def Connect_def Write_def checked_eq_Inr bnd_eq_Inr_iff Let_def
        Gethostbyname_def dns_error_def split: option.splits)
  have a: "a \<in> own" using assms(3) c(3) unfolding sends_irq_def by (metis option.inject)
  note 1 = net_socket[OF net assms(2) c(1)]
  note 2 = net_setsockopt[OF net 1[THEN conjunct1] c(2)]
  obtain i where i: "sane os3" "fresh_conn (view os) i"
      "view os3 = (view os)\<lparr>conn := (conn (view os))(f \<mapsto> i), waiting := (waiting (view os))(q := waiting (view os) q @ [i]),
              bytes := (bytes (view os))(i := []), ended := (ended (view os))(i := False)\<rparr>"
    using net_connect[OF net 2[THEN conjunct1] c(4)] 1 2 a by auto
  have f: "conn (view os3) f = Some i" by (simp add: i(3))
  note 4 = net_write[OF net i(1) c(5) f]
  have v4: "sane os4" "view os4 = (view os3)\<lparr>bytes := (bytes (view os))(i := [irq])\<rparr>"
    using 4 by (auto simp: i(3) Suc_le_eq)
  note 5 = net_shutdown[OF net v4(1), of f i]
  note 6 = net_close[OF net, of "k_shutdown k os4 f" f]
  have "s \<noteq> f" using 1 assms(5) by (auto simp: fresh_fd_def)
  then have "sane os'" "pending (view os') q (bss @ [[irq]])" "bound (view os') s = Some q'"
    using 5 6 v4 f i(2,3) assms(4,5) unfolding os' by (auto simp: pending_def fresh_conn_def)
  then show ?thesis using Inr by simp
qed

lemma send_irqs_ok:
  assumes net: "net_ok h own k view sane"
  shows "list_all2 (sends_irq k own q) argvs irqs \<Longrightarrow> sane os \<Longrightarrow> pending (view os) q bss \<Longrightarrow> bound (view os) s = Some q' \<Longrightarrow>
    case send_irqs k h argvs os of
      Inl e \<Rightarrow> e = Exit 0
    | Inr os' \<Rightarrow> sane os' \<and> pending (view os') q (bss @ map (\<lambda>b. [b]) irqs) \<and> bound (view os') s = Some q'"
proof (induction arbitrary: os bss rule: list_all2_induct)
  case Nil
  then show ?case by simp
next
  case (Cons argv argvs irq irqs)
  show ?case
  proof (cases "send_irq k h argv os")
    case (Inl e)
    then show ?thesis using send_irq_ok[OF net Cons.prems(1) Cons.hyps(1) Cons.prems(2,3)] by simp
  next
    case (Inr os')
    then have "sane os'" "pending (view os') q (bss @ [[irq]])" "bound (view os') s = Some q'"
      using send_irq_ok[OF net Cons.prems(1) Cons.hyps(1) Cons.prems(2,3)] by simp_all
    from Cons.IH[OF this] show ?thesis using Inr by (simp split: sum.splits)
  qed
qed

section \<open>Properties\<close>

text \<open>C7: sending exceptions over the network.  The simulator has created its server and nobody is connected; then senders
  run, one after the other, with the name of the machine and the announced port.  Unless a system
  call fails, which ends the program concerned with status 0, the simulator comes back from as many
  connections, and its processor has taken the exceptions that the senders were asked for, in
  their order.  But every connection has left a descriptor open: the listener shuts connections and
  does not close them.\<close>

theorem irq_end_to_end:
  assumes "net_ok h own k view sane" and "sane os" and "create_server k h os q0 = Inr (server, os1)"
    and "waiting (view os) (port server) = []" and "list_all2 (sends_irq k own (port server)) argvs irqs"
  shows "case send_irqs k h argvs os1 of
      Inl e \<Rightarrow> e = Exit 0
    | Inr os2 \<Rightarrow> \<exists>r. irq_serve k (socket server) (length argvs) p os2 = Some r \<and> (case r of
          Inl e \<Rightarrow> e = Exit 0 \<or> exec h p (map Irq irqs) = Inl e
        | Inr (p', os3) \<Rightarrow> exec h p (map Irq irqs) = Inr p' \<and> left_open (view os2) (view os3) (length argvs))"
proof -
  have os1: "sane os1" "pending (view os1) (port server) []" "bound (view os1) (socket server) = Some (port server)"
    using create_server_ok[OF assms(1,2), of q0] assms(3,4) by (simp_all add: pending_def)
  note send = send_irqs_ok[OF assms(1,5) os1]
  show ?thesis
  proof (cases "send_irqs k h argvs os1")
    case (Inl e)
    then show ?thesis using send by simp
  next
    case (Inr os2)
    have "concat (map (\<lambda>b. [b]) irqs) = irqs" by simp
    then show ?thesis
      using irq_serve_ok[OF assms(1), of os2 "socket server" "port server" "map (\<lambda>b. [b]) irqs" p h]
        send Inr list_all2_lengthD[OF assms(5)] by (fastforce split: sum.splits)
  qed
qed

text \<open>A machine that talks to itself, as a kernel: descriptors and connections are numbered, and a port that is left
  open is 40000.\<close>

record loop_os =
  loop_wire :: wire
  next_fd :: nat
  next_conn :: nat

definition loop_start :: loop_os where
  "loop_start = \<lparr>loop_wire = \<lparr>bound = Map.empty, conn = Map.empty, waiting = (\<lambda>q. []), bytes = (\<lambda>i. []), ended = (\<lambda>i. False)\<rparr>,
     next_fd = 3, next_conn = 0\<rparr>"

definition loop_sane :: "loop_os \<Rightarrow> bool" where
  "loop_sane os \<longleftrightarrow> (\<forall>s \<ge> next_fd os. fresh_fd (loop_wire os) s) \<and> (\<forall>i \<ge> next_conn os. fresh_conn (loop_wire os) i)"

definition loop_kernel :: "host \<Rightarrow> loop_os kernel" where
  "loop_kernel h =
    \<lparr>k_socket = (\<lambda>os. (Inr (next_fd os), os\<lparr>next_fd := next_fd os + 1\<rparr>)),
     k_setsockopt = (\<lambda>os s. (Inr (), os)),
     k_bind = (\<lambda>os s a.
       let q = (if sin_port a = 0 then 40000 else ntohs h (sin_port a))
       in if s < next_fd os then (Inr (), os\<lparr>loop_wire := (loop_wire os)\<lparr>bound := (bound (loop_wire os))(s \<mapsto> q)\<rparr>\<rparr>) else (Inl 9, os)),
     k_getsockname = (\<lambda>os s.
       case bound (loop_wire os) s of
         None \<Rightarrow> Inl 9 | Some q \<Rightarrow> Inr \<lparr>sin_family = AF_INET, sin_port = htons h q, s_addr = INADDR_ANY\<rparr>),
     k_listen = (\<lambda>os s n. (Inr (), os)),
     k_accept = (\<lambda>os s.
       case bound (loop_wire os) s of
         None \<Rightarrow> (Inl 9, os)
       | Some q \<Rightarrow>
           (case waiting (loop_wire os) q of
              [] \<Rightarrow> (Inl 11, os)
            | i # is \<Rightarrow>
                (Inr (next_fd os), os\<lparr>next_fd := next_fd os + 1, loop_wire := (loop_wire os)\<lparr>
                   conn := (conn (loop_wire os))(next_fd os \<mapsto> i), waiting := (waiting (loop_wire os))(q := is)\<rparr>\<rparr>))),
     k_connect = (\<lambda>os s a.
       let q = ntohs h (sin_port a); i = next_conn os; w = loop_wire os
       in if s < next_fd os then (Inr (), os\<lparr>next_conn := i + 1, loop_wire := w\<lparr>conn := (conn w)(s \<mapsto> i),
            waiting := (waiting w)(q := waiting w q @ [i]), bytes := (bytes w)(i := []), ended := (ended w)(i := False)\<rparr>\<rparr>) else (Inl 9, os)),
     k_gethostbyname = (\<lambda>os name. if name = ''localhost'' then Some 0x100007F else None),
     k_read = (\<lambda>os s.
       case conn (loop_wire os) s of
         None \<Rightarrow> (Read_Error, os)
       | Some i \<Rightarrow>
           (case bytes (loop_wire os) i of
              [] \<Rightarrow> (if ended (loop_wire os) i then End_Of_File else Read_Error, os)
            | b # bs \<Rightarrow> (Byte b, os\<lparr>loop_wire := (loop_wire os)\<lparr>bytes := (bytes (loop_wire os))(i := bs)\<rparr>\<rparr>))),
     k_write = (\<lambda>os s buf.
       case conn (loop_wire os) s of
         None \<Rightarrow> (Inl 9, os)
       | Some i \<Rightarrow> (Inr (length buf),
           os\<lparr>loop_wire := (loop_wire os)\<lparr>bytes := (bytes (loop_wire os))(i := bytes (loop_wire os) i @ buf)\<rparr>\<rparr>)),
     k_shutdown = (\<lambda>os s.
       case conn (loop_wire os) s of
         None \<Rightarrow> os
       | Some i \<Rightarrow> os\<lparr>loop_wire := (loop_wire os)\<lparr>ended := (ended (loop_wire os))(i := True)\<rparr>\<rparr>),
     k_close = (\<lambda>os s. os\<lparr>loop_wire := (loop_wire os)\<lparr>
       bound := (bound (loop_wire os))(s := None), conn := (conn (loop_wire os))(s := None)\<rparr>\<rparr>)\<rparr>"

lemma htons_zero: "htons h x = 0 \<longleftrightarrow> x = 0"
proof
  assume "htons h x = 0"
  then have "x = htons h 0" using htons_twice[of h x] by simp
  then show "x = 0" by (simp add: htons_def)
qed (simp add: htons_def)

lemmas loop_simps = loop_kernel_def loop_sane_def fresh_fd_def fresh_conn_def Let_def htons_zero

lemma loop_server_calls: "server_calls_ok h (loop_kernel h) loop_wire loop_sane"
  unfolding server_calls_ok_def
  apply (intro conjI)
  subgoal by (auto simp: loop_simps split: if_splits option.splits list.splits)
  subgoal by (auto simp: loop_simps split: if_splits option.splits list.splits)
  subgoal by (auto simp: loop_simps split: if_splits option.splits list.splits)
  subgoal by (auto simp: loop_simps split: if_splits option.splits list.splits)
  subgoal by (auto simp: loop_simps split: if_splits option.splits list.splits)
  subgoal by (auto simp: loop_simps split: if_splits option.splits list.splits) (metis list.set_intros)+
  done

lemma loop_stream_calls: "stream_calls_ok h {0x100007F} (loop_kernel h) loop_wire loop_sane"
  unfolding stream_calls_ok_def
  apply (intro conjI)
  subgoal by (auto simp: loop_simps split: if_splits option.splits list.splits) (metis order_refl)+
  subgoal by (auto simp: loop_simps split: if_splits option.splits list.splits)
  subgoal by (auto simp: loop_simps split: if_splits option.splits list.splits)
  subgoal by (auto simp: loop_simps split: if_splits option.splits list.splits)
  subgoal by (auto simp: loop_simps split: if_splits option.splits list.splits)
  done

lemma loop_ok: "net_ok h {0x100007F} (loop_kernel h) loop_wire loop_sane" "loop_sane loop_start"
  using loop_server_calls loop_stream_calls
  by (auto simp: net_ok_def loop_sane_def loop_start_def fresh_fd_def fresh_conn_def)

text \<open>What this kernel does in a run of the server and one sender.\<close>

definition loop_server :: "server_data \<times> loop_os" where
  "loop_server = (\<lparr>socket = 3, port = 4000\<rparr>,
     loop_start\<lparr>loop_wire := (loop_wire loop_start)\<lparr>bound := [3 \<mapsto> 4000]\<rparr>, next_fd := 4\<rparr>)"

lemma loop_server_created: "create_server (loop_kernel h) h loop_start 4000 = Inr loop_server"
proof -
  have "htons h 4000 \<noteq> 0" by (simp add: htons_zero)
  then show ?thesis
    by (simp add: create_server_def Socket_def Setsockopt_def Bind_def Listen_def checked_def loop_kernel_def Let_def
        loop_server_def loop_start_def)
qed

lemma atoi_4000: "(ucast (atoi (ascii ''4000'')) :: u16) = 4000"
  using atoi_decimal[of "ascii ''4000''" 4000]
  by (simp add: decimal_part_def ascii_def digits_value_def split_sign_def is_space_def digit_value_def)

lemma loop_sender:
  assumes "send_irq_main argv = Inr irq" "argv ! 1 = ''localhost''" "(ucast (atoi (ascii (argv ! 2))) :: u16) = 4000"
  shows "\<exists>os. send_irq (loop_kernel h) h argv (snd loop_server) = Inr os
    \<and> loop_wire os = \<lparr>bound = [3 \<mapsto> 4000], conn = Map.empty, waiting = (\<lambda>q. [])(4000 := [0]), bytes = (\<lambda>i. [])(0 := [irq]),
        ended = (\<lambda>i. False)(0 := True)\<rparr> \<and> next_fd os = 5"
  using assms
  by (simp add: send_irq_def Socket_def Setsockopt_def Gethostbyname_def Connect_def Write_def checked_def loop_kernel_def Let_def
      loop_server_def loop_start_def fun_eq_iff)

theorem irq_end_to_end_witness:
  "\<exists>os2 p' os3. send_irqs (loop_kernel x86_host) x86_host [[''send_irq'', ''localhost'', ''4000'', ''reset'']] (snd loop_server) = Inr os2
    \<and> irq_serve (loop_kernel x86_host) 3 1 (cpu_machine [0, 0, 0, 0]) os2 = Some (Inr (p', os3))
    \<and> exec x86_host (cpu_machine [0, 0, 0, 0]) [Irq 1] = Inr p'"
proof -
  let ?k = "loop_kernel x86_host" and ?argv = "[''send_irq'', ''localhost'', ''4000'', ''reset'']"
  have "find_irq 1 ''reset'' = Inr (Some 1)"
    by (subst find_irq.simps) (simp add: arm_get_exception_name_def table_entry_def arm_exception_names_def)
  then have irq: "send_irq_main ?argv = Inr 1" by (simp add: send_irq_main_def)
  obtain os where os: "send_irqs ?k x86_host [?argv] (snd loop_server) = Inr os" "next_fd os = 5"
      "loop_wire os = \<lparr>bound = [3 \<mapsto> 4000], conn = Map.empty, waiting = (\<lambda>q. [])(4000 := [0]), bytes = (\<lambda>i. [])(0 := [1]),
        ended = (\<lambda>i. False)(0 := True)\<rparr>"
    using loop_sender[OF irq, of x86_host] atoi_4000 by auto
  obtain p where p: "arm_exception (cpu_machine [0, 0, 0, 0]) 1 = Inr p"
    using arm_exception_eq[of "cpu_machine [0, 0, 0, 0]" 1] sys_core_cpu_machine[of "[0, 0, 0, 0]"] by (auto simp: sys_core_def)
  let ?o1 = "os\<lparr>next_fd := 6, loop_wire := (loop_wire os)\<lparr>conn := [5 \<mapsto> 0], waiting := (\<lambda>q. [])(4000 := [])\<rparr>\<rparr>"
  let ?o2 = "?o1\<lparr>loop_wire := (loop_wire ?o1)\<lparr>bytes := (\<lambda>i. [])(0 := [])\<rparr>\<rparr>"
  have "k_accept ?k os 3 = (Inr 5, ?o1)" "k_read ?k ?o1 5 = (Byte 1, ?o2)" "k_read ?k ?o2 5 = (End_Of_File, ?o2)"
    using os(2,3) by (simp_all add: loop_kernel_def)
  then have "\<exists>r. irq_serve ?k 3 1 (cpu_machine [0, 0, 0, 0]) os = Some (Inr r)"
    using irq_reads_byte[of ?k ?o1 5 1 ?o2 "cpu_machine [0, 0, 0, 0]" p] irq_reads_end[of ?k ?o2 5 ?o2 p] p
    by (simp add: Accept_def checked_def)
  moreover have args: "list_all2 (sends_irq ?k {0x100007F} (port (fst loop_server))) [?argv] [1]"
    using irq atoi_4000 by (simp add: sends_irq_def loop_server_def) (simp add: loop_kernel_def)
  have "waiting (loop_wire loop_start) (port (fst loop_server)) = []" by (simp add: loop_start_def)
  then have "\<exists>r. irq_serve ?k (socket (fst loop_server)) (length [?argv]) (cpu_machine [0, 0, 0, 0]) os = Some r \<and> (case r of
          Inl e \<Rightarrow> e = Exit 0 \<or> exec x86_host (cpu_machine [0, 0, 0, 0]) (map Irq [1]) = Inl e
        | Inr (p', os3) \<Rightarrow> exec x86_host (cpu_machine [0, 0, 0, 0]) (map Irq [1]) = Inr p'
            \<and> left_open (loop_wire os) (loop_wire os3) (length [?argv]))"
    using irq_end_to_end[OF loop_ok _ _ args, of 4000 "snd loop_server" "cpu_machine [0, 0, 0, 0]"] loop_server_created[of x86_host] os(1) by simp
  ultimately show ?thesis using os(1) by (auto simp: loop_server_def)
qed

text \<open>C31: server sockets.  On a machine of either byte order, \<^verbatim>\<open>create_server\<close> and \<^verbatim>\<open>Open_listenfd\<close> end with status 0 when a
  system call fails; otherwise they give a new socket bound to the port that is asked for, or to
  one that the system chooses if that is 0, the port that \<^verbatim>\<open>create_server\<close> announces is the port of the socket,
  and nothing else of the network has changed.  \<^verbatim>\<open>open_clientfd\<close> returns \<open>-1\<close> exactly when \<^verbatim>\<open>socket\<close> or \<^verbatim>\<open>connect\<close> fails, \<open>-2\<close>
  exactly when the host is unknown, and otherwise a descriptor whose connection waits at the port that it names; its wrapper ends with status 0 in
  both cases of error.\<close>

theorem server_sockets:
  assumes "net_ok h own k view sane" and "sane os"
  shows "(case create_server k h os p of
      Inl e \<Rightarrow> e = Exit 0
    | Inr (server, os') \<Rightarrow> sane os' \<and> (p \<noteq> 0 \<longrightarrow> port server = p) \<and> fresh_fd (view os) (socket server)
        \<and> view os' = (view os)\<lparr>bound := (bound (view os))(socket server \<mapsto> port server)\<rparr>)
    \<and> (case Open_listenfd k h os pn of
      Inl e \<Rightarrow> e = Exit 0
    | Inr (fd, os') \<Rightarrow> \<exists>s q. fd = int s \<and> sane os' \<and> (ucast pn \<noteq> (0 :: u16) \<longrightarrow> q = ucast pn) \<and> fresh_fd (view os) s
        \<and> view os' = (view os)\<lparr>bound := (bound (view os))(s \<mapsto> q)\<rparr>)
    \<and> (case open_clientfd k h os name pn of (rc, os') \<Rightarrow>
        (rc = - 1 \<longleftrightarrow> connect_fails k h os name pn) \<and> (rc = - 2 \<longleftrightarrow> unknown_host k os name)
        \<and> (rc \<notin> {- 1, - 2} \<longrightarrow> 0 \<le> rc)
        \<and> Open_clientfd k h os name pn = (if rc < 0 then Inl (Exit 0) else Inr (rc, os'))
        \<and> (0 \<le> rc \<and> (\<forall>o'. \<exists>a \<in> own. k_gethostbyname k o' name = Some a) \<longrightarrow> (\<exists>s i. rc = int s \<and> sane os'
          \<and> fresh_fd (view os) s \<and> conn (view os') s = Some i \<and> fresh_conn (view os) i
          \<and> waiting (view os') (ucast pn) = waiting (view os) (ucast pn) @ [i] \<and> bytes (view os') i = [])))"
  by (intro conjI create_server_ok[OF assms] open_listenfd_ok[OF assms] open_clientfd_ok[OF assms])

theorem server_sockets_witness:
  "\<exists>server os'. create_server (loop_kernel x86_host) x86_host loop_start 80 = Inr (server, os') \<and> port server = 80
    \<and> bound (loop_wire os') (socket server) = Some 80"
proof -
  have "\<exists>r. create_server (loop_kernel x86_host) x86_host loop_start 80 = Inr r"
    by (simp add: create_server_def Socket_def Setsockopt_def Bind_def Listen_def checked_def loop_kernel_def Let_def loop_start_def)
  then show ?thesis
    using server_sockets[OF loop_ok, where h = x86_host and p = 80] by auto
qed

lemma listener_service:
  assumes "net_ok h own k view sane" and "sane os" and "sys_core arm"
    and "length raw = MAX_PACKET_SIZE" and "length err = MAX_ERROR_SIZE"
  shows "(\<forall>q d os'. gdb_listener k input peer h be junk os q0 arm (Some raw) err = Some (Inr (q, d, os')) \<longrightarrow>
        (q0 \<noteq> 0 \<longrightarrow> q = q0) \<and> (\<exists>g. parser_gdb d = Some g \<and> gdb_inv (mem_size (mem arm)) g)
        \<and> err_len d = 0 \<and> length (err_buffer d) = MAX_ERROR_SIZE)
    \<and> (\<forall>e. gdb_listener k input peer h be junk os q0 arm (Some raw) err = Some (Inl e) \<longrightarrow> e = Exit 0
        \<or> (\<exists>g. gdb_inv (mem_size (mem arm)) g
            \<and> (hangup g = Some e \<or> (\<exists>n p. gdb_packet_analysis h be (junk n) g (p @ [0]) = Some (Inl e)))))"
proof (cases "bnd (create_server k h os q0) (\<lambda>(server, os). bnd (Accept k os (socket server)) (\<lambda>(c, os). Inr (server, c, os)))")
  case (Inl e)
  then have "e = Exit 0"
    using create_server_ok[OF assms(1,2), of q0] by (auto simp: bnd_eq_Inl_iff Accept_def dest!: checked_eq_Inl)
  then show ?thesis using Inl by (simp add: gdb_listener_def)
next
  case (Inr r)
  then obtain server c os1 where r: "r = (server, c, os1)" "q0 \<noteq> 0 \<longrightarrow> port server = q0"
    using create_server_ok[OF assms(1,2), of q0] by (auto simp: bnd_eq_Inr_iff)
  note scan = session_ok[OF assms(3-5), of h be junk "peer os1 c" "input os1 c"]
  have "(\<exists>g. parser_gdb d = Some g \<and> gdb_inv (mem_size (mem arm)) g) \<and> err_len d = 0 \<and> length (err_buffer d) = MAX_ERROR_SIZE"
    if "gdb_scanner h be junk arm (peer os1 c) (Some raw) err (input os1 c) = Some (Inr d)" for d
    using scan[OF that] by auto
  moreover have "\<exists>g. gdb_inv (mem_size (mem arm)) g
      \<and> (hangup g = Some e \<or> (\<exists>n p. gdb_packet_analysis h be (junk n) g (p @ [0]) = Some (Inl e)))"
    if "gdb_scanner h be junk arm (peer os1 c) (Some raw) err (input os1 c) = Some (Inl e)" for e
    using scan[OF that] by auto
  ultimately show ?thesis using Inr r by (auto simp: gdb_listener_def split: option.splits sum.splits)
qed


text \<open>A debugger that waits at port 4000.\<close>

definition loop_client :: loop_os where
  "loop_client = loop_start\<lparr>loop_wire := (loop_wire loop_start)\<lparr>waiting := (\<lambda>q. [])(4000 := [0])\<rparr>, next_conn := 1\<rparr>"

lemma loop_session:
  "\<exists>q d os'. gdb_listener (loop_kernel x86_host) (\<lambda>os c. Some (ascii ''x$+'')) (\<lambda>os c n. Link_Up) x86_host False (\<lambda>n i. 0) loop_client 4000
      p (Some (replicate 1024 0)) (replicate 1024 0) = Some (Inr (q, d, os'))"
proof -
  obtain d where d: "gdb_scanner x86_host False (\<lambda>n i. 0) p (\<lambda>n. Link_Up) (Some (replicate 1024 0)) (replicate 1024 0)
      (Some (ascii ''x$+'')) = Some (Inr d)"
    by (simp add: scanner_computes)
  have "htons x86_host 4000 \<noteq> 0" by (simp add: htons_zero)
  then have "\<exists>server c os1. create_server (loop_kernel x86_host) x86_host loop_client 4000 = Inr (server, os1)
      \<and> (\<exists>os2. Accept (loop_kernel x86_host) os1 (socket server) = Inr (c, os2))"
    by (simp add: create_server_def Socket_def Setsockopt_def Bind_def Listen_def Accept_def checked_def loop_kernel_def Let_def
        loop_client_def loop_start_def)
  then show ?thesis using d by (fastforce simp: gdb_listener_def)
qed

lemma loop_null_session:
  "\<exists>r. gdb_listener (loop_kernel x86_host) (\<lambda>os c. Some (ascii ''x$+'')) (\<lambda>os c n. Link_Up) x86_host False (\<lambda>n i. 0) loop_client 4000
      p None (replicate 1024 0) = Some r"
proof (cases "bnd (create_server (loop_kernel x86_host) x86_host loop_client 4000) (\<lambda>(server, os).
    bnd (Accept (loop_kernel x86_host) os (socket server)) (\<lambda>(c, os). Inr (server, c, os)))")
  case (Inr x)
  obtain r where "gdb_scanner x86_host False (\<lambda>n i. 0) p (\<lambda>n. Link_Up) None (replicate 1024 0) (Some (ascii ''x$+'')) = Some r"
    using null_session[OF length_replicate] by blast
  then show ?thesis using Inr by (cases r) (auto simp: gdb_listener_def split: prod.splits)
qed (simp add: gdb_listener_def)

lemma loop_client_sane: "loop_sane loop_client"
  by (simp add: loop_sane_def loop_client_def loop_start_def fresh_fd_def fresh_conn_def)


end
