(* ===== verification/Wrappers.thy ===== *)
theory Wrappers
  imports Network
begin

text \<open>
  The other wrappers of \<^verbatim>\<open>csapp.c\<close>: processes, signals, files, memory mapping, storage, standard I/O, threads and
  semaphores.  (\<^verbatim>\<open>Read\<close> and the Rio package are in \<open>Rio\<close>, the wrappers for sockets in \<open>Network\<close>.)

  The functions that they call are a parameter, \<open>invoke\<close>, from the call with its arguments and the state of the system to
  the result and the new state; the state holds the memory of the process too, so pointers are just passed on.  A result is
  64 bits wide, as in a register; an \<^verbatim>\<open>int\<close> is its lower half.  What a wrapper prints on \<^verbatim>\<open>stderr\<close> is a string
  beside the system.
\<close>

section \<open>Calls\<close>

record sigaction =
  sa_handler :: u64
  sa_mask :: "u32 set"
  sa_flags :: u32

abbreviation (input) SA_RESTART :: u32 where "SA_RESTART \<equiv> 0x10000000"

abbreviation (input) EOF :: u32 where "EOF \<equiv> - 1"

datatype (plugins only: size) call =
    C_fork
  | C_execve u64 u64 u64
  | C_wait u64
  | C_waitpid u32 u64 u32
  | C_kill u32 u32
  | C_pause
  | C_sleep u32
  | C_alarm u32
  | C_setpgid u32 u32
  | C_getpgrp
  | C_sigaction u32 sigaction
  | C_sigprocmask u32 u64 u64
  | C_sigemptyset u64
  | C_sigfillset u64
  | C_sigaddset u64 u32
  | C_sigdelset u64 u32
  | C_sigismember u64 u32
  | C_open u64 u32 u32
  | C_lseek u32 u64 u32
  | C_close u32
  | C_select u32 u64 u64 u64 u64
  | C_dup2 u32 u32
  | C_stat u64 u64
  | C_fstat u32 u64
  | C_mmap u64 u64 u32 u32 u32 u64
  | C_munmap u64 u64
  | C_malloc u64
  | C_realloc u64 u64
  | C_calloc u64 u64
  | C_free u64
  | C_fclose u64
  | C_fdopen u32 u64
  | C_fgets u64 u32 u64
  | C_fopen u64 u64
  | C_fputs u64 u64
  | C_fread u64 u64 u64 u64
  | C_fwrite u64 u64 u64 u64
  | C_gethostbyaddr u64 u32 u32
  | C_pthread_create u64 u64 u64 u64
  | C_pthread_cancel u64
  | C_pthread_join u64 u64
  | C_pthread_detach u64
  | C_pthread_self
  | C_pthread_once u64 u64
  | C_sem_init u64 u32 u32
  | C_sem_wait u64
  | C_sem_post u64

text \<open>\<open>old_handler\<close> is \<^verbatim>\<open>old_action.sa_handler\<close> after a call of \<^verbatim>\<open>sigaction\<close>.\<close>

record 'os unix =
  invoke :: "call \<Rightarrow> 'os \<Rightarrow> u64 \<times> 'os"
  errno :: "'os \<Rightarrow> u32"
  h_errno :: "'os \<Rightarrow> u32"
  strerror :: "u32 \<Rightarrow> string"
  ferror :: "u64 \<Rightarrow> 'os \<Rightarrow> bool"
  old_handler :: "'os \<Rightarrow> u64"
  end_thread :: "u64 \<Rightarrow> 'os \<Rightarrow> 'os"

type_synonym ('os, 'a) run = "'os \<times> string \<Rightarrow> 'a outcome \<times> 'os \<times> string"

section \<open>Error functions\<close>

definition unix_error_c :: "'os unix \<Rightarrow> string \<Rightarrow> ('os, 'a) run" where
  "unix_error_c u msg = (\<lambda>(os, err). (Inl (Exit 0), os, err @ msg @ '': '' @ strerror u (errno u os) @ [CHR 0x0A]))"

definition posix_error :: "'os unix \<Rightarrow> u32 \<Rightarrow> string \<Rightarrow> ('os, 'a) run" where
  "posix_error u code msg = (\<lambda>(os, err). (Inl (Exit 0), os, err @ msg @ '': '' @ strerror u code @ [CHR 0x0A]))"

definition dns_error_c :: "'os unix \<Rightarrow> string \<Rightarrow> ('os, 'a) run" where
  "dns_error_c u msg = (\<lambda>(os, err). (Inl (Exit 0), os, err @ msg @ '': DNS error '' @ fmt_d (sint (h_errno u os)) @ [CHR 0x0A]))"

definition app_error :: "string \<Rightarrow> ('os, 'a) run" where
  "app_error msg = (\<lambda>(os, err). (Inl (Exit 0), os, err @ msg @ [CHR 0x0A]))"

section \<open>Wrappers\<close>

text \<open>The two shapes of a wrapper, \<^verbatim>\<open>if (bad(rc = f(...))) error(...); return rc;\<close> and \<^verbatim>\<open>return f(...);\<close>, and the tests.\<close>

abbreviation (input) as_int :: "u64 \<Rightarrow> u32" where "as_int rc \<equiv> ucast rc"

definition checked_c :: "'os unix \<Rightarrow> call \<Rightarrow> (u64 \<Rightarrow> 'os \<Rightarrow> bool) \<Rightarrow> (u64 \<Rightarrow> ('os, 'a) run) \<Rightarrow> (u64 \<Rightarrow> 'a) \<Rightarrow> ('os, 'a) run" where
  "checked_c u c bad error ret = (\<lambda>(os, err).
     let (rc, os) = invoke u c os in if bad rc os then error rc (os, err) else (Inr (ret rc), os, err))"

definition plain_call :: "'os unix \<Rightarrow> call \<Rightarrow> (u64 \<Rightarrow> 'a) \<Rightarrow> ('os, 'a) run" where
  "plain_call u c ret = (\<lambda>(os, err). let (rc, os) = invoke u c os in (Inr (ret rc), os, err))"

definition int_negative :: "u64 \<Rightarrow> 'os \<Rightarrow> bool" where
  "int_negative rc os \<longleftrightarrow> sint (as_int rc) < 0"

definition long_negative :: "u64 \<Rightarrow> 'os \<Rightarrow> bool" where
  "long_negative rc os \<longleftrightarrow> sint rc < 0"

definition is_null :: "u64 \<Rightarrow> 'os \<Rightarrow> bool" where
  "is_null p os \<longleftrightarrow> p = 0"

definition nonzero :: "u64 \<Rightarrow> 'os \<Rightarrow> bool" where
  "nonzero rc os \<longleftrightarrow> as_int rc \<noteq> 0"

text \<open>Process control.\<close>

definition Fork :: "'os unix \<Rightarrow> ('os, u32) run" where
  "Fork u =
     checked_c u C_fork int_negative
     (\<lambda>rc. unix_error_c u ''Fork error'') as_int"

definition Execve :: "'os unix \<Rightarrow> u64 \<Rightarrow> u64 \<Rightarrow> u64 \<Rightarrow> ('os, unit) run" where
  "Execve u filename argv envp =
     checked_c u (C_execve filename argv envp) int_negative
     (\<lambda>rc. unix_error_c u ''Execve error'') (\<lambda>rc. ())"

definition Wait :: "'os unix \<Rightarrow> u64 \<Rightarrow> ('os, u32) run" where
  "Wait u status =
     checked_c u (C_wait status) int_negative
     (\<lambda>rc. unix_error_c u ''Wait error'') as_int"

definition Waitpid :: "'os unix \<Rightarrow> u32 \<Rightarrow> u64 \<Rightarrow> u32 \<Rightarrow> ('os, u32) run" where
  "Waitpid u pid iptr options =
     checked_c u (C_waitpid pid iptr options) int_negative
     (\<lambda>rc. unix_error_c u ''Waitpid error'') as_int"

definition Kill :: "'os unix \<Rightarrow> u32 \<Rightarrow> u32 \<Rightarrow> ('os, unit) run" where
  "Kill u pid signum =
     checked_c u (C_kill pid signum) int_negative
     (\<lambda>rc. unix_error_c u ''Kill error'') (\<lambda>rc. ())"

definition Pause :: "'os unix \<Rightarrow> ('os, unit) run" where
  "Pause u =
     plain_call u C_pause (\<lambda>rc. ())"

definition Sleep :: "'os unix \<Rightarrow> u32 \<Rightarrow> ('os, u32) run" where
  "Sleep u secs =
     checked_c u (C_sleep secs) (\<lambda>rc os. as_int rc < 0)
     (\<lambda>rc. unix_error_c u ''Sleep error'') as_int"

definition Alarm :: "'os unix \<Rightarrow> u32 \<Rightarrow> ('os, u32) run" where
  "Alarm u seconds =
     plain_call u (C_alarm seconds) as_int"

definition Setpgid :: "'os unix \<Rightarrow> u32 \<Rightarrow> u32 \<Rightarrow> ('os, unit) run" where
  "Setpgid u pid pgid =
     checked_c u (C_setpgid pid pgid) int_negative
     (\<lambda>rc. unix_error_c u ''Setpgid error'') (\<lambda>rc. ())"

definition Getpgrp :: "'os unix \<Rightarrow> ('os, u32) run" where
  "Getpgrp u =
     plain_call u C_getpgrp as_int"

text \<open>Signals.\<close>

definition restarting :: "u64 \<Rightarrow> sigaction" where
  "restarting handler = \<lparr>sa_handler = handler, sa_mask = {}, sa_flags = SA_RESTART\<rparr>"

definition Signal :: "'os unix \<Rightarrow> u32 \<Rightarrow> u64 \<Rightarrow> ('os, u64) run" where
  "Signal u signum handler = (\<lambda>(os, err).
    let (rc, os) = invoke u (C_sigaction signum (restarting handler)) os
    in if int_negative rc os then unix_error_c u ''Signal error'' (os, err) else (Inr (old_handler u os), os, err))"

definition Sigprocmask :: "'os unix \<Rightarrow> u32 \<Rightarrow> u64 \<Rightarrow> u64 \<Rightarrow> ('os, unit) run" where
  "Sigprocmask u how sigs oldset =
     checked_c u (C_sigprocmask how sigs oldset) int_negative
     (\<lambda>rc. unix_error_c u ''Sigprocmask error'') (\<lambda>rc. ())"

definition Sigemptyset :: "'os unix \<Rightarrow> u64 \<Rightarrow> ('os, unit) run" where
  "Sigemptyset u sigs =
     checked_c u (C_sigemptyset sigs) int_negative
     (\<lambda>rc. unix_error_c u ''Sigemptyset error'') (\<lambda>rc. ())"

definition Sigfillset :: "'os unix \<Rightarrow> u64 \<Rightarrow> ('os, unit) run" where
  "Sigfillset u sigs =
     checked_c u (C_sigfillset sigs) int_negative
     (\<lambda>rc. unix_error_c u ''Sigfillset error'') (\<lambda>rc. ())"

definition Sigaddset :: "'os unix \<Rightarrow> u64 \<Rightarrow> u32 \<Rightarrow> ('os, unit) run" where
  "Sigaddset u sigs signum =
     checked_c u (C_sigaddset sigs signum) int_negative
     (\<lambda>rc. unix_error_c u ''Sigaddset error'') (\<lambda>rc. ())"

definition Sigdelset :: "'os unix \<Rightarrow> u64 \<Rightarrow> u32 \<Rightarrow> ('os, unit) run" where
  "Sigdelset u sigs signum =
     checked_c u (C_sigdelset sigs signum) int_negative
     (\<lambda>rc. unix_error_c u ''Sigdelset error'') (\<lambda>rc. ())"

definition Sigismember :: "'os unix \<Rightarrow> u64 \<Rightarrow> u32 \<Rightarrow> ('os, u32) run" where
  "Sigismember u sigs signum =
     checked_c u (C_sigismember sigs signum) int_negative
     (\<lambda>rc. unix_error_c u ''Sigismember error'') as_int"

text \<open>Unix I/O.\<close>

definition Open :: "'os unix \<Rightarrow> u64 \<Rightarrow> u32 \<Rightarrow> u32 \<Rightarrow> ('os, u32) run" where
  "Open u pathname flags md =
     checked_c u (C_open pathname flags md) int_negative
     (\<lambda>rc. unix_error_c u ''Open error'') as_int"

definition Lseek :: "'os unix \<Rightarrow> u32 \<Rightarrow> u64 \<Rightarrow> u32 \<Rightarrow> ('os, u64) run" where
  "Lseek u fildes offset whence =
     checked_c u (C_lseek fildes offset whence) long_negative
     (\<lambda>rc. unix_error_c u ''Lseek error'') id"

definition Close :: "'os unix \<Rightarrow> u32 \<Rightarrow> ('os, unit) run" where
  "Close u fd =
     checked_c u (C_close fd) int_negative
     (\<lambda>rc. unix_error_c u ''Close error'') (\<lambda>rc. ())"

definition Select :: "'os unix \<Rightarrow> u32 \<Rightarrow> u64 \<Rightarrow> u64 \<Rightarrow> u64 \<Rightarrow> u64 \<Rightarrow> ('os, u32) run" where
  "Select u n readfds writefds exceptfds timeout =
     checked_c u (C_select n readfds writefds exceptfds timeout) int_negative
     (\<lambda>rc. unix_error_c u ''Select error'') as_int"

definition Dup2 :: "'os unix \<Rightarrow> u32 \<Rightarrow> u32 \<Rightarrow> ('os, u32) run" where
  "Dup2 u fd1 fd2 =
     checked_c u (C_dup2 fd1 fd2) int_negative
     (\<lambda>rc. unix_error_c u ''Dup2 error'') as_int"

definition Stat :: "'os unix \<Rightarrow> u64 \<Rightarrow> u64 \<Rightarrow> ('os, unit) run" where
  "Stat u filename buf =
     checked_c u (C_stat filename buf) int_negative
     (\<lambda>rc. unix_error_c u ''Stat error'') (\<lambda>rc. ())"

definition Fstat :: "'os unix \<Rightarrow> u32 \<Rightarrow> u64 \<Rightarrow> ('os, unit) run" where
  "Fstat u fd buf =
     checked_c u (C_fstat fd buf) int_negative
     (\<lambda>rc. unix_error_c u ''Fstat error'') (\<lambda>rc. ())"

text \<open>Memory mapping and dynamic storage.\<close>

definition Mmap :: "'os unix \<Rightarrow> u64 \<Rightarrow> u64 \<Rightarrow> u32 \<Rightarrow> u32 \<Rightarrow> u32 \<Rightarrow> u64 \<Rightarrow> ('os, u64) run" where
  "Mmap u addr len prot flags fd offset =
     checked_c u (C_mmap addr len prot flags fd offset) (\<lambda>ptr os. ptr = - 1)
     (\<lambda>rc. unix_error_c u ''mmap error'') id"

definition Munmap :: "'os unix \<Rightarrow> u64 \<Rightarrow> u64 \<Rightarrow> ('os, unit) run" where
  "Munmap u start sz =
     checked_c u (C_munmap start sz) int_negative
     (\<lambda>rc. unix_error_c u ''munmap error'') (\<lambda>rc. ())"

definition Malloc :: "'os unix \<Rightarrow> u64 \<Rightarrow> ('os, u64) run" where
  "Malloc u sz =
     checked_c u (C_malloc sz) is_null
     (\<lambda>rc. unix_error_c u ''Malloc error'') id"

definition Realloc :: "'os unix \<Rightarrow> u64 \<Rightarrow> u64 \<Rightarrow> ('os, u64) run" where
  "Realloc u ptr sz =
     checked_c u (C_realloc ptr sz) is_null
     (\<lambda>rc. unix_error_c u ''Realloc error'') id"

definition Calloc :: "'os unix \<Rightarrow> u64 \<Rightarrow> u64 \<Rightarrow> ('os, u64) run" where
  "Calloc u nmemb sz =
     checked_c u (C_calloc nmemb sz) is_null
     (\<lambda>rc. unix_error_c u ''Calloc error'') id"

definition Free :: "'os unix \<Rightarrow> u64 \<Rightarrow> ('os, unit) run" where
  "Free u ptr =
     plain_call u (C_free ptr) (\<lambda>rc. ())"

text \<open>Standard I/O.\<close>

definition Fclose :: "'os unix \<Rightarrow> u64 \<Rightarrow> ('os, unit) run" where
  "Fclose u fp =
     checked_c u (C_fclose fp) nonzero
     (\<lambda>rc. unix_error_c u ''Fclose error'') (\<lambda>rc. ())"

definition Fdopen :: "'os unix \<Rightarrow> u32 \<Rightarrow> u64 \<Rightarrow> ('os, u64) run" where
  "Fdopen u fd type =
     checked_c u (C_fdopen fd type) is_null
     (\<lambda>rc. unix_error_c u ''Fdopen error'') id"

definition Fgets :: "'os unix \<Rightarrow> u64 \<Rightarrow> u32 \<Rightarrow> u64 \<Rightarrow> ('os, u64) run" where
  "Fgets u ptr n stream =
     checked_c u (C_fgets ptr n stream) (\<lambda>rptr os. rptr = 0 \<and> ferror u stream os)
     (\<lambda>rc. app_error ''Fgets error'') id"

definition Fopen :: "'os unix \<Rightarrow> u64 \<Rightarrow> u64 \<Rightarrow> ('os, u64) run" where
  "Fopen u filename md =
     checked_c u (C_fopen filename md) is_null
     (\<lambda>rc. unix_error_c u ''Fopen error'') id"

definition Fputs :: "'os unix \<Rightarrow> u64 \<Rightarrow> u64 \<Rightarrow> ('os, unit) run" where
  "Fputs u ptr stream =
     checked_c u (C_fputs ptr stream) (\<lambda>rc os. as_int rc = EOF)
     (\<lambda>rc. unix_error_c u ''Fputs error'') (\<lambda>rc. ())"

definition Fread :: "'os unix \<Rightarrow> u64 \<Rightarrow> u64 \<Rightarrow> u64 \<Rightarrow> u64 \<Rightarrow> ('os, u64) run" where
  "Fread u ptr sz nmemb stream =
     checked_c u (C_fread ptr sz nmemb stream) (\<lambda>n os. n < nmemb \<and> ferror u stream os)
     (\<lambda>rc. unix_error_c u ''Fread error'') id"

definition Fwrite :: "'os unix \<Rightarrow> u64 \<Rightarrow> u64 \<Rightarrow> u64 \<Rightarrow> u64 \<Rightarrow> ('os, unit) run" where
  "Fwrite u ptr sz nmemb stream =
     checked_c u (C_fwrite ptr sz nmemb stream) (\<lambda>n os. n < nmemb)
     (\<lambda>rc. unix_error_c u ''Fwrite error'') (\<lambda>rc. ())"

text \<open>Host names.\<close>

definition Gethostbyaddr :: "'os unix \<Rightarrow> u64 \<Rightarrow> u32 \<Rightarrow> u32 \<Rightarrow> ('os, u64) run" where
  "Gethostbyaddr u addr len type =
     checked_c u (C_gethostbyaddr addr len type) is_null
     (\<lambda>rc. dns_error_c u ''Gethostbyaddr error'') id"

text \<open>Threads.\<close>

definition Pthread_create :: "'os unix \<Rightarrow> u64 \<Rightarrow> u64 \<Rightarrow> u64 \<Rightarrow> u64 \<Rightarrow> ('os, unit) run" where
  "Pthread_create u tidp attrp routine argp =
     checked_c u (C_pthread_create tidp attrp routine argp) nonzero
     (\<lambda>rc. posix_error u (as_int rc) ''Pthread_create error'') (\<lambda>rc. ())"

definition Pthread_cancel :: "'os unix \<Rightarrow> u64 \<Rightarrow> ('os, unit) run" where
  "Pthread_cancel u tid =
     checked_c u (C_pthread_cancel tid) nonzero
     (\<lambda>rc. posix_error u (as_int rc) ''Pthread_cancel error'') (\<lambda>rc. ())"

definition Pthread_join :: "'os unix \<Rightarrow> u64 \<Rightarrow> u64 \<Rightarrow> ('os, unit) run" where
  "Pthread_join u tid thread_return =
     checked_c u (C_pthread_join tid thread_return) nonzero
     (\<lambda>rc. posix_error u (as_int rc) ''Pthread_join error'') (\<lambda>rc. ())"

definition Pthread_detach :: "'os unix \<Rightarrow> u64 \<Rightarrow> ('os, unit) run" where
  "Pthread_detach u tid =
     checked_c u (C_pthread_detach tid) nonzero
     (\<lambda>rc. posix_error u (as_int rc) ''Pthread_detach error'') (\<lambda>rc. ())"

text \<open>\<^verbatim>\<open>pthread_exit\<close> does not return: what is left is the state of the system without the thread.\<close>

definition Pthread_exit :: "'os unix \<Rightarrow> u64 \<Rightarrow> 'os \<times> string \<Rightarrow> 'os \<times> string" where
  "Pthread_exit u retval = (\<lambda>(os, err). (end_thread u retval os, err))"

definition Pthread_self :: "'os unix \<Rightarrow> ('os, u64) run" where
  "Pthread_self u =
     plain_call u C_pthread_self id"

definition Pthread_once :: "'os unix \<Rightarrow> u64 \<Rightarrow> u64 \<Rightarrow> ('os, unit) run" where
  "Pthread_once u once_control init_function =
     plain_call u (C_pthread_once once_control init_function) (\<lambda>rc. ())"

text \<open>Semaphores.\<close>

definition Sem_init :: "'os unix \<Rightarrow> u64 \<Rightarrow> u32 \<Rightarrow> u32 \<Rightarrow> ('os, unit) run" where
  "Sem_init u sem pshared val =
     checked_c u (C_sem_init sem pshared val) int_negative
     (\<lambda>rc. unix_error_c u ''Sem_init error'') (\<lambda>rc. ())"

definition P_c :: "'os unix \<Rightarrow> u64 \<Rightarrow> ('os, unit) run" where
  "P_c u sem =
     checked_c u (C_sem_wait sem) int_negative
     (\<lambda>rc. unix_error_c u ''P error'') (\<lambda>rc. ())"

definition V_c :: "'os unix \<Rightarrow> u64 \<Rightarrow> ('os, unit) run" where
  "V_c u sem =
     checked_c u (C_sem_post sem) int_negative
     (\<lambda>rc. unix_error_c u ''V error'') (\<lambda>rc. ())"

section \<open>Programs of wrapped calls\<close>

text \<open>A call through its wrapper, with the result widened to a register, and a list of calls.\<close>

definition give :: "('a \<Rightarrow> u64) \<Rightarrow> ('os, 'a) run \<Rightarrow> ('os, u64) run" where
  "give f r s = (let (v, s) = r s in (map_sum id f v, s))"

fun perform :: "'os unix \<Rightarrow> call \<Rightarrow> ('os, u64) run" where
  "perform u C_fork = give ucast (Fork u)"
| "perform u (C_execve filename argv envp) = give (\<lambda>v. 0) (Execve u filename argv envp)"
| "perform u (C_wait status) = give ucast (Wait u status)"
| "perform u (C_waitpid pid iptr options) = give ucast (Waitpid u pid iptr options)"
| "perform u (C_kill pid signum) = give (\<lambda>v. 0) (Kill u pid signum)"
| "perform u C_pause = give (\<lambda>v. 0) (Pause u)"
| "perform u (C_sleep secs) = give ucast (Sleep u secs)"
| "perform u (C_alarm seconds) = give ucast (Alarm u seconds)"
| "perform u (C_setpgid pid pgid) = give (\<lambda>v. 0) (Setpgid u pid pgid)"
| "perform u C_getpgrp = give ucast (Getpgrp u)"
| "perform u (C_sigaction signum action) = Signal u signum (sa_handler action)"
| "perform u (C_sigprocmask how sigs oldset) = give (\<lambda>v. 0) (Sigprocmask u how sigs oldset)"
| "perform u (C_sigemptyset sigs) = give (\<lambda>v. 0) (Sigemptyset u sigs)"
| "perform u (C_sigfillset sigs) = give (\<lambda>v. 0) (Sigfillset u sigs)"
| "perform u (C_sigaddset sigs signum) = give (\<lambda>v. 0) (Sigaddset u sigs signum)"
| "perform u (C_sigdelset sigs signum) = give (\<lambda>v. 0) (Sigdelset u sigs signum)"
| "perform u (C_sigismember sigs signum) = give ucast (Sigismember u sigs signum)"
| "perform u (C_open pathname flags md) = give ucast (Open u pathname flags md)"
| "perform u (C_lseek fildes offset whence) = Lseek u fildes offset whence"
| "perform u (C_close fd) = give (\<lambda>v. 0) (Close u fd)"
| "perform u (C_select n readfds writefds exceptfds timeout) = give ucast (Select u n readfds writefds exceptfds timeout)"
| "perform u (C_dup2 fd1 fd2) = give ucast (Dup2 u fd1 fd2)"
| "perform u (C_stat filename buf) = give (\<lambda>v. 0) (Stat u filename buf)"
| "perform u (C_fstat fd buf) = give (\<lambda>v. 0) (Fstat u fd buf)"
| "perform u (C_mmap addr len prot flags fd offset) = Mmap u addr len prot flags fd offset"
| "perform u (C_munmap start sz) = give (\<lambda>v. 0) (Munmap u start sz)"
| "perform u (C_malloc sz) = Malloc u sz"
| "perform u (C_realloc ptr sz) = Realloc u ptr sz"
| "perform u (C_calloc nmemb sz) = Calloc u nmemb sz"
| "perform u (C_free ptr) = give (\<lambda>v. 0) (Free u ptr)"
| "perform u (C_fclose fp) = give (\<lambda>v. 0) (Fclose u fp)"
| "perform u (C_fdopen fd type) = Fdopen u fd type"
| "perform u (C_fgets ptr n stream) = Fgets u ptr n stream"
| "perform u (C_fopen filename md) = Fopen u filename md"
| "perform u (C_fputs ptr stream) = give (\<lambda>v. 0) (Fputs u ptr stream)"
| "perform u (C_fread ptr sz nmemb stream) = Fread u ptr sz nmemb stream"
| "perform u (C_fwrite ptr sz nmemb stream) = give (\<lambda>v. 0) (Fwrite u ptr sz nmemb stream)"
| "perform u (C_gethostbyaddr addr len type) = Gethostbyaddr u addr len type"
| "perform u (C_pthread_create tidp attrp routine argp) = give (\<lambda>v. 0) (Pthread_create u tidp attrp routine argp)"
| "perform u (C_pthread_cancel tid) = give (\<lambda>v. 0) (Pthread_cancel u tid)"
| "perform u (C_pthread_join tid thread_return) = give (\<lambda>v. 0) (Pthread_join u tid thread_return)"
| "perform u (C_pthread_detach tid) = give (\<lambda>v. 0) (Pthread_detach u tid)"
| "perform u C_pthread_self = Pthread_self u"
| "perform u (C_pthread_once once_control init_function) = give (\<lambda>v. 0) (Pthread_once u once_control init_function)"
| "perform u (C_sem_init sem pshared val) = give (\<lambda>v. 0) (Sem_init u sem pshared val)"
| "perform u (C_sem_wait sem) = give (\<lambda>v. 0) (P_c u sem)"
| "perform u (C_sem_post sem) = give (\<lambda>v. 0) (V_c u sem)"

fun performs :: "('c \<Rightarrow> ('os, u64) run) \<Rightarrow> 'c list \<Rightarrow> ('os, u64 list) run" where
  "performs p [] s = (Inr [], s)"
| "performs p (c # cs) s =
     (case p c s of
        (Inl e, s) \<Rightarrow> (Inl e, s)
      | (Inr v, s) \<Rightarrow> (let (vs, s) = performs p cs s in (map_sum id ((#) v) vs, s)))"

section \<open>What the wrappers do\<close>

text \<open>What each wrapper takes for a failure, what it reports and returns, and the text in front of the report.\<close>

datatype convention =
    Never
  | Negative
  | Negative_Long
  | Nonzero
  | Null
  | All_Ones
  | Eof
  | Null_Error u64
  | Short u64
  | Short_Error u64 u64

datatype report = Errno | Code | Dns | Plain

datatype shape = Nothing | Lower | Whole | Old_Handler

fun tested :: "call \<Rightarrow> convention \<times> report \<times> shape \<times> string" where
  "tested (C_fork) = (Negative, Errno, Lower, ''Fork error'')"
| "tested (C_execve filename argv envp) = (Negative, Errno, Nothing, ''Execve error'')"
| "tested (C_wait status) = (Negative, Errno, Lower, ''Wait error'')"
| "tested (C_waitpid pid iptr options) = (Negative, Errno, Lower, ''Waitpid error'')"
| "tested (C_kill pid signum) = (Negative, Errno, Nothing, ''Kill error'')"
| "tested (C_pause) = (Never, Plain, Nothing, '''')"
| "tested (C_sleep secs) = (Never, Errno, Lower, ''Sleep error'')"
| "tested (C_alarm seconds) = (Never, Plain, Lower, '''')"
| "tested (C_setpgid pid pgid) = (Negative, Errno, Nothing, ''Setpgid error'')"
| "tested (C_getpgrp) = (Never, Plain, Lower, '''')"
| "tested (C_sigaction signum action) = (Negative, Errno, Old_Handler, ''Signal error'')"
| "tested (C_sigprocmask how sigs oldset) = (Negative, Errno, Nothing, ''Sigprocmask error'')"
| "tested (C_sigemptyset sigs) = (Negative, Errno, Nothing, ''Sigemptyset error'')"
| "tested (C_sigfillset sigs) = (Negative, Errno, Nothing, ''Sigfillset error'')"
| "tested (C_sigaddset sigs signum) = (Negative, Errno, Nothing, ''Sigaddset error'')"
| "tested (C_sigdelset sigs signum) = (Negative, Errno, Nothing, ''Sigdelset error'')"
| "tested (C_sigismember sigs signum) = (Negative, Errno, Lower, ''Sigismember error'')"
| "tested (C_open pathname flags md) = (Negative, Errno, Lower, ''Open error'')"
| "tested (C_lseek fildes offset whence) = (Negative_Long, Errno, Whole, ''Lseek error'')"
| "tested (C_close fd) = (Negative, Errno, Nothing, ''Close error'')"
| "tested (C_select n readfds writefds exceptfds timeout) = (Negative, Errno, Lower, ''Select error'')"
| "tested (C_dup2 fd1 fd2) = (Negative, Errno, Lower, ''Dup2 error'')"
| "tested (C_stat filename buf) = (Negative, Errno, Nothing, ''Stat error'')"
| "tested (C_fstat fd buf) = (Negative, Errno, Nothing, ''Fstat error'')"
| "tested (C_mmap addr len prot flags fd offset) = (All_Ones, Errno, Whole, ''mmap error'')"
| "tested (C_munmap start sz) = (Negative, Errno, Nothing, ''munmap error'')"
| "tested (C_malloc sz) = (Null, Errno, Whole, ''Malloc error'')"
| "tested (C_realloc ptr sz) = (Null, Errno, Whole, ''Realloc error'')"
| "tested (C_calloc nmemb sz) = (Null, Errno, Whole, ''Calloc error'')"
| "tested (C_free ptr) = (Never, Plain, Nothing, '''')"
| "tested (C_fclose fp) = (Nonzero, Errno, Nothing, ''Fclose error'')"
| "tested (C_fdopen fd type) = (Null, Errno, Whole, ''Fdopen error'')"
| "tested (C_fgets ptr n stream) = (Null_Error stream, Plain, Whole, ''Fgets error'')"
| "tested (C_fopen filename md) = (Null, Errno, Whole, ''Fopen error'')"
| "tested (C_fputs ptr stream) = (Eof, Errno, Nothing, ''Fputs error'')"
| "tested (C_fread ptr sz nmemb stream) = (Short_Error nmemb stream, Errno, Whole, ''Fread error'')"
| "tested (C_fwrite ptr sz nmemb stream) = (Short nmemb, Errno, Nothing, ''Fwrite error'')"
| "tested (C_gethostbyaddr addr len type) = (Null, Dns, Whole, ''Gethostbyaddr error'')"
| "tested (C_pthread_create tidp attrp routine argp) = (Nonzero, Code, Nothing, ''Pthread_create error'')"
| "tested (C_pthread_cancel tid) = (Nonzero, Code, Nothing, ''Pthread_cancel error'')"
| "tested (C_pthread_join tid thread_return) = (Nonzero, Code, Nothing, ''Pthread_join error'')"
| "tested (C_pthread_detach tid) = (Nonzero, Code, Nothing, ''Pthread_detach error'')"
| "tested (C_pthread_self) = (Never, Plain, Whole, '''')"
| "tested (C_pthread_once once_control init_function) = (Never, Plain, Nothing, '''')"
| "tested (C_sem_init sem pshared val) = (Negative, Errno, Nothing, ''Sem_init error'')"
| "tested (C_sem_wait sem) = (Negative, Errno, Nothing, ''P error'')"
| "tested (C_sem_post sem) = (Negative, Errno, Nothing, ''V error'')"

definition noticed :: "'os unix \<Rightarrow> call \<times> u64 \<times> 'os \<Rightarrow> bool" where
  "noticed u = (\<lambda>(c, v, os). case fst (tested c) of
     Never \<Rightarrow> False
   | Negative \<Rightarrow> bit v 31
   | Negative_Long \<Rightarrow> bit v 63
   | Nonzero \<Rightarrow> take_bit 32 v \<noteq> 0
   | Null \<Rightarrow> v = 0
   | All_Ones \<Rightarrow> v = 0xFFFFFFFFFFFFFFFF
   | Eof \<Rightarrow> take_bit 32 v = 0xFFFFFFFF
   | Null_Error f \<Rightarrow> v = 0 \<and> ferror u f os
   | Short n \<Rightarrow> v < n
   | Short_Error n f \<Rightarrow> v < n \<and> ferror u f os)"

definition complaint :: "'os unix \<Rightarrow> call \<times> u64 \<times> 'os \<Rightarrow> string" where
  "complaint u = (\<lambda>(c, v, os).
     let (how, what, shape, msg) = tested c
     in msg @ (case what of
          Errno \<Rightarrow> '': '' @ strerror u (errno u os)
        | Code \<Rightarrow> '': '' @ strerror u (ucast v)
        | Dns \<Rightarrow> '': DNS error '' @ fmt_d (sint (h_errno u os))
        | Plain \<Rightarrow> '''') @ [CHR 0x0A])"

definition result :: "'os unix \<Rightarrow> call \<times> u64 \<times> 'os \<Rightarrow> u64" where
  "result u = (\<lambda>(c, v, os). case fst (snd (snd (tested c))) of
     Nothing \<Rightarrow> 0 | Lower \<Rightarrow> take_bit 32 v | Whole \<Rightarrow> v | Old_Handler \<Rightarrow> old_handler u os)"

text \<open>The calls one after the other without wrappers: each with its result and the state after it.\<close>

fun bare :: "('c \<Rightarrow> 'os \<Rightarrow> u64 \<times> 'os) \<Rightarrow> 'c list \<Rightarrow> 'os \<Rightarrow> ('c \<times> u64 \<times> 'os) list" where
  "bare f [] os = []"
| "bare f (c # cs) os = (case f c os of (v, os) \<Rightarrow> (c, v, os) # bare f cs os)"

fun last_state :: "'os \<Rightarrow> ('c \<times> u64 \<times> 'os) list \<Rightarrow> 'os" where
  "last_state os [] = os"
| "last_state os ((c, v, os') # xs) = last_state os' xs"

text \<open>\<^verbatim>\<open>Signal\<close> is the one wrapper that completes the arguments: it asks for no blocked signals and for restarted calls.\<close>

fun completed :: "call \<Rightarrow> call" where
  "completed (C_sigaction signum action) = C_sigaction signum (restarting (sa_handler action))"
| "completed c = c"

section \<open>The contract of a wrapper\<close>

locale wrapping =
  fixes wrap :: "'c \<Rightarrow> ('os, u64) run" and call_c :: "'c \<Rightarrow> 'os \<Rightarrow> u64 \<times> 'os"
    and bad :: "'c \<times> u64 \<times> 'os \<Rightarrow> bool" and text_c :: "'c \<times> u64 \<times> 'os \<Rightarrow> string" and res :: "'c \<times> u64 \<times> 'os \<Rightarrow> u64"
  assumes wrap_law: "call_c c os = (v, os') \<Longrightarrow>
    wrap c (os, err) = (if bad (c, v, os') then (Inl (Exit 0), os', err @ text_c (c, v, os')) else (Inr (res (c, v, os')), os', err))"
begin

lemma performs_bare:
  "performs wrap cs (os, err) =
    (case dropWhile (\<lambda>x. \<not> bad x) (bare call_c cs os) of
       [] \<Rightarrow> (Inr (map res (bare call_c cs os)), last_state os (bare call_c cs os), err)
     | (c, v, os') # xs \<Rightarrow> (Inl (Exit 0), os', err @ text_c (c, v, os')))"
proof (induction cs arbitrary: os)
  case Nil
  then show ?case by simp
next
  case (Cons c cs)
  obtain v os' where c: "call_c c os = (v, os')" by (cases "call_c c os")
  show ?case using wrap_law[OF c] Cons.IH[of os'] by (auto simp: c simp del: dropWhile_eq_Nil_conv split: list.splits)
qed

end

lemmas wrapper_defs = checked_c_def plain_call_def int_negative_def long_negative_def is_null_def nonzero_def give_def
  unix_error_c_def posix_error_def dns_error_c_def app_error_def

lemmas wrappers =
  Fork_def Execve_def Wait_def Waitpid_def Kill_def Pause_def Sleep_def Alarm_def Setpgid_def Getpgrp_def
  Sigprocmask_def Sigemptyset_def Sigfillset_def Sigaddset_def Sigdelset_def Sigismember_def Open_def
  Lseek_def Close_def Select_def Dup2_def Stat_def Fstat_def Mmap_def Munmap_def Malloc_def Realloc_def
  Calloc_def Free_def Fclose_def Fdopen_def Fgets_def Fopen_def Fputs_def Fread_def Fwrite_def
  Gethostbyaddr_def Pthread_create_def Pthread_cancel_def Pthread_join_def Pthread_detach_def Pthread_self_def
  Pthread_once_def Sem_init_def P_c_def V_c_def Signal_def

lemma register_halves:
  fixes v :: u64
  shows "sint (ucast v :: u32) < 0 \<longleftrightarrow> bit v 31" "sint v < 0 \<longleftrightarrow> bit v 63"
    "(ucast v :: u32) = 0 \<longleftrightarrow> take_bit 32 v = 0" "(ucast v :: u32) = - 1 \<longleftrightarrow> take_bit 32 v = 0xFFFFFFFF"
    "ucast (ucast v :: u32) = take_bit 32 v" "(- 1 :: u64) = 0xFFFFFFFFFFFFFFFF"
proof -
  show "sint (ucast v :: u32) < 0 \<longleftrightarrow> bit v 31" "sint v < 0 \<longleftrightarrow> bit v 63"
    by (simp_all add: bit_last_iff[symmetric] bit_simps)
  show wide: "ucast (ucast v :: u32) = take_bit 32 v" by (rule bit_word_eqI) (auto simp: bit_simps)
  show "(- 1 :: u64) = 0xFFFFFFFFFFFFFFFF" by simp
  have "(ucast (take_bit 32 v) :: u32) = ucast v" by (rule bit_word_eqI) (auto simp: bit_simps)
  then have half: "(ucast v :: u32) = a \<longleftrightarrow> take_bit 32 v = ucast a" if "ucast (ucast a :: u64) = a" for a
    using wide that by metis
  have ones: "ucast (ucast (- 1 :: u32) :: u64) = (- 1 :: u32)" "ucast (- 1 :: u32) = (0xFFFFFFFF :: u64)" by code_simp+
  show "(ucast v :: u32) = 0 \<longleftrightarrow> take_bit 32 v = 0" "(ucast v :: u32) = - 1 \<longleftrightarrow> take_bit 32 v = 0xFFFFFFFF"
    using half[of 0] half[OF ones(1)] by (simp_all add: ones(2))
qed

interpretation csapp: wrapping "perform u" "invoke u \<circ> completed" "noticed u" "complaint u" "result u" for u :: "'os unix"
proof unfold_locales
  fix c os v os' err
  assume "(invoke u \<circ> completed) c os = (v, os')"
  then show "perform u c (os, err) = (if noticed u (c, v, os') then (Inl (Exit 0), os', err @ complaint u (c, v, os'))
      else (Inr (result u (c, v, os')), os', err))"
    by (cases c) (simp_all add: wrappers wrapper_defs noticed_def complaint_def result_def register_halves)
qed

section \<open>The manuals\<close>

text \<open>What the manuals say of the result of a call: the value that means failure.  \<^verbatim>\<open>malloc\<close> and its relatives may return a null
  pointer for an empty request without a failure; \<^verbatim>\<open>fgets\<close> and \<^verbatim>\<open>fread\<close> also stop at the end of the file, and \<^verbatim>\<open>ferror\<close> tells;
  \<^verbatim>\<open>pause\<close> returns \<open>-1\<close> whenever it returns.\<close>

datatype documentation =
    Cannot_Fail
  | Minus_One
  | Minus_One_Long
  | Error_Number
  | Null_Pointer
  | Null_Unless_Empty bool
  | Map_Failed
  | Eof_Value
  | Eof_Else_Zero
  | Null_On_Error u64
  | Short_Count u64
  | Short_On_Error u64 u64

fun manual :: "call \<Rightarrow> documentation" where
  "manual (C_fork) = Minus_One"
| "manual (C_execve filename argv envp) = Minus_One"
| "manual (C_wait status) = Minus_One"
| "manual (C_waitpid pid iptr options) = Minus_One"
| "manual (C_kill pid signum) = Minus_One"
| "manual (C_pause) = Cannot_Fail"
| "manual (C_sleep secs) = Cannot_Fail"
| "manual (C_alarm seconds) = Cannot_Fail"
| "manual (C_setpgid pid pgid) = Minus_One"
| "manual (C_getpgrp) = Cannot_Fail"
| "manual (C_sigaction signum action) = Minus_One"
| "manual (C_sigprocmask how sigs oldset) = Minus_One"
| "manual (C_sigemptyset sigs) = Minus_One"
| "manual (C_sigfillset sigs) = Minus_One"
| "manual (C_sigaddset sigs signum) = Minus_One"
| "manual (C_sigdelset sigs signum) = Minus_One"
| "manual (C_sigismember sigs signum) = Minus_One"
| "manual (C_open pathname flags md) = Minus_One"
| "manual (C_lseek fildes offset whence) = Minus_One_Long"
| "manual (C_close fd) = Minus_One"
| "manual (C_select n readfds writefds exceptfds timeout) = Minus_One"
| "manual (C_dup2 fd1 fd2) = Minus_One"
| "manual (C_stat filename buf) = Minus_One"
| "manual (C_fstat fd buf) = Minus_One"
| "manual (C_mmap addr len prot flags fd offset) = Map_Failed"
| "manual (C_munmap start sz) = Minus_One"
| "manual (C_malloc sz) = Null_Unless_Empty (sz = 0)"
| "manual (C_realloc ptr sz) = Null_Unless_Empty (sz = 0)"
| "manual (C_calloc nmemb sz) = Null_Unless_Empty (nmemb = 0 \<or> sz = 0)"
| "manual (C_free ptr) = Cannot_Fail"
| "manual (C_fclose fp) = Eof_Else_Zero"
| "manual (C_fdopen fd type) = Null_Pointer"
| "manual (C_fgets ptr n stream) = Null_On_Error stream"
| "manual (C_fopen filename md) = Null_Pointer"
| "manual (C_fputs ptr stream) = Eof_Value"
| "manual (C_fread ptr sz nmemb stream) = Short_On_Error nmemb stream"
| "manual (C_fwrite ptr sz nmemb stream) = Short_Count nmemb"
| "manual (C_gethostbyaddr addr len type) = Null_Pointer"
| "manual (C_pthread_create tidp attrp routine argp) = Error_Number"
| "manual (C_pthread_cancel tid) = Error_Number"
| "manual (C_pthread_join tid thread_return) = Error_Number"
| "manual (C_pthread_detach tid) = Error_Number"
| "manual (C_pthread_self) = Cannot_Fail"
| "manual (C_pthread_once once_control init_function) = Error_Number"
| "manual (C_sem_init sem pshared val) = Minus_One"
| "manual (C_sem_wait sem) = Minus_One"
| "manual (C_sem_post sem) = Minus_One"

definition failed :: "'os unix \<Rightarrow> call \<times> u64 \<times> 'os \<Rightarrow> bool" where
  "failed u = (\<lambda>(c, v, os). case manual c of
     Cannot_Fail \<Rightarrow> False
   | Minus_One \<Rightarrow> take_bit 32 v = 0xFFFFFFFF
   | Minus_One_Long \<Rightarrow> v = 0xFFFFFFFFFFFFFFFF
   | Error_Number \<Rightarrow> take_bit 32 v \<noteq> 0
   | Null_Pointer \<Rightarrow> v = 0
   | Null_Unless_Empty e \<Rightarrow> v = 0 \<and> \<not> e
   | Map_Failed \<Rightarrow> v = 0xFFFFFFFFFFFFFFFF
   | Eof_Value \<Rightarrow> take_bit 32 v = 0xFFFFFFFF
   | Eof_Else_Zero \<Rightarrow> take_bit 32 v = 0xFFFFFFFF
   | Null_On_Error f \<Rightarrow> v = 0 \<and> ferror u f os
   | Short_Count n \<Rightarrow> v < n
   | Short_On_Error n f \<Rightarrow> v < n \<and> ferror u f os)"

text \<open>The values that the manuals allow: a result is not negative unless it is \<open>-1\<close>, and \<^verbatim>\<open>fclose\<close> gives 0 or \<^verbatim>\<open>EOF\<close>.\<close>

definition may_return :: "documentation \<Rightarrow> u64 \<Rightarrow> bool" where
  "may_return d v \<longleftrightarrow> (case d of
     Minus_One \<Rightarrow> bit v 31 \<longrightarrow> take_bit 32 v = 0xFFFFFFFF
   | Minus_One_Long \<Rightarrow> bit v 63 \<longrightarrow> v = 0xFFFFFFFFFFFFFFFF
   | Eof_Else_Zero \<Rightarrow> take_bit 32 v = 0 \<or> take_bit 32 v = 0xFFFFFFFF
   | _ \<Rightarrow> True)"

definition documented :: "'os unix \<Rightarrow> bool" where
  "documented u \<longleftrightarrow> (\<forall>c os. may_return (manual c) (fst (invoke u c os)))"

text \<open>The calls where a wrapper does not follow the manual.\<close>

fun ignored :: "call \<Rightarrow> bool" where
  "ignored (C_pthread_once once_control init_function) = True"
| "ignored c = False"

fun empty_request :: "call \<Rightarrow> bool" where
  "empty_request (C_malloc sz) = (sz = 0)"
| "empty_request (C_realloc ptr sz) = (sz = 0)"
| "empty_request (C_calloc nmemb sz) = (nmemb = 0 \<or> sz = 0)"
| "empty_request c = False"

lemma manual_completed: "manual (completed c) = manual c"
  by (cases c) simp_all

lemma minus_one: "take_bit 32 (v :: u64) = 0xFFFFFFFF \<Longrightarrow> bit v 31"
  by (simp flip: register_halves(1,4))

lemma noticed_manual:
  assumes "documented u" "(invoke u \<circ> completed) c os = (v, os')"
  shows "noticed u (c, v, os') \<longleftrightarrow> failed u (c, v, os') \<and> \<not> ignored c \<or> v = 0 \<and> empty_request c"
proof -
  have "may_return (manual c) (fst (invoke u (completed c) os))"
    using assms(1) manual_completed[of c] unfolding documented_def by metis
  then have "may_return (manual c) v" using assms(2) by simp
  then show ?thesis
    using minus_one[of v] by (cases c) (auto simp: noticed_def failed_def may_return_def)
qed

lemma bare_results: "(c, v, os') \<in> set (bare f cs os) \<Longrightarrow> \<exists>os0. f c os0 = (v, os')"
  by (induction cs arbitrary: os) (auto split: prod.splits)

section \<open>Property\<close>


text \<open>A system on which \<^verbatim>\<open>close\<close> fails.\<close>

definition failing_close :: "unit unix" where
  "failing_close = \<lparr>invoke = (\<lambda>c os. (case c of C_close fd \<Rightarrow> 0xFFFFFFFF | _ \<Rightarrow> 0, os)), errno = (\<lambda>os. 9), h_errno = (\<lambda>os. 0),
     strerror = (\<lambda>n. if n = 9 then ''Bad file descriptor'' else ''Success''), ferror = (\<lambda>f os. False), old_handler = (\<lambda>os. 0),
     end_thread = (\<lambda>v os. os)\<rparr>"


end
