(* ===== verification/Options.thy ===== *)
theory Options
  imports Process
begin

text \<open>
  The command line of the simulator: \<^verbatim>\<open>getopt_long\<close> with the tables that \<^verbatim>\<open>main\<close> gives it, and the usage texts of the
  two programs.  \<^verbatim>\<open>getopt_long\<close> follows its manual: options and operands may be mixed, \<open>--\<close> ends the options,
  short options may be joined, an argument may follow in the same word or in the next one, and a long
  name may be shortened as long as it is unique.
\<close>

section \<open>getopt\_long\<close>

text \<open>A long option: its name, whether it takes an argument, and the character it stands for.\<close>

type_synonym long_option = "u8 list \<times> bool \<times> char"

definition longopts :: "long_option list" where
  "longopts =
    [(ascii ''gdb-port'', True, CHR ''g''),
     (ascii ''irq-port'', True, CHR ''i''),
     (ascii ''trace-file'', True, CHR ''t''),
     (ascii ''trace-registers'', False, CHR ''r''),
     (ascii ''trace-memory'', False, CHR ''m''),
     (ascii ''trace-state'', False, CHR ''s''),
     (ascii ''trace-position'', False, CHR ''p''),
     (ascii ''help'', False, CHR ''h''),
     (ascii ''debug'', True, CHR ''d'')]"

definition optstring :: "u8 list" where
  "optstring = ascii ''g:i:ht:rmspd:''"

text \<open>A character in \<^verbatim>\<open>optstring\<close>: whether a colon follows it.\<close>

fun short_lookup :: "u8 list \<Rightarrow> u8 \<Rightarrow> bool option" where
  "short_lookup [] c = None"
| "short_lookup (x # xs) c = (if x = c \<and> c \<noteq> 58 then Some (xs \<noteq> [] \<and> hd xs = 58) else short_lookup xs c)"

fun short_options :: "u8 list \<Rightarrow> u8 list \<Rightarrow> u8 list list \<Rightarrow> (char \<times> u8 list) list \<times> u8 list list" where
  "short_options ss [] args = ([], args)"
| "short_options ss (c # cs) args =
     (case short_lookup ss c of
        None \<Rightarrow> (let (rs, args) = short_options ss cs args in ((CHR ''?'', []) # rs, args))
      | Some False \<Rightarrow> (let (rs, args) = short_options ss cs args in ((char_of (unat c), []) # rs, args))
      | Some True \<Rightarrow>
          if cs \<noteq> [] then ([(char_of (unat c), cs)], args)
          else (case args of [] \<Rightarrow> ([(CHR ''?'', [])], []) | a # args \<Rightarrow> ([(char_of (unat c), a)], args)))"

definition long_lookup :: "long_option list \<Rightarrow> u8 list \<Rightarrow> long_option option" where
  "long_lookup ls name =
     (case find (\<lambda>(n, a, c). n = name) ls of
        Some l \<Rightarrow> Some l
      | None \<Rightarrow> (case filter (\<lambda>(n, a, c). take (length name) n = name) ls of [l] \<Rightarrow> Some l | _ \<Rightarrow> None))"

definition long_option :: "long_option list \<Rightarrow> u8 list \<Rightarrow> u8 list list \<Rightarrow> (char \<times> u8 list) \<times> u8 list list" where
  "long_option ls word args =
    (let name = takeWhile (\<lambda>c. c \<noteq> 61) word; val = drop (length name) word
     in case long_lookup ls name of
          None \<Rightarrow> ((CHR ''?'', []), args)
        | Some (n, False, c) \<Rightarrow> (if val = [] then (c, []) else (CHR ''?'', []), args)
        | Some (n, True, c) \<Rightarrow>
            if val \<noteq> [] then ((c, tl val), args)
            else case args of [] \<Rightarrow> ((CHR ''?'', []), []) | a # args \<Rightarrow> ((c, a), args))"

text \<open>The options that the calls of \<^verbatim>\<open>getopt_long\<close> return, one after the other, with \<^verbatim>\<open>optarg\<close>.\<close>

lemma short_options_rest: "short_options ss cs args = (rs, rest) \<Longrightarrow> length rest \<le> length args"
  by (induction ss cs args arbitrary: rs rest rule: short_options.induct)
    (fastforce split: option.splits bool.splits prod.splits if_splits list.splits)+

lemma long_option_rest: "long_option ls word args = (r, rest) \<Longrightarrow> length rest \<le> length args"
  by (auto simp: long_option_def Let_def split: option.splits bool.splits if_splits list.splits prod.splits)

function getopt_long :: "u8 list \<Rightarrow> long_option list \<Rightarrow> u8 list list \<Rightarrow> (char \<times> u8 list) list" where
  "getopt_long ss ls [] = []"
| "getopt_long ss ls (a # args) =
     (if a = [45, 45] then []
      else if take 2 a = [45, 45] then
        (let (r, rest) = long_option ls (drop 2 a) args in r # getopt_long ss ls rest)
      else if take 1 a = [45] \<and> a \<noteq> [45] then
        (let (rs, rest) = short_options ss (tl a) args in rs @ getopt_long ss ls rest)
      else getopt_long ss ls args)"
  by pat_completeness auto
termination
  by (relation "measure (\<lambda>(ss, ls, args). length args)")
    (auto dest: short_options_rest[OF sym] long_option_rest[OF sym])

section \<open>The options of main\<close>

definition main_args :: "u8 list set \<Rightarrow> u8 list list \<Rightarrow> options outcome" where
  "main_args can_open argv = main_options can_open start_options (getopt_long optstring longopts (tl argv))"

section \<open>Usage texts\<close>

abbreviation (input) newline :: string where "newline \<equiv> [CHR 0x0A]"

definition usage :: "string \<Rightarrow> string" where
  "usage name = ''Usage:'' @ newline @ name @
     '' [ --help ] [ --gdb-port port ] [ --irq-port port ] '' @
     ''[ --trace-file file ] [ --trace-registers ] [ --trace-memory ] '' @
     ''[ --trace-state ] [ --trace-position ] [ --debug filename ]'' @ newline @ newline @
     ''Start an ARMv5 instruction set simulator that acts as a gdb server '' @
     ''and can receive interrupts. It is possible to specify on which ports '' @
     ''the simulator listen to gdb client or irq sending program '' @
     ''connections. Trace options have the following behavior:'' @ newline @
     ''- trace file: file into which trace information is stored (default is'' @
     '' stdout)'' @ newline @
     ''- trace registers: outputs informations about each access to'' @
     '' registers'' @ newline @
     ''- trace memory: outputs informations about each access to memory'' @ newline @
     ''- trace state: outputs the processor state after each instruction'' @ newline @
     ''- trace position: for each traced access, outputs the file and line'' @
     '' at which the access has been performed'' @ newline @
     ''The debug switch enable selective reporting of debug messages on a '' @
     ''per source file basis'' @ newline"

text \<open>The loop \<^verbatim>\<open>for (irq = RESET; (irq_name = arm_get_exception_name(irq)); irq++)\<close> of \<^verbatim>\<open>send_irq\<close> without arguments.\<close>

function usage_names :: "u8 \<Rightarrow> string outcome" where
  "usage_names irq =
     bnd (arm_get_exception_name irq) (\<lambda>n.
       case n of
         None \<Rightarrow> Inr ''''
       | Some irq_name \<Rightarrow>
           bnd (usage_names (irq + 1)) (\<lambda>rest.
           Inr (irq_name @ (if irq = 6 then [CHR 0x09, CHR 0x09] @ ''(default)'' else '''') @ newline @ rest)))"
  by pat_completeness auto
termination
proof (relation "measure (\<lambda>irq. 8 - unat irq)", goal_cases)
  case (2 irq n s)
  then have "unat irq < 8" by (auto simp: arm_get_exception_name_def word_less_nat_alt split: if_splits)
  moreover from this have "unat (irq + 1) = unat irq + 1" by (simp add: unat_word_ariths)
  ultimately show ?case by simp
qed simp

declare usage_names.simps [simp del]

definition send_irq_usage :: "string \<Rightarrow> string outcome" where
  "send_irq_usage prog =
     bnd (usage_names 1) (\<lambda>names.
     Inr (''Usage :'' @ prog @ '' host port [ IRQ name ]'' @ newline @ newline @
       ''Sends an IRQ signal to the ARM simulator executing on the given host using the given port.'' @ newline @
       ''The IRQ name is one of :'' @ newline @ names))"

section \<open>Spelling of options\<close>

text \<open>The ways to write an option: with the long or the short name, and with an argument in the same word or in the
  next one.\<close>

datatype item =
    Operand "u8 list"
  | Option (is_long: bool) (is_joined: bool) (entry: long_option) (argument: "u8 list")

fun valid :: "item \<Rightarrow> bool" where
  "valid (Operand a) \<longleftrightarrow> take 1 a \<noteq> [45] \<or> a = [45]"
| "valid (Option long joined (n, arg, c) a) \<longleftrightarrow> (n, arg, c) \<in> set longopts
     \<and> (if arg then \<not> long \<and> joined \<longrightarrow> a \<noteq> [] else a = [])"

fun spell :: "item \<Rightarrow> u8 list list" where
  "spell (Operand a) = [a]"
| "spell (Option long joined (n, arg, c) a) =
     (let word = (if long then 45 # 45 # n else [45, of_char c])
      in if \<not> arg then [word] else if joined then [word @ (if long then [61] else []) @ a] else [word, a])"

fun meaning :: "item \<Rightarrow> (char \<times> u8 list) list" where
  "meaning (Operand a) = []"
| "meaning (Option long joined (n, arg, c) a) = [(c, a)]"

lemma option_tables:
  "\<forall>(n, arg, c) \<in> set longopts. long_lookup longopts n = Some (n, arg, c) \<and> 61 \<notin> set n \<and> n \<noteq> []
     \<and> short_lookup optstring (of_char c) = Some arg \<and> char_of (unat (of_char c :: u8)) = c \<and> (of_char c :: u8) \<noteq> 45"
  by code_simp

lemma getopt_item:
  assumes "valid x"
  shows "getopt_long optstring longopts (spell x @ rest) = meaning x @ getopt_long optstring longopts rest"
proof (cases x)
  case (Operand a)
  have "take 2 a \<noteq> [45, 45]" if "take 1 a \<noteq> [45]" using that by (cases a) auto
  then show ?thesis using assms Operand by (auto simp: Let_def)
next
  case (Option long joined l a)
  obtain n arg c where l: "l = (n, arg, c)" by (cases l)
  then have tab: "long_lookup longopts n = Some (n, arg, c)" "61 \<notin> set n" "n \<noteq> []"
      "short_lookup optstring (of_char c) = Some arg" "char_of (unat (of_char c :: u8)) = c" "(of_char c :: u8) \<noteq> 45"
    using option_tables assms Option by auto
  have name: "takeWhile (\<lambda>c. c \<noteq> 61) n = n" using tab(2) by (auto simp: takeWhile_eq_all_conv)
  then have name_eq: "takeWhile (\<lambda>c. c \<noteq> 61) (n @ 61 # a) = n" by (simp add: takeWhile_append)
  have long: "long_option longopts n args =
      (if arg then case args of [] \<Rightarrow> ((CHR ''?'', []), []) | a # args \<Rightarrow> ((c, a), args) else ((c, []), args))"
      "arg \<Longrightarrow> long_option longopts (n @ 61 # a) args = ((c, a), args)" for args
    using tab(1) by (cases arg; simp add: long_option_def name name_eq)+
  show ?thesis
    using assms tab(3-) Option l by (cases long; cases arg; cases joined) (simp_all add: long Let_def)
qed

lemma getopt_items:
  assumes "\<forall>x \<in> set xs. valid x"
  shows "getopt_long optstring longopts (concat (map spell xs)) = concat (map meaning xs)"
  using assms by (induction xs) (simp_all add: getopt_item)

section \<open>What the options set\<close>

fun last_arg :: "char \<Rightarrow> (char \<times> u8 list) list \<Rightarrow> u8 list option" where
  "last_arg c [] = None"
| "last_arg c ((c', a) # opts) = (case last_arg c opts of Some b \<Rightarrow> Some b | None \<Rightarrow> if c' = c then Some a else None)"

definition flag_of :: "char \<Rightarrow> u32" where
  "flag_of c = (if c = CHR ''r'' then REGISTERS else if c = CHR ''m'' then MEMORY
     else if c = CHR ''s'' then STATE else if c = CHR ''p'' then POSITION else 0)"

definition debug_names :: "(char \<times> u8 list) list \<Rightarrow> u8 list list" where
  "debug_names opts = map snd (filter (\<lambda>(c, a). c = CHR ''d'') opts)"

lemma main_option_set:
  assumes "c \<in> set ''gitrmspd''" "c = CHR ''t'' \<longrightarrow> a \<in> can_open" "wf_debug (opt_debug s)"
    "c = CHR ''d'' \<longrightarrow> nb_debugged_files (opt_debug s) < MAX_FILES_NUMBER"
  shows "\<exists>s'. main_option can_open s (c, a) = Inr s'
    \<and> gdb_port s' = (if c = CHR ''g'' then ucast (atoi a) else gdb_port s)
    \<and> irq_port s' = (if c = CHR ''i'' then ucast (atoi a) else irq_port s)
    \<and> trace_file s' = (if c = CHR ''t'' then Some a else trace_file s)
    \<and> trace_flags (opt_trace s') = trace_flags (opt_trace s) OR flag_of c
    \<and> wf_debug (opt_debug s') \<and> set (names (opt_debug s')) = (if c = CHR ''d'' then {a} else {}) \<union> set (names (opt_debug s))
    \<and> nb_debugged_files (opt_debug s') = nb_debugged_files (opt_debug s) + (if c = CHR ''d'' then 1 else 0)"
proof (cases "c = CHR ''d''")
  case True
  then obtain d where "add_debug_to (opt_debug s) a = Inr d" "wf_debug d" "set (names d) = insert a (set (names (opt_debug s)))"
      "nb_debugged_files d = nb_debugged_files (opt_debug s) + 1"
    using debug_set.add_elem[OF assms(3), of a] assms(4) by (auto simp: returns_def)
  then show ?thesis using True by (simp add: main_option_def flag_of_def)
next
  case False
  then show ?thesis using assms by (auto simp: main_option_def flag_of_def trace_add_def)
qed

lemma main_options_set:
  assumes "\<forall>(c, a) \<in> set opts. c \<in> set ''gitrmspd'' \<and> (c = CHR ''t'' \<longrightarrow> a \<in> can_open)"
    and "wf_debug (opt_debug s)" "nb_debugged_files (opt_debug s) + length (debug_names opts) \<le> MAX_FILES_NUMBER"
  shows "\<exists>s'. main_options can_open s opts = Inr s'
    \<and> gdb_port s' = (case last_arg (CHR ''g'') opts of None \<Rightarrow> gdb_port s | Some a \<Rightarrow> ucast (atoi a))
    \<and> irq_port s' = (case last_arg (CHR ''i'') opts of None \<Rightarrow> irq_port s | Some a \<Rightarrow> ucast (atoi a))
    \<and> trace_file s' = (case last_arg (CHR ''t'') opts of None \<Rightarrow> trace_file s | Some a \<Rightarrow> Some a)
    \<and> trace_flags (opt_trace s') = fold (\<lambda>x y. y OR x) (map (flag_of \<circ> fst) opts) (trace_flags (opt_trace s))
    \<and> wf_debug (opt_debug s') \<and> set (names (opt_debug s')) = set (debug_names opts) \<union> set (names (opt_debug s))"
  using assms
proof (induction opts arbitrary: s)
  case Nil
  then show ?case by (simp add: debug_names_def)
next
  case (Cons x opts)
  obtain c a where x: "x = (c, a)" by (cases x)
  obtain s1 where s1: "main_option can_open s (c, a) = Inr s1"
      "gdb_port s1 = (if c = CHR ''g'' then ucast (atoi a) else gdb_port s)"
      "irq_port s1 = (if c = CHR ''i'' then ucast (atoi a) else irq_port s)"
      "trace_file s1 = (if c = CHR ''t'' then Some a else trace_file s)"
      "trace_flags (opt_trace s1) = trace_flags (opt_trace s) OR flag_of c" "wf_debug (opt_debug s1)"
      "set (names (opt_debug s1)) = (if c = CHR ''d'' then {a} else {}) \<union> set (names (opt_debug s))"
      "nb_debugged_files (opt_debug s1) = nb_debugged_files (opt_debug s) + (if c = CHR ''d'' then 1 else 0)"
    using main_option_set[of c a can_open s] Cons.prems x by (auto simp: debug_names_def split: if_splits)
  have names: "debug_names (x # opts) = (if c = CHR ''d'' then [a] else []) @ debug_names opts" by (simp add: debug_names_def x)
  have pre: "\<forall>(c, a) \<in> set opts. c \<in> set ''gitrmspd'' \<and> (c = CHR ''t'' \<longrightarrow> a \<in> can_open)"
    using Cons.prems(1) by simp
  have room: "nb_debugged_files (opt_debug s1) + length (debug_names opts) \<le> MAX_FILES_NUMBER"
    using Cons.prems(3) s1(8) names by (simp split: if_splits)
  obtain s' where s': "main_options can_open s1 opts = Inr s'"
      "gdb_port s' = (case last_arg (CHR ''g'') opts of None \<Rightarrow> gdb_port s1 | Some a \<Rightarrow> ucast (atoi a))"
      "irq_port s' = (case last_arg (CHR ''i'') opts of None \<Rightarrow> irq_port s1 | Some a \<Rightarrow> ucast (atoi a))"
      "trace_file s' = (case last_arg (CHR ''t'') opts of None \<Rightarrow> trace_file s1 | Some a \<Rightarrow> Some a)"
      "trace_flags (opt_trace s') = fold (\<lambda>x y. y OR x) (map (flag_of \<circ> fst) opts) (trace_flags (opt_trace s1))"
      "wf_debug (opt_debug s')" "set (names (opt_debug s')) = set (debug_names opts) \<union> set (names (opt_debug s1))"
    using Cons.IH[OF pre s1(6) room] by (elim exE conjE) (rule that)
  show ?case
    by (intro exI[of _ s'] conjI) (simp_all add: s' s1 x names[unfolded x] comp_def split: option.split)
qed

lemma main_args_set:
  assumes "\<forall>x \<in> set items. valid x" and "concat (map meaning items) = opts"
    and "\<forall>(c, a) \<in> set opts. c \<noteq> CHR ''h'' \<and> (c = CHR ''t'' \<longrightarrow> a \<in> can_open)" and "length (debug_names opts) \<le> MAX_FILES_NUMBER"
  shows "\<exists>s. main_args can_open (prog # concat (map spell items)) = Inr s
    \<and> gdb_port s = (case last_arg (CHR ''g'') opts of None \<Rightarrow> 0 | Some a \<Rightarrow> ucast (atoi a))
    \<and> irq_port s = (case last_arg (CHR ''i'') opts of None \<Rightarrow> 0 | Some a \<Rightarrow> ucast (atoi a))
    \<and> trace_file s = last_arg (CHR ''t'') opts
    \<and> trace_flags (opt_trace s) = fold (\<lambda>x y. y OR x) (map (flag_of \<circ> fst) opts) 0
    \<and> (\<forall>name. is_debugged (opt_debug s) name = Inr ((CHR ''d'', name) \<in> set opts))"
proof -
  have "c \<in> set ''gitrmspdh''" if "(c, a) \<in> set (meaning x)" "valid x" for c a x
    using that by (cases x rule: valid.cases) (auto simp: longopts_def)
  then have "c \<in> set ''gitrmspdh''" if "(c, a) \<in> set opts" for c a using that assms(1,2) by fastforce
  then have known: "\<forall>(c, a) \<in> set opts. c \<in> set ''gitrmspd'' \<and> (c = CHR ''t'' \<longrightarrow> a \<in> can_open)"
    using assms(3) by fastforce
  have start: "gdb_port start_options = 0" "irq_port start_options = 0" "trace_file start_options = None"
      "trace_flags (opt_trace start_options) = 0" "wf_debug (opt_debug start_options)"
      "names (opt_debug start_options) = []" "nb_debugged_files (opt_debug start_options) = 0"
    using wf_debug_start by (simp_all add: start_options_def debug_start_def trace_start_def names_def)
  have room: "nb_debugged_files (opt_debug start_options) + length (debug_names opts) \<le> MAX_FILES_NUMBER"
    using assms(4) start(7) by simp
  obtain s where s: "main_options can_open start_options opts = Inr s"
      "gdb_port s = (case last_arg (CHR ''g'') opts of None \<Rightarrow> 0 | Some a \<Rightarrow> ucast (atoi a))"
      "irq_port s = (case last_arg (CHR ''i'') opts of None \<Rightarrow> 0 | Some a \<Rightarrow> ucast (atoi a))"
      "trace_file s = last_arg (CHR ''t'') opts"
      "trace_flags (opt_trace s) = fold (\<lambda>x y. y OR x) (map (flag_of \<circ> fst) opts) 0"
      "wf_debug (opt_debug s)" "set (names (opt_debug s)) = set (debug_names opts)"
    using main_options_set[OF known start(5) room] start by (auto split: option.splits)
  have "is_debugged (opt_debug s) name = Inr ((CHR ''d'', name) \<in> set opts)" for name
    using debug_set.member_elem[OF s(6), of name] s(7) by (force simp: debug_names_def)
  then show ?thesis using s assms(2) getopt_items[OF assms(1)] by (auto simp: main_args_def)
qed

section \<open>Properties\<close>

text \<open>C18: the command line.  However options are spelled, long or short, with the argument in the same word or in the
  next one, and whatever operands stand between them, the simulator sees the options in their order, and starts with the
  ports, cut to 16 bits, and the trace file of the last options that give them, with every traced kind
  of access that an option names, and with the named files debugged.\<close>

theorem command_line:
  assumes "\<forall>x \<in> set items. valid x" and "concat (map meaning items) = opts"
    and "\<forall>(c, a) \<in> set opts. c \<noteq> CHR ''h'' \<and> (c = CHR ''t'' \<longrightarrow> a \<in> can_open)" and "length (debug_names opts) \<le> MAX_FILES_NUMBER"
  shows "\<exists>s. main_args can_open (prog # concat (map spell items)) = Inr s
    \<and> gdb_port s = (case last_arg (CHR ''g'') opts of None \<Rightarrow> 0 | Some a \<Rightarrow> ucast (atoi a))
    \<and> irq_port s = (case last_arg (CHR ''i'') opts of None \<Rightarrow> 0 | Some a \<Rightarrow> ucast (atoi a))
    \<and> trace_file s = last_arg (CHR ''t'') opts
    \<and> trace_flags (opt_trace s) = fold (\<lambda>x y. y OR x) (map (flag_of \<circ> fst) opts) 0
    \<and> (\<forall>name. is_debugged (opt_debug s) name = Inr ((CHR ''d'', name) \<in> set opts))"
  using assms by (rule main_args_set)

theorem command_line_witness:
  "\<exists>s. main_args {ascii ''out''}
        [ascii ''armator'', ascii ''--gdb-port=70000'', ascii ''file'', ascii ''-r'', ascii ''-tout'', ascii ''--debug'', ascii ''trace.c''] = Inr s
    \<and> gdb_port s = 4464 \<and> irq_port s = 0 \<and> trace_file s = Some (ascii ''out'') \<and> trace_flags (opt_trace s) = REGISTERS
    \<and> is_debugged (opt_debug s) (ascii ''trace.c'') = Inr True \<and> is_debugged (opt_debug s) (ascii ''debug.c'') = Inr False"
proof -
  define items where "items = [Option True True (ascii ''gdb-port'', True, CHR ''g'') (ascii ''70000''), Operand (ascii ''file''),
    Option False False (ascii ''trace-registers'', False, CHR ''r'') [], Option False True (ascii ''trace-file'', True, CHR ''t'') (ascii ''out''),
    Option True False (ascii ''debug'', True, CHR ''d'') (ascii ''trace.c'')]"
  define opts where "opts = [(CHR ''g'', ascii ''70000''), (CHR ''r'', []), (CHR ''t'', ascii ''out''), (CHR ''d'', ascii ''trace.c'')]"
  have "\<forall>x \<in> set items. valid x" unfolding items_def by code_simp
  moreover have "concat (map meaning items) = opts" by (simp add: items_def opts_def)
  moreover have "\<forall>(c, a) \<in> set opts. c \<noteq> CHR ''h'' \<and> (c = CHR ''t'' \<longrightarrow> a \<in> {ascii ''out''})" by (simp add: opts_def)
  moreover have "length (debug_names opts) \<le> MAX_FILES_NUMBER" by (simp add: opts_def debug_names_def)
  moreover have "concat (map spell items) =
      [ascii ''--gdb-port=70000'', ascii ''file'', ascii ''-r'', ascii ''-tout'', ascii ''--debug'', ascii ''trace.c'']"
    unfolding items_def by code_simp
  moreover have "ucast (atoi (ascii ''70000'')) = (4464 :: u16)"
    using atoi_decimal[of "ascii ''70000''" 70000] by (simp add: decimal_part_def ascii_def split_sign_def is_space_def digits_value_def digit_value_def)
  moreover have "last_arg (CHR ''g'') opts = Some (ascii ''70000'')" "last_arg (CHR ''i'') opts = None"
      "last_arg (CHR ''t'') opts = Some (ascii ''out'')" "fold (\<lambda>x y. y OR x) (map (flag_of \<circ> fst) opts) 0 = REGISTERS"
    by (simp_all add: opts_def flag_of_def)
  moreover have "(CHR ''d'', ascii ''trace.c'') \<in> set opts" by (simp add: opts_def)
  moreover have "(CHR ''d'', ascii ''debug.c'') \<notin> set opts" unfolding opts_def by code_simp
  ultimately show ?thesis
    using command_line[of items opts "{ascii ''out''}" "ascii ''armator''"] by auto
qed

text \<open>The usage text of \<^verbatim>\<open>send_irq\<close> lists the names that it accepts, and marks the one that it sends by default.\<close>

lemma usage_names_eq:
  assumes "0 < k" "k \<le> 8"
  shows "usage_names (of_nat k) = Inr (concat (map (\<lambda>k. the (arm_exception_names ! k) @
      (if k = 6 then [CHR 0x09, CHR 0x09] @ ''(default)'' else '''') @ newline) [k..<8]))"
  using assms
proof (induction "8 - k" arbitrary: k)
  case 0
  then have "k = 8" by simp
  then show ?case using exception_name[of 8] by (subst usage_names.simps) simp
next
  case (Suc n)
  then have k: "k < 8" "n = 8 - Suc k" "Suc k \<le> 8" by simp_all
  obtain name where name: "arm_exception_names ! k = Some name"
    using Suc.prems(1) k(1) by (auto simp: arm_exception_names_def less_Suc_eq numeral_eq_Suc nth_Cons')
  have up: "[k..<8] = k # [Suc k..<8]" using k(1) by (simp add: upt_conv_Cons)
  have nxt: "(of_nat k + 1 :: u8) = of_nat (Suc k)" by simp
  have six: "(of_nat k :: u8) = 6 \<longleftrightarrow> k = 6" using k(1) by (simp add: word_unat_eq_iff unsigned_of_nat take_bit_nat_eq_self)
  show ?case
    using exception_name[of k] k(1) Suc.hyps(1)[OF k(2) _ k(3)]
    by (subst usage_names.simps) (simp add: nxt six up name del: of_nat_Suc upt_rec_numeral)
qed

lemma send_irq_usage_names:
  "usage_names 1 = Inr (concat (map (\<lambda>k. the (arm_exception_names ! k) @
      (if send_irq_main [prog, host, port] = Inr (of_nat k) then [CHR 0x09, CHR 0x09] @ ''(default)'' else '''') @ newline) [1..<8]))"
  using usage_names_eq[of 1] by (simp add: send_irq_main_def upt_rec)

end
