(* ===== verification/Storage.thy ===== *)
theory Storage
  imports Simulator
begin

text \<open>
  The storage behind the values of the other theories: \<^verbatim>\<open>malloc\<close> and \<^verbatim>\<open>free\<close>, and the functions that create and
  destroy the memory, the register bank and the processor, with pointers between them.  A heap
  maps addresses to blocks; address 0 is the null pointer, and \<open>oom\<close> says which of the next
  allocations fail.  The accesses to the simulated memory are here on pointers too.  \<open>core_at\<close> reads the processor
  behind a pointer as the record that the other theories use.
\<close>

section \<open>The heap\<close>

datatype block =
    Raw
  | Bytes_Block "u8 list"
  | Memory_Block u64 int nat
  | Registers_Block registers_data
  | Core_Block u32 nat nat
  | Session_Block

record heap =
  store :: "nat \<Rightarrow> block option"
  next_block :: nat
  oom :: "bool list"

definition malloc :: "heap \<Rightarrow> block \<Rightarrow> nat \<times> heap" where
  "malloc h b =
     (if oom h \<noteq> [] \<and> hd (oom h) then (0, h\<lparr>oom := tl (oom h)\<rparr>)
      else (next_block h, h\<lparr>store := (store h)(next_block h \<mapsto> b), next_block := next_block h + 1, oom := tl (oom h)\<rparr>))"

definition free :: "heap \<Rightarrow> nat \<Rightarrow> heap outcome" where
  "free h a =
     (if a = 0 then Inr h else if store h a = None then Inl Freed else Inr (h\<lparr>store := (store h)(a := None)\<rparr>))"

definition block_at :: "heap \<Rightarrow> nat \<Rightarrow> block outcome" where
  "block_at h a = (if a = 0 then Inl Null_Deref else case store h a of None \<Rightarrow> Inl Freed | Some b \<Rightarrow> Inr b)"

definition put_block :: "heap \<Rightarrow> nat \<Rightarrow> block \<Rightarrow> heap outcome" where
  "put_block h a b = bnd (block_at h a) (\<lambda>x. Inr (h\<lparr>store := (store h)(a \<mapsto> b)\<rparr>))"

section \<open>Creation and destruction\<close>

text \<open>\<open>raw\<close> and \<open>content\<close> are what the allocated blocks hold.\<close>

definition memory_create_c :: "heap \<Rightarrow> u64 \<Rightarrow> int \<Rightarrow> u8 list \<Rightarrow> (nat \<times> heap) outcome" where
  "memory_create_c h sz be content =
    (let (m, h) = malloc h Raw
     in bnd (put_block h m (Memory_Block sz be 0)) (\<lambda>h.
        let (b, h) = malloc h (Bytes_Block content)
        in bnd (put_block h m (Memory_Block sz be b)) (\<lambda>h. Inr (m, h))))"

definition memory_destroy :: "heap \<Rightarrow> nat \<Rightarrow> heap outcome" where
  "memory_destroy h m =
     bnd (block_at h m) (\<lambda>b.
       case b of Memory_Block sz be bytes \<Rightarrow> bnd (free h bytes) (\<lambda>h. free h m) | _ \<Rightarrow> Inl Abort)"

definition registers_create_c :: "heap \<Rightarrow> registers_data \<Rightarrow> (nat \<times> heap) outcome" where
  "registers_create_c h raw =
    (let (r, h) = malloc h (Registers_Block raw)
     in bnd (put_block h r (Registers_Block (registers_create raw))) (\<lambda>h. Inr (r, h)))"

definition registers_destroy :: "heap \<Rightarrow> nat \<Rightarrow> heap outcome" where
  "registers_destroy h r = free h r"

text \<open>\<^verbatim>\<open>arm_exception\<close> on a pointer: only a reset looks at the processor, at its registers and not at its memory.\<close>

definition arm_exception_c :: "heap \<Rightarrow> nat \<Rightarrow> u8 \<Rightarrow> heap outcome" where
  "arm_exception_c h p exc =
     (if exc = 1 then
        bnd (block_at h p) (\<lambda>b.
          case b of
            Core_Block c r mp \<Rightarrow>
              bnd (block_at h r) (\<lambda>b.
                case b of
                  Registers_Block rd \<Rightarrow>
                    bnd (arm_exception \<lparr>cycle_count = c, reg = rd, mem = memory_create 0 0 []\<rparr> exc) (\<lambda>v.
                    put_block h r (Registers_Block (reg v)))
                | _ \<Rightarrow> Inl Abort)
          | _ \<Rightarrow> Inl Abort)
      else Inr h)"

definition arm_create_c :: "heap \<Rightarrow> nat \<Rightarrow> registers_data \<Rightarrow> (nat \<times> heap) outcome" where
  "arm_create_c h m raw =
    (let (p, h) = malloc h Raw
     in if p \<noteq> 0 then
          bnd (put_block h p (Core_Block 0 0 m)) (\<lambda>h.
          bnd (registers_create_c h raw) (\<lambda>(r, h).
          bnd (put_block h p (Core_Block 0 r m)) (\<lambda>h.
          bnd (arm_exception_c h p 1) (\<lambda>h.
          bnd (put_block h p (Core_Block 0 r m)) (\<lambda>h. Inr (p, h))))))
        else Inr (p, h))"

definition arm_destroy :: "heap \<Rightarrow> nat \<Rightarrow> heap outcome" where
  "arm_destroy h p =
     bnd (block_at h p) (\<lambda>b.
       case b of Core_Block c r mp \<Rightarrow> bnd (registers_destroy h r) (\<lambda>h. free h p) | _ \<Rightarrow> Inl Abort)"

text \<open>The accesses of \<^verbatim>\<open>memory.c\<close> on a pointer: each reads \<^verbatim>\<open>mem->size\<close> first, and follows \<^verbatim>\<open>mem->memory\<close> only for an address in range.\<close>

definition memory_struct :: "heap \<Rightarrow> nat \<Rightarrow> (u64 \<times> int \<times> nat) outcome" where
  "memory_struct h m = bnd (block_at h m) (\<lambda>b. case b of Memory_Block sz be bytes \<Rightarrow> Inr (sz, be, bytes) | _ \<Rightarrow> Inl Abort)"

definition bytes_behind :: "heap \<Rightarrow> nat \<Rightarrow> u8 list outcome" where
  "bytes_behind h b = bnd (block_at h b) (\<lambda>b. case b of Bytes_Block bs \<Rightarrow> Inr bs | _ \<Rightarrow> Inl Abort)"

definition memory_read_byte_c :: "heap \<Rightarrow> nat \<Rightarrow> u32 \<Rightarrow> u8 option outcome" where
  "memory_read_byte_c h m address =
     bnd (memory_struct h m) (\<lambda>(sz, be, mem).
     if ucast address \<ge> sz then Inr None
     else bnd (bytes_behind h mem) (\<lambda>bs. bnd (load_bytes bs (unat address) 1) (\<lambda>bs. Inr (Some (hd bs)))))"

definition memory_read_half_c :: "host \<Rightarrow> heap \<Rightarrow> nat \<Rightarrow> u32 \<Rightarrow> u16 option outcome" where
  "memory_read_half_c hst h m address =
     bnd (memory_struct h m) (\<lambda>(sz, be, mem).
     if ucast address \<ge> sz - 1 then Inr None
     else bnd (bytes_behind h mem) (\<lambda>bs. bnd (load_bytes bs (unat address) 2) (\<lambda>bs.
       if is_big_endian hst = be then Inr (Some (host_value hst bs)) else Inr (Some (reverse_2 (host_value hst bs))))))"

definition memory_read_word_c :: "host \<Rightarrow> heap \<Rightarrow> nat \<Rightarrow> u32 \<Rightarrow> u32 option outcome" where
  "memory_read_word_c hst h m address =
     bnd (memory_struct h m) (\<lambda>(sz, be, mem).
     if ucast address \<ge> sz - 3 then Inr None
     else bnd (bytes_behind h mem) (\<lambda>bs. bnd (load_bytes bs (unat address) 4) (\<lambda>bs.
       if is_big_endian hst = be then Inr (Some (host_value hst bs)) else Inr (Some (reverse_4 (host_value hst bs))))))"

definition memory_write_byte_c :: "heap \<Rightarrow> nat \<Rightarrow> u32 \<Rightarrow> u8 \<Rightarrow> heap option outcome" where
  "memory_write_byte_c h m address value =
     bnd (memory_struct h m) (\<lambda>(sz, be, mem).
     if ucast address \<ge> sz then Inr None
     else bnd (bytes_behind h mem) (\<lambda>bs. bnd (store_bytes bs (unat address) [value]) (\<lambda>bs.
       bnd (put_block h mem (Bytes_Block bs)) (\<lambda>h. Inr (Some h)))))"

definition memory_write_half_c :: "host \<Rightarrow> heap \<Rightarrow> nat \<Rightarrow> u32 \<Rightarrow> u16 \<Rightarrow> heap option outcome" where
  "memory_write_half_c hst h m address value =
     bnd (memory_struct h m) (\<lambda>(sz, be, mem).
     if ucast address \<ge> sz - 1 then Inr None
     else bnd (bytes_behind h mem) (\<lambda>bs.
       bnd (store_bytes bs (unat address) (host_bytes hst 2 (if is_big_endian hst = be then value else reverse_2 value))) (\<lambda>bs.
       bnd (put_block h mem (Bytes_Block bs)) (\<lambda>h. Inr (Some h)))))"

definition memory_write_word_c :: "host \<Rightarrow> heap \<Rightarrow> nat \<Rightarrow> u32 \<Rightarrow> u32 \<Rightarrow> heap option outcome" where
  "memory_write_word_c hst h m address value =
     bnd (memory_struct h m) (\<lambda>(sz, be, mem).
     if ucast address \<ge> sz - 3 then Inr None
     else bnd (bytes_behind h mem) (\<lambda>bs.
       bnd (store_bytes bs (unat address) (host_bytes hst 4 (if is_big_endian hst = be then value else reverse_4 value))) (\<lambda>bs.
       bnd (put_block h mem (Bytes_Block bs)) (\<lambda>h. Inr (Some h)))))"

text \<open>The part of \<^verbatim>\<open>main\<close> before the threads start and after the debugger thread has ended.\<close>

definition main_create :: "bool \<Rightarrow> heap \<Rightarrow> registers_data \<Rightarrow> u8 list \<Rightarrow> (nat \<times> nat \<times> heap) outcome" where
  "main_create be h raw content =
     bnd (memory_create_c h 0x20000 (if be then 1 else 0) content) (\<lambda>(m, h).
     bnd (arm_create_c h m raw) (\<lambda>(arm, h). Inr (m, arm, h)))"

definition main_destroy :: "heap \<Rightarrow> nat \<Rightarrow> nat \<Rightarrow> heap outcome" where
  "main_destroy h m arm = bnd (arm_destroy h arm) (\<lambda>h. memory_destroy h m)"

section \<open>Values behind pointers\<close>

definition memory_at :: "heap \<Rightarrow> nat \<Rightarrow> memory_data outcome" where
  "memory_at h m =
     bnd (block_at h m) (\<lambda>b.
       case b of
         Memory_Block sz be bytes \<Rightarrow>
           bnd (block_at h bytes) (\<lambda>b. case b of Bytes_Block bs \<Rightarrow> Inr (memory_create sz be bs) | _ \<Rightarrow> Inl Abort)
       | _ \<Rightarrow> Inl Abort)"

definition core_at :: "heap \<Rightarrow> nat \<Rightarrow> u32 \<Rightarrow> cpu outcome" where
  "core_at h p carry =
     bnd (block_at h p) (\<lambda>b.
       case b of
         Core_Block c r mp \<Rightarrow>
           bnd (block_at h r) (\<lambda>b.
             case b of
               Registers_Block rd \<Rightarrow>
                 bnd (memory_at h mp) (\<lambda>m. Inr \<lparr>cycle_count = c, reg = rd, mem = m, shifter_carry_out = carry\<rparr>)
             | _ \<Rightarrow> Inl Abort)
       | _ \<Rightarrow> Inl Abort)"

section \<open>Lemmas\<close>

lemma arm_exception_reg:
  "arm_exception p exc =
     bnd (if exc = 1 then bnd (write_cpsr (reg p) 0x1d3) (\<lambda>r. write_usr_register r 15 0) else Inr (reg p)) (\<lambda>r. Inr (p\<lparr>reg := r\<rparr>))"
  by (simp add: arm_exception_def arm_write_cpsr_def arm_write_usr_register_def Exception_bit_9_def bnd_assoc)

text \<open>Fresh addresses are free.\<close>

definition wf_heap :: "heap \<Rightarrow> bool" where
  "wf_heap h \<longleftrightarrow> 0 < next_block h \<and> (\<forall>a \<ge> next_block h. store h a = None)"

text \<open>The heap after the start: four new blocks.\<close>

definition started :: "int \<Rightarrow> heap \<Rightarrow> registers_data \<Rightarrow> u8 list \<Rightarrow> heap" where
  "started e h rd content =
    (let n = next_block h
     in h\<lparr>store := (store h)(n \<mapsto> Memory_Block 0x20000 e (n + 1), n + 1 \<mapsto> Bytes_Block content,
            n + 2 \<mapsto> Core_Block 0 (n + 3) n, n + 3 \<mapsto> Registers_Block rd),
          next_block := n + 4\<rparr>)"

lemma reset_registers:
  assumes "raw_registers raw"
  shows "\<exists>rd. bnd (write_cpsr (registers_create raw) 0x1d3) (\<lambda>r. write_usr_register r 15 0) = Inr rd
    \<and> (\<exists>rd'. bnd (write_cpsr rd 0x1d3) (\<lambda>r. write_usr_register r 15 0) = Inr rd')"
proof -
  let ?m = "memory_create 0x20000 0 (replicate 0x20000 0)"
  let ?p = "\<lparr>cycle_count = 0, reg = registers_create raw, mem = ?m, shifter_carry_out = 0\<rparr>"
  have wf: "wf_core ?p"
    using assms wf_memory_create[of "replicate 0x20000 0" "0x20000" 0] by (simp add: wf_core_def wf_registers_create)
  then obtain p where p: "arm_exception ?p 1 = Inr p" "wf_core p"
    by (simp add: arm_exception_eq)
  moreover obtain p' where "arm_exception p 1 = Inr p'" using p(2) arm_exception_eq by metis
  ultimately show ?thesis by (auto simp: arm_exception_reg bnd_eq_Inr_iff)
qed

lemmas creation_simps = main_create_def memory_create_c_def arm_create_c_def registers_create_c_def
  arm_exception_c_def arm_exception_reg malloc_def put_block_def block_at_def Let_def

lemma main_create_eq:
  assumes "wf_heap h" "oom h = []" "raw_registers raw" "length content = 0x20000"
  shows "\<exists>rd. main_create be h raw content = Inr (next_block h, next_block h + 2, started (if be then 1 else 0) h rd content)
    \<and> (\<forall>p0. \<exists>p. main_init be p0 raw content = Inr p \<and> reg p = rd \<and> cycle_count p = 0
        \<and> mem p = memory_create 0x20000 (if be then 1 else 0) content \<and> shifter_carry_out p = shifter_carry_out p0)"
proof -
  let ?n = "next_block h" and ?m = "memory_create 0x20000 (if be then 1 else 0) content"
  let ?w = "bnd (write_cpsr (registers_create raw) 0x1d3) (\<lambda>r. write_usr_register r 15 0)"
  obtain rd where rd: "?w = Inr rd" using reset_registers[OF assms(3)] by blast
  have n: "?n \<noteq> 0" using assms(1) by (simp add: wf_heap_def)
  have "main_create be h raw content = Inr (?n, ?n + 2, started (if be then 1 else 0) h rd content)"
    using n assms(2) rd
    by (simp add: creation_simps started_def numeral_eq_Suc) (auto simp: fun_eq_iff)
  moreover have "\<exists>p. main_init be p0 raw content = Inr p \<and> reg p = rd \<and> cycle_count p = 0 \<and> mem p = ?m
      \<and> shifter_carry_out p = shifter_carry_out p0" for p0
    using rd by (simp add: main_init_def arm_create_def arm_exception_reg Let_def)
  ultimately show ?thesis by blast
qed

lemma started_lookup:
  assumes "wf_heap h"
  shows "block_at (started e h rd content) (next_block h) = Inr (Memory_Block 0x20000 e (next_block h + 1))"
    "block_at (started e h rd content) (Suc (next_block h)) = Inr (Bytes_Block content)"
    "block_at (started e h rd content) (next_block h + 2) = Inr (Core_Block 0 (next_block h + 3) (next_block h))"
    "block_at (started e h rd content) (next_block h + 3) = Inr (Registers_Block rd)"
  using assms by (simp_all add: started_def block_at_def wf_heap_def Let_def)

lemma core_at_started:
  "wf_heap h \<Longrightarrow> core_at (started e h rd content) (next_block h + 2) c =
     Inr \<lparr>cycle_count = 0, reg = rd, mem = memory_create 0x20000 e content, shifter_carry_out = c\<rparr>"
  by (simp add: core_at_def memory_at_def started_lookup del: add_2_eq_Suc')

lemma main_destroy_started:
  assumes "wf_heap h"
  shows "\<exists>h'. main_destroy (started e h rd content) (next_block h) (next_block h + 2) = Inr h' \<and> store h' = store h"
proof -
  have "store h (next_block h + k) = None" for k using assms by (simp add: wf_heap_def)
  from this[of 0] this[of 1] this[of 2] this[of 3] show ?thesis
    using assms
    by (simp add: main_destroy_def arm_destroy_def registers_destroy_def memory_destroy_def started_lookup del: add_2_eq_Suc')
      (auto simp: free_def block_at_def started_def wf_heap_def fun_eq_iff Let_def numeral_eq_Suc)
qed

lemma arm_exception_started:
  assumes "wf_heap h" "wf_core \<lparr>cycle_count = 0, reg = rd, mem = m, shifter_carry_out = c\<rparr>"
    and "m = memory_create 0x20000 e content"
  shows "\<exists>h'. arm_exception_c (started e h rd content) (next_block h + 2) exc = Inr h'
    \<and> core_at h' (next_block h + 2) c = arm_exception \<lparr>cycle_count = 0, reg = rd, mem = m, shifter_carry_out = c\<rparr> exc"
proof (cases "exc = 1")
  case True
  obtain rd' where rd': "bnd (write_cpsr rd 0x1d3) (\<lambda>r. write_usr_register r 15 0) = Inr rd'"
    using arm_exception_eq[OF assms(2), of 1] by (auto simp: arm_exception_reg bnd_eq_Inr_iff)
  have "put_block (started e h rd content) (next_block h + 3) (Registers_Block rd') = Inr (started e h rd' content)"
    using assms(1) by (simp add: put_block_def started_lookup) (simp add: started_def Let_def)
  then show ?thesis
    using True assms(1,3) rd' by (simp add: arm_exception_c_def arm_exception_reg started_lookup core_at_started del: add_2_eq_Suc')
next
  case False
  then show ?thesis using assms(1,3) by (simp add: arm_exception_c_def arm_exception_reg core_at_started del: add_2_eq_Suc')
qed

section \<open>Properties\<close>

text \<open>C8: storage.  When no allocation fails, the process starts with a processor whose pointers lead to the
  values that the other theories compute, and an exception acts on them as on the values; when the
  debugger thread has ended, every block is freed exactly once and none is left.  But the other
  thread still runs: a reset that arrives then follows a pointer to freed storage.\<close>

theorem storage_lifecycle:
  assumes "wf_heap h" and "oom h = []" and "raw_registers raw" and "length content = 0x20000"
  shows "\<exists>m arm h1 h2 p. main_create be h raw content = Inr (m, arm, h1)
    \<and> main_init be p0 raw content = Inr p \<and> core_at h1 arm (shifter_carry_out p0) = Inr p
    \<and> (\<forall>exc. \<exists>h'. arm_exception_c h1 arm exc = Inr h' \<and> core_at h' arm (shifter_carry_out p0) = arm_exception p exc)
    \<and> main_destroy h1 m arm = Inr h2 \<and> store h2 = store h \<and> arm_exception_c h2 arm 1 = Inl Freed"
proof -
  let ?n = "next_block h" and ?e = "if be then 1 else 0 :: int"
  let ?m = "memory_create 0x20000 ?e content"
  obtain rd p where rd: "main_create be h raw content = Inr (?n, ?n + 2, started ?e h rd content)"
      "main_init be p0 raw content = Inr p" "reg p = rd" "cycle_count p = 0" "mem p = ?m"
      "shifter_carry_out p = shifter_carry_out p0"
    using main_create_eq[OF assms] by metis
  have p: "p = \<lparr>cycle_count = 0, reg = rd, mem = ?m, shifter_carry_out = shifter_carry_out p0\<rparr>"
    using rd(3-6) by (cases p) simp
  have "wf_core p" using main_init_props(1)[OF assms(3,4) rd(2)] by simp
  then have exc: "\<exists>h'. arm_exception_c (started ?e h rd content) (?n + 2) e = Inr h'
      \<and> core_at h' (?n + 2) (shifter_carry_out p0) = arm_exception p e" for e
    using arm_exception_started[OF assms(1), of rd ?m "shifter_carry_out p0" ?e content e] unfolding p by blast
  obtain h2 where h2: "main_destroy (started ?e h rd content) ?n (?n + 2) = Inr h2" "store h2 = store h"
    using main_destroy_started[OF assms(1)] by blast
  then have "arm_exception_c h2 (?n + 2) 1 = Inl Freed"
    using assms(1) by (simp add: arm_exception_c_def block_at_def wf_heap_def)
  then show ?thesis using rd(1,2) h2 exc core_at_started[OF assms(1)] p by blast
qed

text \<open>An empty heap.\<close>

definition new_heap :: "bool list \<Rightarrow> heap" where
  "new_heap fails = \<lparr>store = (\<lambda>a. None), next_block = 1, oom = fails\<rparr>"

lemma wf_new_heap: "wf_heap (new_heap fails)" "oom (new_heap fails) = fails"
  by (simp_all add: wf_heap_def new_heap_def)

theorem storage_lifecycle_witness:
  "\<exists>m arm h1 h2. main_create False (new_heap []) raw_bank (replicate 0x20000 0) = Inr (m, arm, h1)
    \<and> main_destroy h1 m arm = Inr h2 \<and> store h2 = (\<lambda>a. None)"
proof -
  have "store (new_heap []) = (\<lambda>a. None)" by (simp add: new_heap_def)
  then show ?thesis
    using storage_lifecycle[OF wf_new_heap(1) wf_new_heap(2) raw_bank_ok, of "replicate 0x20000 0" False "cpu_machine []"] by auto
qed

text \<open>The accesses on a pointer and on the memory behind it.\<close>

lemmas pointer_defs = memory_read_byte_c_def memory_read_half_c_def memory_read_word_c_def memory_write_byte_c_def
  memory_write_half_c_def memory_write_word_c_def memory_struct_def bytes_behind_def

lemmas value_defs = memory_read_byte_def memory_read_half_def memory_read_word_def memory_write_byte_def
  memory_write_half_def memory_write_word_def memory_create_def

definition memory_pointer :: "heap \<Rightarrow> nat \<Rightarrow> u64 \<Rightarrow> int \<Rightarrow> nat \<Rightarrow> u8 list \<Rightarrow> bool" where
  "memory_pointer h m sz be b bs \<longleftrightarrow>
     block_at h m = Inr (Memory_Block sz be b) \<and> block_at h b = Inr (Bytes_Block bs) \<and> m \<noteq> b"

lemma memory_pointer_put:
  "memory_pointer h m sz be b bs \<Longrightarrow> \<exists>h'. put_block h b (Bytes_Block vs) = Inr h' \<and> memory_at h' m = Inr (memory_create sz be vs)"
  by (auto simp: memory_pointer_def put_block_def memory_at_def block_at_def split: if_splits option.splits)

lemma pointer_reads:
  assumes "memory_pointer h m sz be b bs"
  shows "memory_read_byte_c h m a = memory_read_byte (memory_create sz be bs) a"
    and "memory_read_half_c hst h m a = memory_read_half hst (memory_create sz be bs) a"
    and "memory_read_word_c hst h m a = memory_read_word hst (memory_create sz be bs) a"
  using assms by (simp_all add: memory_pointer_def pointer_defs value_defs)

text \<open>\<open>written h m c v\<close>: the write \<open>c\<close> through the pointer and the write \<open>v\<close> of the value have the same effect.\<close>

definition written :: "nat \<Rightarrow> heap option outcome \<Rightarrow> memory_data option outcome \<Rightarrow> bool" where
  "written m c v \<longleftrightarrow>
     (case v of
        Inl e \<Rightarrow> c = Inl e
      | Inr None \<Rightarrow> c = Inr None
      | Inr (Some mem') \<Rightarrow> \<exists>h'. c = Inr (Some h') \<and> memory_at h' m = Inr mem')"

lemma written_put:
  assumes "memory_pointer h m sz be b bs"
  shows "written m (bnd s (\<lambda>vs. bnd (put_block h b (Bytes_Block vs)) (\<lambda>h. Inr (Some h))))
    (bnd s (\<lambda>vs. Inr (Some \<lparr>mem_size = sz, mem_is_big_endian = be, mem_bytes = vs\<rparr>)))"
proof (cases s)
  case (Inr vs)
  then show ?thesis using memory_pointer_put[OF assms, of vs] by (auto simp: written_def memory_create_def)
qed (simp add: written_def)

lemma pointer_writes:
  assumes "memory_pointer h m sz be b bs"
  shows "written m (memory_write_byte_c h m a v) (memory_write_byte (memory_create sz be bs) a v)"
    and "written m (memory_write_half_c hst h m a w) (memory_write_half hst (memory_create sz be bs) a w)"
    and "written m (memory_write_word_c hst h m a x) (memory_write_word hst (memory_create sz be bs) a x)"
proof -
  have at: "block_at h m = Inr (Memory_Block sz be b)" "block_at h b = Inr (Bytes_Block bs)"
    using assms by (simp_all add: memory_pointer_def)
  have none: "written m (Inr None) (Inr None)" by (simp add: written_def)
  show "written m (memory_write_byte_c h m a v) (memory_write_byte (memory_create sz be bs) a v)"
    "written m (memory_write_half_c hst h m a w) (memory_write_half hst (memory_create sz be bs) a w)"
    "written m (memory_write_word_c hst h m a x) (memory_write_word hst (memory_create sz be bs) a x)"
    using written_put[OF assms] none
    by (cases "sz \<le> ucast a"; cases "sz - 1 \<le> ucast a"; cases "sz - 3 \<le> ucast a"; simp add: at pointer_defs value_defs del: if_split)+
qed

text \<open>All six accesses through the pointer \<open>m\<close> are those on the value \<open>v\<close>.\<close>

definition accesses_as :: "host \<Rightarrow> heap \<Rightarrow> nat \<Rightarrow> memory_data \<Rightarrow> bool" where
  "accesses_as hst h m v \<longleftrightarrow>
     (\<forall>a. memory_read_byte_c h m a = memory_read_byte v a \<and> memory_read_half_c hst h m a = memory_read_half hst v a
        \<and> memory_read_word_c hst h m a = memory_read_word hst v a)
   \<and> (\<forall>a x. written m (memory_write_byte_c h m a x) (memory_write_byte v a x))
   \<and> (\<forall>a x. written m (memory_write_half_c hst h m a x) (memory_write_half hst v a x))
   \<and> (\<forall>a x. written m (memory_write_word_c hst h m a x) (memory_write_word hst v a x))"

text \<open>All six accesses follow a null pointer for an address in range, and return \<open>-1\<close> for any other.\<close>

definition accesses_null :: "host \<Rightarrow> heap \<Rightarrow> nat \<Rightarrow> bool" where
  "accesses_null hst h m \<longleftrightarrow>
     (\<forall>a. memory_read_byte_c h m a = (if unat a + 1 \<le> 0x20000 then Inl Null_Deref else Inr None)
        \<and> memory_read_half_c hst h m a = (if unat a + 2 \<le> 0x20000 then Inl Null_Deref else Inr None)
        \<and> memory_read_word_c hst h m a = (if unat a + 4 \<le> 0x20000 then Inl Null_Deref else Inr None))
   \<and> (\<forall>a x. memory_write_byte_c h m a x = (if unat a + 1 \<le> 0x20000 then Inl Null_Deref else Inr None))
   \<and> (\<forall>a x. memory_write_half_c hst h m a x = (if unat a + 2 \<le> 0x20000 then Inl Null_Deref else Inr None))
   \<and> (\<forall>a x. memory_write_word_c hst h m a x = (if unat a + 4 \<le> 0x20000 then Inl Null_Deref else Inr None))"

lemma memory_pointer_started:
  "wf_heap h \<Longrightarrow> memory_pointer (started e h rd content) (next_block h) 0x20000 e (next_block h + 1) content"
  by (simp add: memory_pointer_def started_lookup)

text \<open>A memory whose bytes could not be allocated.\<close>

lemma null_accesses:
  assumes "block_at h m = Inr (Memory_Block 0x20000 be 0)"
  shows "accesses_null hst h m"
proof -
  have "block_at h 0 = Inl Null_Deref" by (simp add: block_at_def)
  moreover have "unat (ucast a :: u64) = unat a" for a :: u32 by simp
  ultimately show ?thesis
    using assms by (simp add: accesses_null_def pointer_defs word_le_nat_alt)
qed

lemma create_without_bytes:
  assumes "wf_heap h" "raw_registers raw" "oom h = [False, True]"
  shows "\<exists>m arm h1 h2. main_create be h raw content = Inr (m, arm, h1) \<and> arm_exception_c h1 arm 1 = Inr h2
    \<and> block_at h1 m = Inr (Memory_Block 0x20000 (if be then 1 else 0) 0)"
proof -
  have n: "next_block h \<noteq> 0" using assms(1) by (simp add: wf_heap_def)
  obtain rd rd' where "bnd (write_cpsr (registers_create raw) 0x1d3) (\<lambda>r. write_usr_register r 15 0) = Inr rd"
      "bnd (write_cpsr rd 0x1d3) (\<lambda>r. write_usr_register r 15 0) = Inr rd'"
    using reset_registers[OF assms(2)] by blast
  then show ?thesis using n assms(3) by (simp add: creation_simps)
qed

text \<open>C32: failing allocations.  When none fails, the accesses through the pointer to the memory have the results and effects of
  those on the value behind it.  The structures are used without a check: a failure of the first or the fourth
  allocation ends the process at the start by a null pointer.  One of the second leaves a memory
  whose every access in range, of any width, does so, while an access out of range still returns \<open>-1\<close>.  One of the third leaves no
  processor, which the first reset and the end of the process follow.\<close>

theorem out_of_memory:
  assumes "wf_heap h" and "raw_registers raw" and "length content = 0x20000"
  shows "(oom h = [] \<longrightarrow> (\<exists>m arm h1 v. main_create be h raw content = Inr (m, arm, h1) \<and> memory_at h1 m = Inr v
        \<and> accesses_as hst h1 m v))
    \<and> (oom h = [True] \<longrightarrow> main_create be h raw content = Inl Null_Deref)
    \<and> (oom h = [False, True] \<longrightarrow> (\<exists>m arm h1 h2. main_create be h raw content = Inr (m, arm, h1)
        \<and> arm_exception_c h1 arm 1 = Inr h2 \<and> accesses_null hst h1 m))
    \<and> (oom h = [False, False, True] \<longrightarrow> (\<exists>m h1. main_create be h raw content = Inr (m, 0, h1)
        \<and> arm_exception_c h1 0 1 = Inl Null_Deref \<and> main_destroy h1 m 0 = Inl Null_Deref))
    \<and> (oom h = [False, False, False, True] \<longrightarrow> main_create be h raw content = Inl Null_Deref)"
proof -
  have n: "next_block h \<noteq> 0" using assms(1) by (simp add: wf_heap_def)
  let ?e = "if be then 1 else 0 :: int"
  have "\<exists>rd. main_create be h raw content = Inr (next_block h, next_block h + 2, started ?e h rd content)
      \<and> memory_at (started ?e h rd content) (next_block h) = Inr (memory_create 0x20000 ?e content)
      \<and> accesses_as hst (started ?e h rd content) (next_block h) (memory_create 0x20000 ?e content)" if "oom h = []"
    using main_create_eq[OF assms(1) that assms(2,3), of be] pointer_reads[OF memory_pointer_started[OF assms(1)]]
      pointer_writes[OF memory_pointer_started[OF assms(1)]] assms(1)
    by (auto simp: accesses_as_def memory_at_def started_lookup)
  moreover have "oom h = [True] \<longrightarrow> main_create be h raw content = Inl Null_Deref"
    by (simp add: creation_simps)
  moreover have "oom h = [False, False, True] \<longrightarrow> (\<exists>m h1. main_create be h raw content = Inr (m, 0, h1)
        \<and> arm_exception_c h1 0 1 = Inl Null_Deref \<and> main_destroy h1 m 0 = Inl Null_Deref)"
    using n by (simp add: creation_simps main_destroy_def arm_destroy_def)
  moreover have "oom h = [False, False, False, True] \<longrightarrow> main_create be h raw content = Inl Null_Deref"
    using n by (simp add: creation_simps)
  ultimately show ?thesis using create_without_bytes[OF assms(1,2)] null_accesses by blast
qed

theorem out_of_memory_witness:
  "main_create False (new_heap [True]) raw_bank (replicate 0x20000 0) = Inl Null_Deref
    \<and> (\<exists>m arm h1. main_create False (new_heap [False, True]) raw_bank (replicate 0x20000 0) = Inr (m, arm, h1)
        \<and> memory_read_word_c x86_host h1 m 0 = Inl Null_Deref \<and> memory_read_word_c x86_host h1 m 0x20000 = Inr None)"
proof -
  note oom = out_of_memory[OF wf_new_heap(1) raw_bank_ok, of "replicate 0x20000 0", unfolded wf_new_heap(2), OF length_replicate]
  have "unat (0x20000 :: u32) = 0x20000" by simp
  then have "memory_read_word_c x86_host h1 m 0 = Inl Null_Deref \<and> memory_read_word_c x86_host h1 m 0x20000 = Inr None"
    if "accesses_null x86_host h1 m" for h1 m
    using that by (simp add: accesses_null_def)
  then have "\<exists>m arm h1. main_create False (new_heap [False, True]) raw_bank (replicate 0x20000 0) = Inr (m, arm, h1)
      \<and> memory_read_word_c x86_host h1 m 0 = Inl Null_Deref \<and> memory_read_word_c x86_host h1 m 0x20000 = Inr None"
    using oom[THEN conjunct2, THEN conjunct2, THEN conjunct1, rule_format, OF refl, of False x86_host] by blast
  then show ?thesis using oom[THEN conjunct2, THEN conjunct1, rule_format, OF refl] by blast
qed

end
