(* ===== verification/Main_Program.thy ===== *)
theory Main_Program
  imports Options Network Storage
begin

text \<open>
  The function \<^verbatim>\<open>main\<close> of \<^verbatim>\<open>arm_simulator.c\<close> from the command line to the last \<^verbatim>\<open>free\<close>: options, storage, the session
  of the debugger thread that \<^verbatim>\<open>main\<close> waits for, destruction.  This is the run in which no exception arrives; what
  the other thread may do meanwhile is in \<open>Process\<close>, \<open>Network\<close> and \<open>Threads\<close>.  Tracing, which changes no result,
  is in \<open>Trace\<close>.
\<close>

section \<open>Main\<close>

text \<open>The session works on the value behind the pointer; \<open>core_put\<close> writes back what it leaves.\<close>

definition core_put :: "heap \<Rightarrow> nat \<Rightarrow> cpu \<Rightarrow> heap outcome" where
  "core_put h p v =
     bnd (block_at h p) (\<lambda>b.
       case b of
         Core_Block c r mp \<Rightarrow>
           bnd (block_at h mp) (\<lambda>b.
             case b of
               Memory_Block sz e bs \<Rightarrow>
                 bnd (put_block h bs (Bytes_Block (mem_bytes (mem v)))) (\<lambda>h.
                 bnd (put_block h r (Registers_Block (reg v))) (\<lambda>h.
                 put_block h p (Core_Block (cycle_count v) r mp)))
             | _ \<Rightarrow> Inl Abort)
       | _ \<Rightarrow> Inl Abort)"

text \<open>The \<^verbatim>\<open>malloc\<close> of \<^verbatim>\<open>gdb_init_data\<close>: nothing, or a block with the bytes \<open>pk\<close> in its packet buffer.  No function frees it.\<close>

definition session_storage :: "heap \<Rightarrow> u8 list \<Rightarrow> u8 list option \<times> heap" where
  "session_storage heap pk = (let (gdb, heap) = malloc heap Session_Block in (if gdb = 0 then None else Some pk, heap))"

text \<open>\<open>raw\<close>, \<open>content\<close>, \<open>pk\<close> and \<open>err\<close> are the raw contents of allocated and local buffers, \<open>carry\<close> the start value of
  \<^verbatim>\<open>shifter_carry_out\<close>.  The storage of the session is allocated after the storage of the processor and before any other use
  of the heap; without a connection the process has ended before.\<close>

definition arm_simulator_main ::
    "'os kernel \<Rightarrow> ('os \<Rightarrow> nat \<Rightarrow> u8 list option) \<Rightarrow> ('os \<Rightarrow> nat \<Rightarrow> nat \<Rightarrow> link) \<Rightarrow> host \<Rightarrow> bool \<Rightarrow> (nat \<Rightarrow> nat \<Rightarrow> u32) \<Rightarrow> u8 list set
      \<Rightarrow> registers_data \<Rightarrow> u8 list \<Rightarrow> u8 list \<Rightarrow> u8 list \<Rightarrow> u32 \<Rightarrow> u8 list list \<Rightarrow> heap \<Rightarrow> 'os
      \<Rightarrow> (options \<times> u16 \<times> gdb_protocol_data option parser_data \<times> heap \<times> 'os) outcome option" where
  "arm_simulator_main k input peer h be junk can_open raw content pk err carry argv heap os =
     (case bnd (main_args can_open argv) (\<lambda>opts.
            bnd (main_create be heap raw content) (\<lambda>(m, arm, heap).
            bnd (core_at heap arm carry) (\<lambda>p. Inr (opts, m, arm, p, session_storage heap pk)))) of
        Inl e \<Rightarrow> Some (Inl e)
      | Inr (opts, m, arm, p, gdb, heap) \<Rightarrow>
          (case gdb_listener k input peer h be junk os (gdb_port opts) p gdb err of
             None \<Rightarrow> None
           | Some (Inl e) \<Rightarrow> Some (Inl e)
           | Some (Inr (q, d, os)) \<Rightarrow>
               Some (bnd (case parser_gdb d of None \<Rightarrow> Inr heap | Some g \<Rightarrow> core_put heap arm (gdb_arm g)) (\<lambda>heap.
                 bnd (main_destroy heap m arm) (\<lambda>heap. Inr (opts, q, d, heap, os))))))"

section \<open>Lemmas\<close>

text \<open>The heap while the debugger is served: the blocks of the start and the state of the session.\<close>

definition serving :: "int \<Rightarrow> heap \<Rightarrow> registers_data \<Rightarrow> u8 list \<Rightarrow> heap" where
  "serving e h rd content =
     (started e h rd content)\<lparr>store := (store (started e h rd content))(next_block h + 4 \<mapsto> Session_Block), next_block := next_block h + 5\<rparr>"

lemma session_storage_started:
  "wf_heap h \<Longrightarrow> oom h = [] \<Longrightarrow> session_storage (started e h rd content) pk = (Some pk, serving e h rd content)"
  by (simp add: session_storage_def malloc_def serving_def started_def Let_def)

lemma session_destroyed:
  assumes "wf_heap h"
  shows "\<exists>h1 h2. core_put (serving e h rd content) (next_block h + 2) v = Inr h1
    \<and> main_destroy h1 (next_block h) (next_block h + 2) = Inr h2 \<and> store h2 = (store h)(next_block h + 4 \<mapsto> Session_Block)"
proof -
  have none: "store h (next_block h + k) = None" for k using assms by (simp add: wf_heap_def)
  have at: "block_at (serving e h rd content) (next_block h) = Inr (Memory_Block 0x20000 e (next_block h + 1))"
    "block_at (serving e h rd content) (next_block h + 2) = Inr (Core_Block 0 (next_block h + 3) (next_block h))"
    using started_lookup[OF assms, of e rd content] assms by (simp_all add: serving_def block_at_def wf_heap_def)
  show ?thesis
    using assms none[of 0] none[of 1] none[of 2] none[of 3]
    by (simp add: core_put_def at put_block_def del: add_2_eq_Suc')
      (auto simp: block_at_def serving_def started_def main_destroy_def arm_destroy_def registers_destroy_def
        memory_destroy_def free_def Let_def numeral_eq_Suc wf_heap_def fun_eq_iff)
qed

text \<open>What a run comes to once the options are read.\<close>

lemma main_session:
  assumes "wf_heap heap" "oom heap = []" "raw_registers raw" "length content = 0x20000" "main_args can_open argv = Inr opts"
    and "arm_simulator_main k input peer h be junk can_open raw content pk err carry argv heap os = Some r"
    and "\<And>p q d os'. gdb_listener k input peer h be junk os (gdb_port opts) p (Some pk) err = Some (Inr (q, d, os')) \<Longrightarrow> sys_core p \<Longrightarrow> parser_gdb d \<noteq> None"
  shows "\<exists>p. sys_core p \<and> mem_size (mem p) = 0x20000
    \<and> ((\<exists>e. r = Inl e \<and> gdb_listener k input peer h be junk os (gdb_port opts) p (Some pk) err = Some (Inl e))
       \<or> (\<exists>q d heap' os'. r = Inr (opts, q, d, heap', os') \<and> store heap' = (store heap)(next_block heap + 4 \<mapsto> Session_Block)
           \<and> gdb_listener k input peer h be junk os (gdb_port opts) p (Some pk) err = Some (Inr (q, d, os'))))"
proof -
  let ?n = "next_block heap" and ?e = "if be then 1 else 0 :: int"
  let ?p0 = "(cpu_machine [])\<lparr>shifter_carry_out := carry\<rparr>"
  obtain rd where rd1: "main_create be heap raw content = Inr (?n, ?n + 2, started ?e heap rd content)"
      "\<forall>p0. \<exists>p. main_init be p0 raw content = Inr p \<and> reg p = rd \<and> cycle_count p = 0
        \<and> mem p = memory_create 0x20000 ?e content \<and> shifter_carry_out p = shifter_carry_out p0"
    using main_create_eq[OF assms(1-4), of be] by blast
  obtain p where rd: "main_init be ?p0 raw content = Inr p" "reg p = rd" "cycle_count p = 0"
      "mem p = memory_create 0x20000 ?e content" "shifter_carry_out p = carry"
    using rd1(2)[rule_format, of ?p0] by auto
  have p: "p = \<lparr>cycle_count = 0, reg = rd, mem = memory_create 0x20000 ?e content, shifter_carry_out = carry\<rparr>"
    using rd(2-5) by (cases p) simp
  have sys: "sys_core p" "mem_size (mem p) = 0x20000" using main_init_props(1,2)[OF assms(3,4) rd(1)] by simp_all
  have at: "core_at (started ?e heap rd content) (?n + 2) carry = Inr p" using core_at_started[OF assms(1)] p by simp
  let ?session = "gdb_listener k input peer h be junk os (gdb_port opts) p (Some pk) err"
  have run: "arm_simulator_main k input peer h be junk can_open raw content pk err carry argv heap os =
     (case ?session of
             None \<Rightarrow> None
           | Some (Inl e) \<Rightarrow> Some (Inl e)
           | Some (Inr (q, d, os)) \<Rightarrow>
               Some (bnd (case parser_gdb d of None \<Rightarrow> Inr (serving ?e heap rd content)
                   | Some g \<Rightarrow> core_put (serving ?e heap rd content) (?n + 2) (gdb_arm g)) (\<lambda>heap.
                 bnd (main_destroy heap ?n (?n + 2)) (\<lambda>heap. Inr (opts, q, d, heap, os)))))"
    by (simp add: arm_simulator_main_def assms(5) rd1(1) at session_storage_started[OF assms(1,2)] del: add_2_eq_Suc')
  show ?thesis
  proof (cases ?session)
    case None
    then show ?thesis using run assms(6) by simp
  next
    case (Some x)
    show ?thesis
    proof (cases x)
      case (Inl e)
      then show ?thesis using run assms(6) Some sys by auto
    next
      case (Inr y)
      obtain q d os' where y: "y = (q, d, os')" by (cases y)
      then obtain g where g: "parser_gdb d = Some g" using assms(7)[of p q d os'] Some Inr sys(1) by auto
      from session_destroyed[OF assms(1), of ?e rd content "gdb_arm g"] obtain h1 h2
        where "core_put (serving ?e heap rd content) (?n + 2) (gdb_arm g) = Inr h1" "main_destroy h1 ?n (?n + 2) = Inr h2"
          "store h2 = (store heap)(?n + 4 \<mapsto> Session_Block)" by blast
      then have "r = Inr (opts, q, d, h2, os')" "store h2 = (store heap)(?n + 4 \<mapsto> Session_Block)"
        using run assms(6) Some Inr y g by (simp_all del: add_2_eq_Suc')
      then show ?thesis using Some Inr y sys by blast
    qed
  qed
qed

lemma main_returns:
  assumes "main_args can_open argv = Inr s" "\<And>p gdb. gdb \<in> {None, Some pk} \<Longrightarrow> gdb_listener k input peer h be junk os (gdb_port s) p gdb err \<noteq> None"
  shows "\<exists>r. arm_simulator_main k input peer h be junk can_open raw content pk err carry argv heap os = Some r"
proof (cases "main_create be heap raw content")
  case (Inl e)
  then show ?thesis using assms(1) by (simp add: arm_simulator_main_def)
next
  case (Inr x)
  obtain m arm heap1 where x: "x = (m, arm, heap1)" by (cases x)
  show ?thesis
  proof (cases "core_at heap1 arm carry")
    case (Inl e)
    then show ?thesis using assms(1) Inr x by (simp add: arm_simulator_main_def)
  next
    case p: (Inr p)
    obtain gdb heap2 where "session_storage heap1 pk = (gdb, heap2)" "gdb \<in> {None, Some pk}"
      by (cases "malloc heap1 Session_Block"; cases "fst (malloc heap1 Session_Block) = 0") (simp_all add: session_storage_def)
    then show ?thesis using assms(1) Inr x p assms(2)[of gdb p] by (auto simp: arm_simulator_main_def split: sum.split)
  qed
qed

section \<open>Property\<close>



end
