(* ===== verification/Spec2Isabelle.thy ===== *)
theory Spec2Isabelle
  imports Isa Programs Threads Wrappers Main_Program
begin

text \<open>
  A verification development for Armator, a simulator of the ARMv5 processor written in C.

  \<^bold>\<open>The program.\<close>  A processor (\<^verbatim>\<open>arm_core.c\<close>) has a cycle counter, a register bank (\<^verbatim>\<open>registers.c\<close>) and a
  memory (\<^verbatim>\<open>memory.c\<close>).  A step (\<^verbatim>\<open>arm_instruction.c\<close>) fetches a word, checks its condition against the
  CPSR and dispatches it to the data-processing, load/store or branch module; a result other than
  0 goes to \<^verbatim>\<open>arm_exception.c\<close>.  The process (\<^verbatim>\<open>arm_simulator.c\<close>) reads its options, creates memory and
  processor and runs two threads that share them under a lock.  One serves a gdb client: the
  scanner (\<^verbatim>\<open>scanner.l\<close>) cuts the input into packets, which \<^verbatim>\<open>gdb_protocol.c\<close> analyses and answers; its
  commands read and write registers and memory and execute steps.  The other delivers exceptions
  read from a socket, which the program \<^verbatim>\<open>send_irq.c\<close> sends.  Both use the wrappers of \<^verbatim>\<open>csapp.c\<close> for system
  calls.  Accesses can be traced to a file (\<^verbatim>\<open>trace.c\<close>), and debug messages switched on by file name
  (\<^verbatim>\<open>debug.c\<close>).

  \<^bold>\<open>The theories.\<close>
  \<^item> \<open>Prelude\<close>: machine integers as words; \<open>outcome\<close>, a value or the reason why the process stops (null
    pointer, access outside an array or to freed storage, \<^verbatim>\<open>exit\<close>, \<^verbatim>\<open>abort\<close>, broken pipe), with its sequencing \<open>bnd\<close>; counted loops
    \<open>for_range\<close> and \<open>for_out\<close>; lemmas on words and lists.
  \<^item> \<open>Util\<close>: the macros of \<^verbatim>\<open>util.h\<close> and \<^verbatim>\<open>util.c\<close>.  What C leaves to the machine is the parameter \<open>host\<close>: byte
    order and shifts by 32 or more.  \<open>host_shl32\<close> states what processors document for a left shift
    by exactly 32: the value, or 0.
  \<^item> \<open>Arm_Constants\<close>: \<^verbatim>\<open>arm_constants.h\<close> and the name tables of \<^verbatim>\<open>arm_constants.c\<close>.
  \<^item> \<open>Memory\<close>: \<^verbatim>\<open>memory.c\<close>.  The locale \<open>memory_access\<close> states the contract of one width of access and is
    interpreted for bytes, half-words and words; \<open>word_at\<close>, \<open>put_word\<close> and their like say what an
    access does without the host.
  \<^item> \<open>Registers\<close>: \<^verbatim>\<open>registers.c\<close>, 37 physical registers behind a table of pointers per mode.  The locale
    \<open>register_file\<close> states the contract of a view of the registers and is interpreted for the
    current view, the user view, and two views of the processor.
  \<^item> \<open>Arm_Core\<close>: \<^verbatim>\<open>arm_core.c\<close> without its trace calls, and \<^verbatim>\<open>arm_exception.c\<close>; \<open>rget\<close>, \<open>rset\<close> and \<open>rview\<close> see the
    registers as values, \<open>sys_core\<close> is the invariant (well formed, in system mode), and the
    collection \<open>core_eqs\<close> rewrites every operation to them.
  \<^item> \<open>Arm_Data_Processing\<close>: \<^verbatim>\<open>arm_data_processing.c\<close>, against a reference barrel shifter (\<open>operand2\<close>) and a
    reference ALU (\<open>alu\<close>) with the flags of the architecture (\<open>arch_carry\<close>, \<open>arch_overflow\<close>); \<open>code_operand\<close> and \<open>alu_cpsr\<close> are what the code
    computes where it differs.  The global \<^verbatim>\<open>shifter_carry_out\<close> extends the record to \<open>cpu\<close>.
  \<^item> \<open>Arm_Load_Store\<close>: \<^verbatim>\<open>arm_load_store.c\<close>, and the single transfers against the addressing modes;
    \<open>Multiple_Transfer\<close>: LDM and STM reduced to rows of words and registers.
  \<^item> \<open>Arm_Branch_Other\<close>: \<^verbatim>\<open>arm_branch_other.c\<close>; \<open>Arm_Instruction\<close>: \<^verbatim>\<open>arm_instruction.c\<close>, with the exact
    conditions under which a step stops the process.
  \<^item> \<open>Simulator\<close>: executions as sequences of steps and external exceptions, the locale \<open>event_system\<close>
    with its interpretation, and the states reachable by them as an inductive relation.
  \<^item> \<open>Isa\<close>: an abstract machine of the instruction set, with decoded instructions, sixteen registers, a CPSR and a
    memory of bytes, and the map \<open>isa_of\<close> from the processor to it.  The locale \<open>event_refinement\<close> carries a
    refinement of single events to executions; it is interpreted for the simulator.
  \<^item> \<open>Storage\<close>: \<^verbatim>\<open>malloc\<close> and \<^verbatim>\<open>free\<close> on a heap of blocks, and the functions that create and destroy memory,
    register bank and processor and access the memory, with pointers; \<open>core_at\<close> reads the processor behind a pointer as the
    record of the other theories.
  \<^item> \<open>C_Strings\<close>: what the protocol uses of \<^verbatim>\<open>strcpy\<close>, \<^verbatim>\<open>sprintf\<close>, \<^verbatim>\<open>sscanf\<close> and \<^verbatim>\<open>atoi\<close>.
  \<^item> \<open>Gdb_Protocol\<close>: all of \<^verbatim>\<open>gdb_protocol.c\<close>, with the failure of its writes: after \<open>k\<close>, or when the debugger is gone, a write ends the
    process (\<open>hangup\<close>).  \<open>Gdb_Packets\<close>: framing, checksum, and the text of registers;
    \<open>Gdb_Memory\<close>: the commands \<open>m\<close> and \<open>X\<close>; \<open>Gdb_Control\<close>: the invariant \<open>gdb_inv\<close>, kept by every
    command, and the commands \<open>c\<close>, \<open>s\<close>, \<open>p\<close> and \<open>P\<close>.
  \<^item> \<open>Scanner\<close>: \<^verbatim>\<open>scanner.l\<close>, its rules, actions and error buffer.  The locale \<open>packet_sink\<close> is what the
    scanner needs of the protocol and is interpreted by it, behind a pointer that may be null.
  \<^item> \<open>Debug\<close>: \<^verbatim>\<open>debug.c\<close> and the macros of \<^verbatim>\<open>debug.h\<close>; the locale \<open>name_set\<close> is the abstract set that the sorted array implements.
  \<^item> \<open>Trace\<close>: \<^verbatim>\<open>trace.c\<close>, \<^verbatim>\<open>trace_location.h\<close>, the accesses of \<^verbatim>\<open>arm_core.c\<close> with their trace calls, and the
    printing of the state.  The locale \<open>traced_access\<close> is interpreted for each of the 15 accesses.
  \<^item> \<open>Rio\<close>: the robust I/O functions of \<^verbatim>\<open>csapp.c\<close>.  The locale \<open>byte_source\<close> is what their loops rely on; it is
    interpreted by \<^verbatim>\<open>read\<close> and by the buffered \<^verbatim>\<open>rio_read\<close>.
  \<^item> \<open>Process\<close>: the options of \<^verbatim>\<open>arm_simulator.c\<close>, the interleavings of its threads as an inductive relation, and
    the lookup of \<^verbatim>\<open>send_irq.c\<close>.
  \<^item> \<open>Network\<close>: the sockets: wrappers and helpers of \<^verbatim>\<open>csapp.c\<close>, \<^verbatim>\<open>create_server\<close> and the two listeners, and all of
    \<^verbatim>\<open>send_irq.c\<close>.  The system calls are a parameter; \<open>net_ok\<close> states the documented behaviour of stream
    sockets that the programs rely on, and \<open>loop_kernel\<close> is a system that has it.
  \<^item> \<open>Threads\<close>: the two threads with the lock, step by step: receiving and checking a packet outside the lock, taking and
    giving back the lock, every pass of the loop of \<open>c\<close>, and the exception thread beside them.  A
    simulation relates these interleavings to the atomic steps of \<open>Process\<close>.
  \<^item> \<open>Options\<close>: \<^verbatim>\<open>getopt_long\<close> as its manual describes it, with the tables of \<^verbatim>\<open>main\<close>, the ways to spell an option, and the
    usage texts.
  \<^item> \<open>Main_Program\<close>: \<^verbatim>\<open>main\<close> from the command line to the last \<^verbatim>\<open>free\<close>, over \<open>Options\<close>, \<open>Storage\<close> and \<open>Network\<close>.
  \<^item> \<open>Wrappers\<close>: the other wrappers of \<^verbatim>\<open>csapp.c\<close>, for processes, signals, files, storage, threads and semaphores, over a
    parameter for the functions that they call.  The locale \<open>wrapping\<close> is the contract of a wrapper; the table \<open>manual\<close> says how
    each function reports a failure according to its documentation.
  \<^item> \<open>Programs\<close>: the test programs and the example \<^verbatim>\<open>insertion_sort.c\<close>.
  \<^item> This theory: machine-code programs, alone and under the debugger.

  \<^bold>\<open>How the code is modelled.\<close>  One definition per C function, with its name (\<open>_ins\<close>, \<open>_c\<close> or \<open>gdb_\<close> added where
  the name is taken).  A structure is a record, passed and returned; a result of \<open>-1\<close> with an
  unset out-parameter is \<open>None\<close>; a truth value is a \<open>bool\<close>.  Integers keep their width.  Loops
  are counted or have a termination proof, but for some that may run forever, \<open>cont_loop\<close>, the loops of
  \<open>Rio\<close> and \<open>irq_reads\<close>, where \<open>None\<close> means just that; the theorems say when they return.  The loop of
  \<^verbatim>\<open>irq_listener\<close> never ends: \<open>irq_serve\<close> makes a given number of passes, and the theorem takes as many as
  there are senders.  Where the source repeats a block for both directions or both register views (\<^verbatim>\<open>ldm\<close>,
  \<^verbatim>\<open>stm\<close>), one definition takes the direction and the view as arguments.  Uninitialised variables that
  the protocol may read are arguments (\<open>junk\<close>), as are the raw contents of new buffers, the results
  of system calls, and the set of files that \<^verbatim>\<open>fopen\<close> can open.  What is written to a connection or a
  file is a list of bytes or characters in the state.  The lexer follows what flex documents for
  its rules: the longest match, then the first rule.

  \<^bold>\<open>What is shown.\<close>  Memory accesses are bounds-checked, read back and independent of the host; register
  views obey the register-file laws and the table is the architecture's banking; every
  data-processing instruction computes the reference result, and the flags of the architecture but for those listed below; every load and store
  follows its addressing mode, aborts exactly out of range and round-trips; after CMP all sixteen
  conditions mean what their names say; a step stops the process for three kinds of instructions
  only and otherwise keeps the invariant, as do every execution, every session of a client, whatever
  it sends, and every interleaving of the two threads.  All this comes together in a refinement: what the simulator
  does is what the abstract machine of the instruction set does, on every host.  Packets are framed and checked; registers
  and memory written through the protocol are read back, up to the bytes of whole sessions; \<open>c\<close>
  comes back at the first breakpoint ahead, and runs a loop to its end.  Tracing changes no
  result; the debug module is a set of names; reads and writes are complete however the system cuts
  them; exceptions sent over the network arrive in their order; the storage of processor and memory is freed exactly once.  The lock makes packets and
  exceptions atomic whatever the scheduler does; a program that is running under \<open>c\<close> cannot be interrupted until it
  stops.  Options mean the same however they are spelled, and \<^verbatim>\<open>main\<close> serves the debugger at the port that they give
  and frees what it has allocated, but for the state of the session.  Calls through the wrappers stop at the first that fails, as the manuals
  define failure, with two exceptions.  The
  tests of the repository succeed on every host.
  Several theorems state where the code fails or differs from the architecture and the protocol: the V flag of
  additions, the flags C and V of SBC and RSC, register shifts by zero, push and pop, MSR and MUL, the missing
  SPSR, tiny memories, long answers to \<open>m\<close>, register numbers in \<open>p\<close> and \<open>P\<close>, the 65th debugged file, unchecked
  allocations, a session that is not freed and goes on reading after \<open>k\<close>, a processor freed while a thread uses it, connections that are never closed, the
  length that \<^verbatim>\<open>rio_readlineb\<close> returns.

  \<^bold>\<open>What is not modelled.\<close>  The creation of the two threads, which run from the start of \<open>Threads\<close>; calls that block, which here succeed
  or fail; how many bytes of an answer get through before its write fails; the calls of debug messages and of
  \<^verbatim>\<open>trace_arm_state\<close> inside the protocol, which only print; the texts of \<^verbatim>\<open>perror\<close> and \<^verbatim>\<open>getopt_long\<close>; in \<open>Main_Program\<close>,
  exceptions that arrive during the session; the empty \<^verbatim>\<open>arm_init\<close>; \<^verbatim>\<open>no_trace_location.h\<close>, which only removes the macros that
  \<open>Trace\<close> models.  Half-word and word accesses at unaligned host addresses behave as on x86.
\<close>

section \<open>Machine-code programs\<close>

text \<open>The steps of three instructions: \<^verbatim>\<open>SUBS r0, r0, #1\<close>, \<^verbatim>\<open>BNE\<close> two instructions back, \<^verbatim>\<open>MOV pc, lr\<close>.\<close>

lemma subs_step:
  assumes "sys_core p" "host_shl32 h" "\<not> bit (rget p 15) 1" "word_at (mem p) (rget p 15) = Some 0xE2500001"
  shows "\<exists>p'. arm_step h p = Inr (0, p') \<and> sys_core p' \<and> mem p' = mem p
    \<and> rget p' 15 = rget p 15 + 4 \<and> rget p' 0 = rget p 0 - 1 \<and> (bit (rget p' 16) Z_bit \<longleftrightarrow> rget p 0 = 1)"
proof -
  have enc: "get_bits 0xE2500001 31 28 = 14" "get_bits 0xE2500001 27 25 = 1" "get_bits 0xE2500001 24 21 = 2"
    "get_bits 0xE2500001 19 16 = 0" "get_bits 0xE2500001 15 12 = 0" "get_bits 0xE2500001 11 8 = 0"
    "get_bits 0xE2500001 7 0 = 1"
    by code_simp+
  have "\<not> zero_right_shift (fetched p) 0xE2500001" by (simp add: zero_right_shift_def)
  then have so: "decode_so h (fetched p) 0xE2500001 = Inr (1, (fetched p)\<lparr>shifter_carry_out := of_bool (bit (rget p 16) C_bit)\<rparr>)"
    using assms(1,2) by (subst decode_so_eq) (simp_all add: operand2_def enc word_rotr_u32_0 Let_def)
  show ?thesis
    using assms(1,3,4) arm_data_processing_shift_eq[OF _ so]
    by (simp add: step_to_dispatch dispatch_def enc cond_passes_def alu_ins_def commit_def alu_def
        alu_cpsr_def rget_rset rview_def Let_def get_bit_eq)
qed

lemma bne_step:
  assumes "sys_core p" "\<not> bit (rget p 15) 1" "word_at (mem p) (rget p 15) = Some 0x1AFFFFFD"
  shows "\<exists>p'. arm_step h p = Inr (0, p') \<and> sys_core p' \<and> mem p' = mem p \<and> rget p' 0 = rget p 0
    \<and> rget p' 15 = (if bit (rget p 16) Z_bit then rget p 15 + 4 else rget p 15 - 4)"
proof -
  have "get_bits 0x1AFFFFFD 31 28 = 1" "get_bits 0x1AFFFFFD 27 25 = 5" "branch_offset 0x1AFFFFFD = - 12"
    by code_simp+
  then show ?thesis
    using assms
    by (simp add: step_to_dispatch dispatch_def cond_passes_def arm_branch_eq rget_rset pc_view_next Let_def)
qed

lemma mov_pc_lr_step:
  assumes "sys_core p" "host_shl32 h" "\<not> bit (rget p 15) 1" "word_at (mem p) (rget p 15) = Some 0xE1A0F00E"
  shows "\<exists>p'. arm_step h p = Inr (0, p') \<and> sys_core p' \<and> mem p' = mem p
    \<and> rget p' 15 = rget p 14 \<and> (\<forall>r < 17. r \<noteq> 15 \<longrightarrow> rget p' r = rget p r)"
proof -
  have enc: "get_bits 0xE1A0F00E 31 28 = 14" "get_bits 0xE1A0F00E 27 25 = 0" "get_bits 0xE1A0F00E 24 21 = 13"
    "get_bits 0xE1A0F00E 15 12 = 15" "get_bits 0xE1A0F00E 11 7 = 0" "get_bits 0xE1A0F00E 6 5 = 0"
    "get_bits 0xE1A0F00E 3 0 = 14"
    by code_simp+
  have "\<not> zero_right_shift (fetched p) 0xE1A0F00E" by (simp add: zero_right_shift_def)
  then have so: "decode_so h (fetched p) 0xE1A0F00E
      = Inr (rget p 14, (fetched p)\<lparr>shifter_carry_out := of_bool (bit (rget p 16) C_bit)\<rparr>)"
    using assms(1,2)
    by (subst decode_so_eq) (simp_all add: operand2_def imm_shifter_def shifter_def enc rview_def Let_def)
  show ?thesis
    using assms(1,3,4) arm_data_processing_shift_eq[OF _ so]
    by (simp add: step_to_dispatch dispatch_def enc cond_passes_def alu_ins_def commit_def alu_def
        rget_rset Let_def get_bit_eq)
qed

lemma bit_1_plus_4_mult: "bit (a + 4 * k :: u32) 1 \<longleftrightarrow> bit a 1"
proof transfer
  fix a k :: int
  have "odd ((a + 4 * k) div 2) \<longleftrightarrow> odd (a div 2)" by presburger
  then show "1 < LENGTH(32) \<and> bit (a + 4 * k) 1 \<longleftrightarrow> 1 < LENGTH(32) \<and> bit a 1"
    by (simp add: bit_iff_odd)
qed

lemma get_bits_get_bits:
  "h \<le> hi - lo \<Longrightarrow> l \<le> h \<Longrightarrow> get_bits (get_bits x hi lo) h l = get_bits x (lo + h) (lo + l)"
  by (rule bit_word_eqI) (auto simp: add.assoc)

lemma bl_step:
  assumes "sys_core p" "\<not> bit (rget p 15) 1" "word_at (mem p) (rget p 15) = Some ins" "get_bits ins 31 24 = 0xEB"
  shows "\<exists>p'. arm_step h p = Inr (0, p') \<and> sys_core p' \<and> mem p' = mem p
    \<and> rget p' 15 = rget p 15 + 8 + branch_offset ins \<and> rget p' 14 = rget p 15 + 4
    \<and> (\<forall>r < 17. r \<noteq> 14 \<and> r \<noteq> 15 \<longrightarrow> rget p' r = rget p r)"
proof -
  have "get_bits 0xEB 7 4 = 14" "get_bits 0xEB 3 1 = 5" by code_simp+
  then have "get_bits ins 31 28 = 14" "get_bits ins 27 25 = 5"
    using get_bits_get_bits[of 7 31 24 4 ins, simplified] get_bits_get_bits[of 3 31 24 1 ins, simplified] by (simp_all add: assms(4))
  moreover have "bit ins 24" using bit_get_bits[of ins 31 24 0] by (simp add: assms(4))
  ultimately show ?thesis
    using assms
    by (simp add: step_to_dispatch dispatch_def cond_passes_def arm_branch_eq rget_rset pc_view_next Let_def)
qed

text \<open>One pass through a counting loop.\<close>

lemma countdown_pass:
  assumes "sys_core p" "host_shl32 h" "\<not> bit (rget p 15) 1"
    and "word_at (mem p) (rget p 15) = Some 0xE2500001" "word_at (mem p) (rget p 15 + 4) = Some 0x1AFFFFFD"
  shows "\<exists>p1 p2. arm_step h p = Inr (0, p1) \<and> arm_step h p1 = Inr (0, p2)
    \<and> sys_core p1 \<and> sys_core p2 \<and> mem p1 = mem p \<and> mem p2 = mem p
    \<and> rget p1 15 = rget p 15 + 4 \<and> \<not> bit (rget p1 15) 1
    \<and> rget p2 0 = rget p 0 - 1 \<and> rget p2 15 = (if rget p 0 = 1 then rget p 15 + 8 else rget p 15)"
proof -
  obtain p1 where p1: "arm_step h p = Inr (0, p1)" "sys_core p1" "mem p1 = mem p"
    "rget p1 15 = rget p 15 + 4" "rget p1 0 = rget p 0 - 1" "bit (rget p1 16) Z_bit \<longleftrightarrow> rget p 0 = 1"
    using subs_step[OF assms(1-4)] by auto
  have pc: "\<not> bit (rget p1 15) 1" using assms(3) bit_plus_4[of "rget p 15"] by (simp add: p1(4))
  then obtain p2 where "arm_step h p1 = Inr (0, p2)" "sys_core p2" "mem p2 = mem p1" "rget p2 0 = rget p1 0"
    "rget p2 15 = (if bit (rget p1 16) Z_bit then rget p1 15 + 4 else rget p1 15 - 4)"
    using bne_step[OF p1(2) pc] assms(5) by (auto simp: p1(3,4))
  then show ?thesis using p1 pc by simp
qed

lemma unat_pred:
  assumes "unat (x :: u32) = Suc n"
  shows "unat (x - 1) = n \<and> (x = 1 \<longleftrightarrow> n = 0)"
proof -
  have "x \<noteq> 0" using assms by auto
  then show ?thesis using assms by (auto simp: unat_minus_one word_unat_eq_iff)
qed

text \<open>The debugger runs the loop to the breakpoint behind it.\<close>

lemma cont_loop_countdown:
  assumes "sys_core (gdb_arm g)" "host_shl32 h" "\<not> bit (rget (gdb_arm g) 15) 1"
    and "word_at (mem (gdb_arm g)) (rget (gdb_arm g) 15) = Some 0xE2500001"
    and "word_at (mem (gdb_arm g)) (rget (gdb_arm g) 15 + 4) = Some 0x1AFFFFFD"
    and "word_at (mem (gdb_arm g)) (rget (gdb_arm g) 15 + 8) = Some brk" "is_breakpoint brk"
    and "0 < unat (rget (gdb_arm g) 0)"
  shows "\<exists>q. cont_loop h g ins = Some (Inr (g\<lparr>gdb_arm := q, target_exception := 0\<rparr>))
    \<and> rget q 0 = 0 \<and> rget q 15 = rget (gdb_arm g) 15 + 8 \<and> mem q = mem (gdb_arm g)"
  using assms(1,3-)
proof (induction "unat (rget (gdb_arm g) 0)" arbitrary: g ins)
  case (Suc n)
  let ?p = "gdb_arm g"
  obtain p1 p2 where s: "arm_step h ?p = Inr (0, p1)" "arm_step h p1 = Inr (0, p2)" "sys_core p1" "sys_core p2"
      "mem p1 = mem ?p" "mem p2 = mem ?p" "rget p1 15 = rget ?p 15 + 4" "\<not> bit (rget p1 15) 1"
      "rget p2 0 = rget ?p 0 - 1" "rget p2 15 = (if rget ?p 0 = 1 then rget ?p 15 + 8 else rget ?p 15)"
    using countdown_pass[OF Suc.prems(1) assms(2) Suc.prems(2-4)] by blast
  have n: "unat (rget p2 0) = n" "rget ?p 0 = 1 \<longleftrightarrow> n = 0" using unat_pred[OF Suc.hyps(2)[symmetric]] s(9) by auto
  have no: "\<not> is_breakpoint 0xE2500001" "\<not> is_breakpoint 0x1AFFFFFD" by code_simp+
  have next1: "next_ins ?p ins = 0xE2500001" and next2: "next_ins p1 0xE2500001 = 0x1AFFFFFD"
    using Suc.prems(2-4) s(5,7,8) by (simp_all add: next_ins_def fetch_addr_def add.commute)
  let ?g = "g\<lparr>gdb_arm := p2, target_exception := 0\<rparr>"
  have two: "cont_loop h g ins = cont_loop h ?g 0x1AFFFFFD"
    using Suc.prems(1) s(1-3) no next1 next2 by (simp add: cont_loop_eq[of g] cont_loop_eq[of "g\<lparr>gdb_arm := p1, target_exception := 0\<rparr>"])
  show ?case
  proof (cases "n = 0")
    case True
    have "\<not> bit (rget ?p 15 + 8) 1" using Suc.prems(2) bit_plus_4[of "rget ?p 15"] bit_plus_4[of "rget ?p 15 + 4"] by (simp add: add.commute)
    then have "next_ins p2 0x1AFFFFFD = brk"
      using True n s(6,10) Suc.prems(5) by (simp add: next_ins_def fetch_addr_def add.commute)
    then have "cont_loop h ?g 0x1AFFFFFD = Some (Inr ?g)" using s(4) Suc.prems(6) by (simp add: cont_loop_eq)
    then show ?thesis using two True n s(6,9,10) by (intro exI[of _ p2]) simp
  next
    case False
    then have "rget p2 15 = rget ?p 15" using n s(10) by simp
    then show ?thesis
      using Suc.hyps(1)[of ?g "0x1AFFFFFD"] Suc.prems(2-6) s(4,6) n(1) False two by simp
  qed
qed simp

section \<open>Properties\<close>

text \<open>C21: a counting loop runs to its end.  With \<^verbatim>\<open>SUBS r0, r0, #1\<close> at the PC, \<^verbatim>\<open>BNE\<close> back to it after that, and
  \<open>n > 0\<close> in r0, exactly \<open>2 n\<close> steps leave 0 in r0 and the PC behind the loop, the memory unchanged:
  flags, condition and backward branch work together.\<close>

theorem countdown_loop:
  assumes "sys_core p" and "host_shl32 h" and "\<not> bit (rget p 15) 1"
    and "word_at (mem p) (rget p 15) = Some 0xE2500001" and "word_at (mem p) (rget p 15 + 4) = Some 0x1AFFFFFD"
    and "0 < unat (rget p 0)"
  shows "\<exists>p'. exec h p (replicate (2 * unat (rget p 0)) Step) = Inr p'
    \<and> rget p' 0 = 0 \<and> rget p' 15 = rget p 15 + 8 \<and> mem p' = mem p"
  using assms(1,3-)
proof (induction "unat (rget p 0)" arbitrary: p)
  case (Suc n)
  obtain p1 p2 where s: "arm_step h p = Inr (0, p1)" "arm_step h p1 = Inr (0, p2)" "sys_core p2" "mem p2 = mem p"
      "rget p2 0 = rget p 0 - 1" "rget p2 15 = (if rget p 0 = 1 then rget p 15 + 8 else rget p 15)"
    using countdown_pass[OF Suc.prems(1) assms(2) Suc.prems(2-4)] by blast
  have two: "exec h p (replicate (2 * Suc n) Step) = exec h p2 (replicate (2 * n) Step)"
    by (simp add: event_step_def s(1,2))
  have n: "unat (rget p2 0) = n" "rget p 0 = 1 \<longleftrightarrow> n = 0" using unat_pred[OF Suc.hyps(2)[symmetric]] s(5) by auto
  show ?case
  proof (cases "n = 0")
    case True
    then show ?thesis using two n s(4-6) by (simp add: Suc.hyps(2)[symmetric] del: replicate_Suc)
  next
    case False
    then show ?thesis
      using Suc.hyps(1)[OF n(1)[symmetric] s(3)] Suc.prems(2-4) n two s(4,6)
      by (simp add: Suc.hyps(2)[symmetric] del: replicate_Suc)
  qed
qed simp

theorem countdown_loop_witness:
  "\<exists>p'. exec x86_host (rset (cpu_machine [0x01, 0x00, 0x50, 0xE2, 0xFD, 0xFF, 0xFF, 0x1A]) 0 1000)
      (replicate 2000 Step) = Inr p' \<and> rget p' 0 = 0 \<and> rget p' 15 = 8"
proof -
  let ?p = "rset (cpu_machine [0x01, 0x00, 0x50, 0xE2, 0xFD, 0xFF, 0xFF, 0x1A]) 0 1000"
  have "sys_core ?p" "rget ?p 15 = 0" "rget ?p 0 = 1000"
    by (simp_all add: sys_core_cpu_machine rget_rset rget_cpu_machine)
  moreover have "word_at (mem ?p) 0 = Some 0xE2500001" "word_at (mem ?p) 4 = Some 0x1AFFFFFD" by code_simp+
  ultimately show ?thesis using countdown_loop[of ?p x86_host] host_shl32_instances by auto
qed

text \<open>Call and return.  A \<^verbatim>\<open>BL\<close> at \<open>A\<close> to a subroutine that starts with \<^verbatim>\<open>MOV pc, lr\<close> comes back to \<open>A + 4\<close>
  after two steps, with every register but r14 as before and the memory unchanged.\<close>

theorem call_and_return:
  assumes "sys_core p" and "host_shl32 h" and "\<not> bit (rget p 15) 1"
    and "word_at (mem p) (rget p 15) = Some ins" and "get_bits ins 31 24 = 0xEB"
    and "word_at (mem p) (rget p 15 + 8 + branch_offset ins) = Some 0xE1A0F00E"
  shows "\<exists>p'. exec h p [Step, Step] = Inr p' \<and> rget p' 15 = rget p 15 + 4 \<and> mem p' = mem p
    \<and> (\<forall>r < 17. r \<noteq> 14 \<and> r \<noteq> 15 \<longrightarrow> rget p' r = rget p r)"
proof -
  obtain p1 where p1: "arm_step h p = Inr (0, p1)" "sys_core p1" "mem p1 = mem p"
    "rget p1 15 = rget p 15 + 8 + branch_offset ins" "rget p1 14 = rget p 15 + 4"
    "\<forall>r < 17. r \<noteq> 14 \<and> r \<noteq> 15 \<longrightarrow> rget p1 r = rget p r"
    using bl_step[OF assms(1,3-5), of h] by blast
  have "rget p1 15 = rget p 15 + 4 * (2 + word_of_int (sint (ucast ins :: 24 word)))"
    by (simp add: p1(4) branch_offset_def)
  then have "\<not> bit (rget p1 15) 1" using assms(3) by (simp only: bit_1_plus_4_mult) simp
  then obtain p2 where "arm_step h p1 = Inr (0, p2)" "mem p2 = mem p1" "rget p2 15 = rget p1 14"
    "\<forall>r < 17. r \<noteq> 15 \<longrightarrow> rget p2 r = rget p1 r"
    using mov_pc_lr_step[OF p1(2) assms(2)] assms(6) by (auto simp: p1(3,4))
  then show ?thesis using p1 by (auto simp: event_step_def)
qed

theorem call_and_return_witness:
  "\<exists>p'. exec x86_host (cpu_machine [0, 0, 0, 0xEB, 0, 0, 0, 0, 0x0E, 0xF0, 0xA0, 0xE1]) [Step, Step] = Inr p'
     \<and> rget p' 15 = 4"
proof -
  let ?p = "cpu_machine [0, 0, 0, 0xEB, 0, 0, 0, 0, 0x0E, 0xF0, 0xA0, 0xE1]"
  have "word_at (mem ?p) 0 = Some 0xEB000000" "word_at (mem ?p) 8 = Some 0xE1A0F00E"
    "get_bits 0xEB000000 31 24 = 0xEB" "branch_offset 0xEB000000 = 0" by code_simp+
  then show ?thesis
    using call_and_return[of ?p x86_host "0xEB000000"] host_shl32_instances
      sys_core_cpu_machine[of "[0, 0, 0, 0xEB, 0, 0, 0, 0, 0x0E, 0xF0, 0xA0, 0xE1]"]
    by (auto simp: rget_cpu_machine)
qed

text \<open>C10: a program under the debugger.  With a counting loop at the PC, \<open>n > 0\<close> in r0 and a breakpoint behind the
  loop, a client that sends the packet \<open>$c#63\<close> gets an acknowledgement and then the answer \<open>S05\<close>,
  after the processor has run the whole loop: r0 is 0, the PC is at the breakpoint, the memory is
  unchanged, as long as the client keeps the connection.  The session ends; with the scanner, the protocol, the step and the memory at work.\<close>

theorem continue_session:
  assumes "sys_core arm" and "host_shl32 h" and "length raw = MAX_PACKET_SIZE" and "\<not> bit (rget arm 15) 1"
    and "word_at (mem arm) (rget arm 15) = Some 0xE2500001" and "word_at (mem arm) (rget arm 15 + 4) = Some 0x1AFFFFFD"
    and "word_at (mem arm) (rget arm 15 + 8) = Some brk" and "is_breakpoint brk" and "0 < unat (rget arm 0)"
    and "\<forall>n. peer n = Link_Up"
  shows "\<exists>d g. gdb_scanner h be junk arm peer (Some raw) err (Some (ascii ''$c#63'')) = Some (Inr d) \<and> parser_gdb d = Some g
    \<and> sent g = ascii ''+$S05#b8'' \<and> rget (gdb_arm g) 0 = 0 \<and> rget (gdb_arm g) 15 = rget arm 15 + 8
    \<and> mem (gdb_arm g) = mem arm"
proof -
  obtain g0 where init: "gdb_init_data arm peer (Some raw) = Some g0" "gdb_arm g0 = arm" "sent g0 = []" "packet g0 = raw" "connected g0"
    using assms(10) by (simp add: gdb_init_data_def connected_def)
  let ?d = "\<lparr>parser_gdb = Some g0, err_buffer = err, err_len = 0\<rparr>"
  let ?g = "g0\<lparr>sent := sent g0 @ ascii ''+''\<rparr>"
  define n where "n = length (frame (ascii ''c'') @ []) - 1"
  have arm: "gdb_arm ?g = arm" by (simp add: init(2))
  obtain q where q: "cont_loop h ?g (junk n 0) = Some (Inr (?g\<lparr>gdb_arm := q, target_exception := 0\<rparr>))"
      "rget q 0 = 0" "rget q 15 = rget arm 15 + 8" "mem q = mem arm"
    using cont_loop_countdown[of ?g h brk "junk n 0", unfolded arm, OF assms(1,2,4-9)] by blast
  have "length (packet ?g) = MAX_PACKET_SIZE" "connected ?g" using assms(3) init(4,5) by simp_all
  then obtain g' where g': "gdb_send_stop_reason (?g\<lparr>gdb_arm := q, target_exception := 0\<rparr>) = Inr g'" "gdb_arm g' = q"
      "sent g' = sent ?g @ frame (ascii (stop_answer 0))"
    using sends_connected[OF stop_reason_after[of ?g 0 q]] by blast
  have bytes: "ascii ''$c#63'' = frame (ascii ''c'')" "ascii ''+'' @ frame (ascii (stop_answer 0)) = ascii ''+$S05#b8''"
    and tab: "gdb_init ! unat (hd (ascii ''c'')) = Some Cont" by code_simp+
  have "plain_text (ascii ''c'')" "ascii ''c'' \<noteq> []" by (simp_all add: plain_text_def ascii_def)
  then have "gdb_scanner h be junk arm peer (Some raw) err (Some (frame (ascii ''c'') @ [])) = Some (Inr (?d\<lparr>parser_gdb := Some g'\<rparr>))"
    using yylex_command[of "ascii ''c''" ?d Cont n "[]" g0 h be junk "at_session gdb_require_retransmission" "at_session gdb_transmit_packet",
        OF _ _ _ tab n_def] q(1) g'(1) init connected_hangup[OF init(5)]
    by (simp add: gdb_scanner_def call_handler_def cont_def handle_error_def)
  then show ?thesis using q(2-4) g'(2,3) bytes init(3) by simp
qed

theorem continue_session_witness:
  "\<exists>d g. gdb_scanner x86_host False (\<lambda>n i. 0)
      (rset (cpu_machine [0x01, 0x00, 0x50, 0xE2, 0xFD, 0xFF, 0xFF, 0x1A, 0xF0, 0x01, 0xF0, 0xE7]) 0 1000)
      (\<lambda>n. Link_Up) (Some (replicate 1024 0)) [] (Some (ascii ''$c#63'')) = Some (Inr d)
    \<and> parser_gdb d = Some g \<and> sent g = ascii ''+$S05#b8'' \<and> rget (gdb_arm g) 15 = 8"
proof -
  let ?p = "rset (cpu_machine [0x01, 0x00, 0x50, 0xE2, 0xFD, 0xFF, 0xFF, 0x1A, 0xF0, 0x01, 0xF0, 0xE7]) 0 1000"
  have "sys_core ?p" "rget ?p 15 = 0" "rget ?p 0 = 1000"
    by (simp_all add: sys_core_cpu_machine rget_rset rget_cpu_machine)
  moreover have "word_at (mem ?p) 0 = Some 0xE2500001" "word_at (mem ?p) 4 = Some 0x1AFFFFFD"
    "word_at (mem ?p) 8 = Some 0xE7F001F0" "is_breakpoint 0xE7F001F0" by code_simp+
  ultimately show ?thesis
    using continue_session[of ?p x86_host "replicate 1024 0" "0xE7F001F0" "\<lambda>n. Link_Up" False "\<lambda>n i. 0" "[]"] host_shl32_instances by auto
qed

end
